(* ===== verification/Prelude.thy ===== *)
theory Prelude
  imports Main "HOL-Library.Code_Target_Nat"
begin

text \<open>
  Shared vocabulary of the development: the errors the two daemons raise, programs that
  thread a state and may fail (the reading of a Rust function returning \<open>Result\<close>), the
  rules that compose facts about such programs, and a few facts on lists.

  A Rust function \<open>fn f(x) -> Result<T>\<close> with side effects is a function from the state
  to \<open>error + T\<close> and the next state. The \<open>?\<close> operator is \<open>io_bind\<close>: it stops at the
  first error and keeps the effects made so far. \<open>let r = f();\<close> (no \<open>?\<close>) is
  \<open>io_attempt\<close>, \<open>let _ = f();\<close> is \<open>io_ignore\<close>, \<open>f().context(c)?\<close> is \<open>io_ctx\<close> and
  \<open>for x in xs { f(x)?; }\<close> is \<open>io_for\<close>.
\<close>

section \<open>Errors\<close>

text \<open>\<open>std::io::ErrorKind\<close>, as far as the code tells the kinds apart.\<close>

datatype io_error =
    NotFound
  | AlreadyExists
  | NotADirectory
  | IsADirectory
  | UnexpectedEof
  | InvalidInput
  | InvalidData
  | OsError nat

text \<open>
  \<open>anyhow::Error\<close>: a message, an I/O error, an error of a library the code calls, or any of
  these under a context message. A panic is an outcome of its own: it ends the program as
  an error does, but no caller sees it.
\<close>

datatype err =
    Msg string
  | Io io_error
  | Lib string
  | Ctx string err
  | Panic string

text \<open>The error below all contexts (\<open>root_cause\<close>).\<close>

fun root_cause :: "err \<Rightarrow> err" where
  "root_cause (Ctx c e) = root_cause e"
| "root_cause e = e"

section \<open>Programs with state and failure\<close>

type_synonym ('w, 'a) io = "'w \<Rightarrow> (err + 'a) \<times> 'w"

definition io_ret :: "'a \<Rightarrow> ('w, 'a) io" where
  "io_ret x = (\<lambda>w. (Inr x, w))"

definition io_err :: "err \<Rightarrow> ('w, 'a) io" where
  "io_err e = (\<lambda>w. (Inl e, w))"

definition io_bind :: "('w, 'a) io \<Rightarrow> ('a \<Rightarrow> ('w, 'b) io) \<Rightarrow> ('w, 'b) io" where
  "io_bind m f = (\<lambda>w. case m w of (Inl e, w') \<Rightarrow> (Inl e, w') | (Inr x, w') \<Rightarrow> f x w')"

definition io_then :: "('w, 'a) io \<Rightarrow> ('w, 'b) io \<Rightarrow> ('w, 'b) io" where
  "io_then m n = io_bind m (\<lambda>_. n)"

text \<open>Statements in a row: \<open>a?; b?; c?;\<close>\<close>

primrec io_seq :: "('w, unit) io list \<Rightarrow> ('w, unit) io" where
  "io_seq [] = io_ret ()"
| "io_seq (m # ms) = io_then m (io_seq ms)"

definition io_attempt :: "('w, 'a) io \<Rightarrow> ('w, err + 'a) io" where
  "io_attempt m = (\<lambda>w. case m w of (r, w') \<Rightarrow> (Inr r, w'))"

definition io_ignore :: "('w, 'a) io \<Rightarrow> ('w, unit) io" where
  "io_ignore m = (\<lambda>w. case m w of (r, w') \<Rightarrow> (Inr (), w'))"

definition io_ctx :: "string \<Rightarrow> ('w, 'a) io \<Rightarrow> ('w, 'a) io" where
  "io_ctx c m = (\<lambda>w. case m w of (Inl e, w') \<Rightarrow> (Inl (Ctx c e), w') | (Inr x, w') \<Rightarrow> (Inr x, w'))"

text \<open>A value already computed (a pure fallible call followed by \<open>?\<close>).\<close>

definition io_lift :: "err + 'a \<Rightarrow> ('w, 'a) io" where
  "io_lift r = (\<lambda>w. (r, w))"

primrec io_for :: "'a list \<Rightarrow> ('a \<Rightarrow> ('w, unit) io) \<Rightarrow> ('w, unit) io" where
  "io_for [] f = io_ret ()"
| "io_for (x # xs) f = io_then (f x) (io_for xs f)"

text \<open>A loop that collects one result per element.\<close>

primrec io_map :: "'a list \<Rightarrow> ('a \<Rightarrow> ('w, 'b) io) \<Rightarrow> ('w, 'b list) io" where
  "io_map [] f = io_ret []"
| "io_map (x # xs) f = io_bind (f x) (\<lambda>y. io_bind (io_map xs f) (\<lambda>ys. io_ret (y # ys)))"

named_theorems io_defs "definitions of the program combinators, to run a program on a state"
declare io_ret_def [io_defs] io_err_def [io_defs] io_bind_def [io_defs] io_then_def [io_defs]
  io_attempt_def [io_defs] io_ignore_def [io_defs] io_ctx_def [io_defs] io_lift_def [io_defs]

text \<open>
  The same laws with the state applied. As simp rules they run a program on a state one
  statement at a time.
\<close>

named_theorems io_run "one statement of a program applied to a state"

lemma io_ret_run [io_run, simp]: "io_ret x w = (Inr x, w)"
  by (simp add: io_ret_def)

lemma io_err_run [io_run, simp]: "io_err e w = (Inl e, w)"
  by (simp add: io_err_def)

lemma io_lift_run [io_run, simp]: "io_lift r w = (r, w)"
  by (simp add: io_lift_def)

lemma io_bind_Inr [io_run]: "m w = (Inr x, w') \<Longrightarrow> io_bind m f w = f x w'"
  by (simp add: io_bind_def)

lemma io_bind_Inl [io_run]: "m w = (Inl e, w') \<Longrightarrow> io_bind m f w = (Inl e, w')"
  by (simp add: io_bind_def)

lemma io_then_Inr [io_run]: "m w = (Inr x, w') \<Longrightarrow> io_then m n w = n w'"
  by (simp add: io_then_def io_bind_def)

lemma io_then_Inl [io_run]: "m w = (Inl e, w') \<Longrightarrow> io_then m n w = (Inl e, w')"
  by (simp add: io_then_def io_bind_def)

text \<open>
  For evaluation the combinators compute once the state is there, so that the parts of a
  program that a run does not reach are left alone.
\<close>

lemma io_code [code]:
  "io_ret x w = (Inr x, w)"
  "io_err e w = (Inl e, w)"
  "io_lift r w = (r, w)"
  "io_bind m f w = (case m w of (Inl e, w') \<Rightarrow> (Inl e, w') | (Inr x, w') \<Rightarrow> f x w')"
  "io_then m n w = (case m w of (Inl e, w') \<Rightarrow> (Inl e, w') | (Inr x, w') \<Rightarrow> n w')"
  "io_attempt m w = (case m w of (r, w') \<Rightarrow> (Inr r, w'))"
  "io_ignore m w = (case m w of (r, w') \<Rightarrow> (Inr (), w'))"
  "io_ctx c m w = (case m w of (Inl e, w') \<Rightarrow> (Inl (Ctx c e), w') | (Inr x, w') \<Rightarrow> (Inr x, w'))"
  by (simp_all add: io_defs)

lemma io_loops_code [code]:
  "io_seq [] w = (Inr (), w)"
  "io_seq (m # ms) w = io_then m (io_seq ms) w"
  "io_for [] f w = (Inr (), w)"
  "io_for (x # xs) f w = io_then (f x) (io_for xs f) w"
  by simp_all

lemma io_bind_InrE:
  assumes "io_bind m f w = (Inr y, w'')"
  obtains x w' where "m w = (Inr x, w')" and "f x w' = (Inr y, w'')"
  using assms by (auto simp: io_bind_def split: prod.splits sum.splits)

lemma io_then_InrE:
  assumes "io_then m n w = (Inr y, w'')"
  obtains x w' where "m w = (Inr x, w')" and "n w' = (Inr y, w'')"
  using assms by (auto simp: io_then_def elim: io_bind_InrE)

lemma io_ctx_Inr [simp]: "io_ctx c m w = (Inr x, w') \<longleftrightarrow> m w = (Inr x, w')"
  by (auto simp: io_ctx_def split: prod.splits sum.splits)

lemma io_ctx_Inl: "io_ctx c m w = (Inl e, w') \<longleftrightarrow> (\<exists>e'. m w = (Inl e', w') \<and> e = Ctx c e')"
  by (auto simp: io_ctx_def split: prod.splits sum.splits)

lemma snd_io_ctx [simp]: "snd (io_ctx c m w) = snd (m w)"
  by (simp add: io_ctx_def split: prod.splits sum.splits)

lemma snd_io_ignore [simp]: "snd (io_ignore m w) = snd (m w)"
  by (simp add: io_ignore_def split: prod.splits)

lemma fst_io_ignore [simp]: "fst (io_ignore m w) = Inr ()"
  by (simp add: io_ignore_def split: prod.splits)

lemma io_ignore_run: "io_ignore m w = (Inr (), snd (m w))"
  by (simp add: io_ignore_def split: prod.splits)

lemma io_attempt_run: "io_attempt m w = (Inr (fst (m w)), snd (m w))"
  by (simp add: io_attempt_def split: prod.splits)

lemma io_bind_assoc: "io_bind (io_bind m f) g = io_bind m (\<lambda>x. io_bind (f x) g)"
  by (rule ext) (simp add: io_bind_def split: prod.splits sum.splits)

lemma io_seq_append: "io_seq (xs @ ys) = io_then (io_seq xs) (io_seq ys)"
proof (induction xs)
  case Nil
  show ?case by (rule ext) (simp add: io_then_def io_bind_def)
next
  case (Cons m ms)
  then show ?case by (simp add: io_then_def io_bind_assoc)
qed

section \<open>Facts about every outcome of a program\<close>

text \<open>
  \<open>triple P m Q R\<close>: from a state with \<open>P\<close>, a normal return \<open>x\<close> leaves a state with
  \<open>Q x\<close> and an error \<open>e\<close> leaves a state with \<open>R e\<close>. The programs are total, so this is
  total correctness. \<open>keeps I m\<close> is the special case of an invariant.
\<close>

definition triple ::
  "('w \<Rightarrow> bool) \<Rightarrow> ('w, 'a) io \<Rightarrow> ('a \<Rightarrow> 'w \<Rightarrow> bool) \<Rightarrow> (err \<Rightarrow> 'w \<Rightarrow> bool) \<Rightarrow> bool" where
  "triple P m Q R \<longleftrightarrow>
     (\<forall>w. P w \<longrightarrow> (case m w of (Inl e, w') \<Rightarrow> R e w' | (Inr x, w') \<Rightarrow> Q x w'))"

definition keeps :: "('w \<Rightarrow> bool) \<Rightarrow> ('w, 'a) io \<Rightarrow> bool" where
  "keeps I m \<longleftrightarrow> (\<forall>w. I w \<longrightarrow> I (snd (m w)))"

named_theorems triple_rules "rules that compose triples"
named_theorems keeps_rules "rules that compose invariants"

lemma tripleD_Inr: "triple P m Q R \<Longrightarrow> P w \<Longrightarrow> m w = (Inr x, w') \<Longrightarrow> Q x w'"
  by (auto simp: triple_def)

lemma tripleD_Inl: "triple P m Q R \<Longrightarrow> P w \<Longrightarrow> m w = (Inl e, w') \<Longrightarrow> R e w'"
  by (auto simp: triple_def)

lemma tripleI:
  assumes "\<And>w x w'. P w \<Longrightarrow> m w = (Inr x, w') \<Longrightarrow> Q x w'"
    and "\<And>w e w'. P w \<Longrightarrow> m w = (Inl e, w') \<Longrightarrow> R e w'"
  shows "triple P m Q R"
  using assms by (auto simp: triple_def split: prod.splits sum.splits)

lemma triple_weaken:
  assumes "triple P' m Q' R'"
    and "\<And>w. P w \<Longrightarrow> P' w"
    and "\<And>x w. Q' x w \<Longrightarrow> Q x w"
    and "\<And>e w. R' e w \<Longrightarrow> R e w"
  shows "triple P m Q R"
  using assms by (fastforce simp: triple_def split: prod.splits sum.splits)

lemma triple_ret [triple_rules]: "triple (Q x) (io_ret x) Q R"
  by (simp add: triple_def)

lemma triple_err [triple_rules]: "triple (R e) (io_err e) Q R"
  by (simp add: triple_def)

lemma triple_bind [triple_rules]:
  assumes "triple P m Q' R" and "\<And>x. triple (Q' x) (f x) Q R"
  shows "triple P (io_bind m f) Q R"
  using assms by (fastforce simp: triple_def io_bind_def split: prod.splits sum.splits)

lemma triple_then [triple_rules]:
  assumes "triple P m (\<lambda>_. Q') R" and "triple Q' n Q R"
  shows "triple P (io_then m n) Q R"
  unfolding io_then_def by (rule triple_bind [OF assms(1)]) (rule assms(2))

lemma triple_ignore [triple_rules]:
  assumes "triple P m (\<lambda>_. Q ()) (\<lambda>_. Q ())"
  shows "triple P (io_ignore m) Q R"
  using assms by (fastforce simp: triple_def io_ignore_def split: prod.splits sum.splits)

lemma triple_attempt [triple_rules]:
  assumes "triple P m (\<lambda>x. Q (Inr x)) (\<lambda>e. Q (Inl e))"
  shows "triple P (io_attempt m) Q R"
proof (rule tripleI)
  fix w x w'
  assume "P w" and "io_attempt m w = (Inr x, w')"
  with assms show "Q x w'"
    by (cases "m w"; cases "fst (m w)") (auto simp: triple_def io_attempt_run)
qed (simp add: io_attempt_run)

lemma triple_ctx [triple_rules]:
  assumes "triple P m Q (\<lambda>e. R (Ctx c e))"
  shows "triple P (io_ctx c m) Q R"
  using assms by (fastforce simp: triple_def io_ctx_def split: prod.splits sum.splits)

lemma keepsI: "(\<And>w. I w \<Longrightarrow> I (snd (m w))) \<Longrightarrow> keeps I m"
  by (simp add: keeps_def)

lemma keepsD: "keeps I m \<Longrightarrow> I w \<Longrightarrow> m w = (r, w') \<Longrightarrow> I w'"
  by (auto simp: keeps_def dest: spec [of _ w])

lemma keeps_ret [keeps_rules]: "keeps I (io_ret x)"
  by (simp add: keeps_def)

lemma keeps_err [keeps_rules]: "keeps I (io_err e)"
  by (simp add: keeps_def)

lemma keeps_lift [keeps_rules]: "keeps I (io_lift r)"
  by (simp add: keeps_def)

lemma keeps_bind [keeps_rules]:
  "keeps I m \<Longrightarrow> (\<And>x. keeps I (f x)) \<Longrightarrow> keeps I (io_bind m f)"
  by (fastforce simp: keeps_def io_bind_def split: prod.splits sum.splits)

lemma keeps_then [keeps_rules]: "keeps I m \<Longrightarrow> keeps I n \<Longrightarrow> keeps I (io_then m n)"
  by (simp add: io_then_def keeps_bind)

lemma keeps_ignore [keeps_rules]: "keeps I m \<Longrightarrow> keeps I (io_ignore m)"
  by (simp add: keeps_def)

lemma keeps_attempt [keeps_rules]: "keeps I m \<Longrightarrow> keeps I (io_attempt m)"
  by (simp add: keeps_def io_attempt_run)

lemma keeps_ctx [keeps_rules]: "keeps I m \<Longrightarrow> keeps I (io_ctx c m)"
  by (simp add: keeps_def)

lemma keeps_seq [keeps_rules]: "(\<And>m. m \<in> set ms \<Longrightarrow> keeps I m) \<Longrightarrow> keeps I (io_seq ms)"
  by (induction ms) (auto intro: keeps_rules)

lemma keeps_for [keeps_rules]: "(\<And>x. x \<in> set xs \<Longrightarrow> keeps I (f x)) \<Longrightarrow> keeps I (io_for xs f)"
  by (induction xs) (auto intro: keeps_rules)

lemma keeps_map [keeps_rules]: "(\<And>x. x \<in> set xs \<Longrightarrow> keeps I (f x)) \<Longrightarrow> keeps I (io_map xs f)"
  by (induction xs) (auto intro!: keeps_rules)

lemma keeps_if [keeps_rules]: "(b \<Longrightarrow> keeps I m) \<Longrightarrow> (\<not> b \<Longrightarrow> keeps I n) \<Longrightarrow> keeps I (if b then m else n)"
  by simp

lemma keeps_option [keeps_rules]:
  "(x = None \<Longrightarrow> keeps I m) \<Longrightarrow> (\<And>y. x = Some y \<Longrightarrow> keeps I (f y)) \<Longrightarrow>
     keeps I (case x of None \<Rightarrow> m | Some y \<Rightarrow> f y)"
  by (cases x) simp_all

lemma keeps_sum [keeps_rules]:
  "(\<And>e. x = Inl e \<Longrightarrow> keeps I (f e)) \<Longrightarrow> (\<And>y. x = Inr y \<Longrightarrow> keeps I (g y)) \<Longrightarrow>
     keeps I (case x of Inl e \<Rightarrow> f e | Inr y \<Rightarrow> g y)"
  by (cases x) simp_all

lemma keeps_list [keeps_rules]:
  "(xs = [] \<Longrightarrow> keeps I m) \<Longrightarrow> (\<And>y ys. xs = y # ys \<Longrightarrow> keeps I (f y ys)) \<Longrightarrow>
     keeps I (case xs of [] \<Rightarrow> m | y # ys \<Rightarrow> f y ys)"
  by (cases xs) simp_all

section \<open>Absent fields\<close>

text \<open>\<open>#[serde(default = d)]\<close>: the value of a field that may be absent.\<close>

definition or_default :: "'a \<Rightarrow> 'a option \<Rightarrow> 'a" where
  "or_default d v = (case v of None \<Rightarrow> d | Some x \<Rightarrow> x)"

lemma or_default_simps [simp]: "or_default d None = d" "or_default d (Some x) = x"
  by (simp_all add: or_default_def)

section \<open>Lists\<close>

lemma takeWhile_all_id: "(\<And>x. x \<in> set xs \<Longrightarrow> P x) \<Longrightarrow> takeWhile P xs = xs"
  by (induction xs) auto

lemma dropWhile_none_id: "(\<And>x. x \<in> set xs \<Longrightarrow> \<not> P x) \<Longrightarrow> dropWhile P xs = xs"
  by (cases xs) auto

end
