(* ===== verification/Rust_Str.thy ===== *)
theory Rust_Str
  imports Prelude
begin

text \<open>
  The operations of Rust's \<open>str\<close> that the code uses. A \<open>String\<close> is its UTF-8 bytes, one
  \<open>char\<close> per byte, so lengths and positions are byte counts as in Rust. White space is
  the Unicode property \<open>White_Space\<close>, in its UTF-8 encodings.
\<close>

section \<open>Bytes\<close>

abbreviation byte :: "char \<Rightarrow> nat" where
  "byte c \<equiv> of_char c"

definition newline :: char where
  "newline = CHR 0x0A"

definition is_lower :: "char \<Rightarrow> bool" where
  "is_lower c \<longleftrightarrow> 97 \<le> byte c \<and> byte c \<le> 122"

definition is_upper :: "char \<Rightarrow> bool" where
  "is_upper c \<longleftrightarrow> 65 \<le> byte c \<and> byte c \<le> 90"

definition is_digit :: "char \<Rightarrow> bool" where
  "is_digit c \<longleftrightarrow> 48 \<le> byte c \<and> byte c \<le> 57"

definition is_alnum :: "char \<Rightarrow> bool" where
  "is_alnum c \<longleftrightarrow> is_lower c \<or> is_upper c \<or> is_digit c"

lemmas char_class_defs = is_lower_def is_upper_def is_digit_def is_alnum_def

text \<open>Which byte strings are UTF-8 (RFC 3629): no overlong form, no surrogate, nothing above U+10FFFF.\<close>

definition in_range :: "nat \<Rightarrow> nat \<Rightarrow> char \<Rightarrow> bool" where
  "in_range lo hi c \<longleftrightarrow> lo \<le> byte c \<and> byte c \<le> hi"

definition cont_byte :: "char \<Rightarrow> bool" where
  "cont_byte = in_range 0x80 0xBF"

definition utf8_two :: "char \<Rightarrow> char \<Rightarrow> bool" where
  "utf8_two a b \<longleftrightarrow> in_range 0xC2 0xDF a \<and> cont_byte b"

definition utf8_three :: "char \<Rightarrow> char \<Rightarrow> char \<Rightarrow> bool" where
  "utf8_three a b c \<longleftrightarrow>
     in_range (if byte a = 0xE0 then 0xA0 else 0x80) (if byte a = 0xED then 0x9F else 0xBF) b \<and>
     in_range 0xE0 0xEF a \<and> cont_byte c"

definition utf8_four :: "char \<Rightarrow> char \<Rightarrow> char \<Rightarrow> char \<Rightarrow> bool" where
  "utf8_four a b c d \<longleftrightarrow>
     in_range (if byte a = 0xF0 then 0x90 else 0x80) (if byte a = 0xF4 then 0x8F else 0xBF) b \<and>
     in_range 0xF0 0xF4 a \<and> cont_byte c \<and> cont_byte d"

fun valid_utf8 :: "string \<Rightarrow> bool" where
  "valid_utf8 [] = True"
| "valid_utf8 (a # s) =
     (if byte a < 0x80 then valid_utf8 s
      else case s of
             [] \<Rightarrow> False
           | b # s2 \<Rightarrow>
               if utf8_two a b then valid_utf8 s2
               else case s2 of
                      [] \<Rightarrow> False
                    | c # s3 \<Rightarrow>
                        if utf8_three a b c then valid_utf8 s3
                        else case s3 of [] \<Rightarrow> False | d # s4 \<Rightarrow> utf8_four a b c d \<and> valid_utf8 s4)"

lemma valid_utf8_ascii: "(\<And>c. c \<in> set s \<Longrightarrow> byte c < 0x80) \<Longrightarrow> valid_utf8 s"
  by (induction s) auto

section \<open>Prefixes, splitting, searching\<close>

fun strip_prefix :: "string \<Rightarrow> string \<Rightarrow> string option" where
  "strip_prefix [] s = Some s"
| "strip_prefix (p # ps) [] = None"
| "strip_prefix (p # ps) (c # cs) = (if p = c then strip_prefix ps cs else None)"

definition starts_with :: "string \<Rightarrow> string \<Rightarrow> bool" where
  "starts_with p s \<longleftrightarrow> strip_prefix p s \<noteq> None"

definition ends_with :: "string \<Rightarrow> string \<Rightarrow> bool" where
  "ends_with p s \<longleftrightarrow> starts_with (rev p) (rev s)"

lemma strip_prefix_Some: "strip_prefix p s = Some r \<longleftrightarrow> s = p @ r"
  by (induction p s rule: strip_prefix.induct) auto

lemma starts_with_iff: "starts_with p s \<longleftrightarrow> (\<exists>r. s = p @ r)"
  by (simp add: starts_with_def strip_prefix_Some not_None_eq)

lemma starts_with_append [simp]: "starts_with p (p @ r)"
  by (simp add: starts_with_iff)

fun find_char :: "char \<Rightarrow> string \<Rightarrow> nat option" where
  "find_char c [] = None"
| "find_char c (d # ds) = (if d = c then Some 0 else map_option Suc (find_char c ds))"

lemma find_char_SomeD:
  "find_char c s = Some i \<Longrightarrow> i < length s \<and> s ! i = c \<and> c \<notin> set (take i s)"
  by (induction s arbitrary: i) (auto split: if_splits)

lemma find_char_None_iff: "find_char c s = None \<longleftrightarrow> c \<notin> set s"
  by (induction s) auto

lemma find_char_append: "c \<notin> set h \<Longrightarrow> find_char c (h @ c # t) = Some (length h)"
  by (induction h) auto

fun split_once :: "char \<Rightarrow> string \<Rightarrow> (string \<times> string) option" where
  "split_once c [] = None"
| "split_once c (d # ds) =
     (if d = c then Some ([], ds) else map_option (\<lambda>(a, b). (d # a, b)) (split_once c ds))"

lemma split_once_Some: "split_once c s = Some (a, b) \<longleftrightarrow> s = a @ c # b \<and> c \<notin> set a"
proof (induction s arbitrary: a)
  case Nil
  show ?case by simp
next
  case (Cons d ds)
  show ?case
  proof (cases a)
    case Nil
    then show ?thesis by (auto split: option.splits)
  next
    case (Cons d' a')
    then show ?thesis using Cons.IH [of a'] by auto
  qed
qed

lemma split_once_None: "split_once c s = None \<longleftrightarrow> c \<notin> set s"
  by (induction s) auto

text \<open>\<open>str::split(c)\<close>: the pieces between separators; \<open>""\<close> has one empty piece.\<close>

fun split_on :: "char \<Rightarrow> string \<Rightarrow> string list" where
  "split_on c [] = [[]]"
| "split_on c (d # ds) =
     (if d = c then [] # split_on c ds
      else (case split_on c ds of [] \<Rightarrow> [[d]] | p # ps \<Rightarrow> (d # p) # ps))"

lemma split_on_no_sep: "p \<in> set (split_on c s) \<Longrightarrow> c \<notin> set p"
  by (induction s arbitrary: p) (auto split: if_splits list.splits)

lemma split_on_nonempty: "split_on c s \<noteq> []"
  by (cases s) (auto split: list.splits)

lemma split_on_id: "c \<notin> set s \<Longrightarrow> split_on c s = [s]"
  by (induction s) auto

section \<open>Lines\<close>

definition chop_cr :: "string \<Rightarrow> string" where
  "chop_cr s = (if s \<noteq> [] \<and> last s = CHR 0x0D then butlast s else s)"

function str_lines :: "string \<Rightarrow> string list" where
  "str_lines s =
     (if s = [] then []
      else case dropWhile (\<lambda>c. c \<noteq> newline) s of
             [] \<Rightarrow> [s]
           | _ # r \<Rightarrow> chop_cr (takeWhile (\<lambda>c. c \<noteq> newline) s) # str_lines r)"
  by pat_completeness auto
termination
proof (relation "measure length")
  fix s :: string and x r
  assume "dropWhile (\<lambda>c. c \<noteq> newline) s = x # r"
  then have "length (x # r) \<le> length s"
    by (metis length_dropWhile_le)
  then show "(r, s) \<in> measure length" by simp
qed simp

declare str_lines.simps [simp del]

lemma str_lines_Nil [simp]: "str_lines [] = []"
  by (simp add: str_lines.simps)

lemma str_lines_append:
  assumes "newline \<notin> set l"
  shows "str_lines (l @ newline # r) = chop_cr l # str_lines r"
proof -
  have "dropWhile (\<lambda>c. c \<noteq> newline) (l @ newline # r) = newline # r"
    using assms by (induction l) auto
  moreover have "takeWhile (\<lambda>c. c \<noteq> newline) (l @ newline # r) = l"
    using assms by (induction l) auto
  ultimately show ?thesis by (subst str_lines.simps) simp
qed

text \<open>Lines each ended by a newline, and that splitting gives them back.\<close>

definition unlines :: "string list \<Rightarrow> string" where
  "unlines ls = concat (map (\<lambda>l. l @ [newline]) ls)"

definition plain_line :: "string \<Rightarrow> bool" where
  "plain_line l \<longleftrightarrow> newline \<notin> set l \<and> CHR 0x0D \<notin> set l"

lemma chop_cr_plain: "CHR 0x0D \<notin> set l \<Longrightarrow> chop_cr l = l"
  by (auto simp: chop_cr_def dest: last_in_set)

lemma str_lines_unlines: "list_all plain_line ls \<Longrightarrow> str_lines (unlines ls) = ls"
  by (induction ls) (auto simp: unlines_def str_lines_append chop_cr_plain plain_line_def)

lemma unlines_append: "unlines (xs @ ys) = unlines xs @ unlines ys"
  by (simp add: unlines_def)

lemma plain_line_append: "plain_line (a @ b) \<longleftrightarrow> plain_line a \<and> plain_line b"
  by (auto simp: plain_line_def)

section \<open>White space\<close>

text \<open>One encoded white-space character, whole.\<close>

fun is_ws :: "string \<Rightarrow> bool" where
  "is_ws [a] = (byte a = 32 \<or> (9 \<le> byte a \<and> byte a \<le> 13))"
| "is_ws [a, b] = (byte a = 194 \<and> (byte b = 133 \<or> byte b = 160))"
| "is_ws [a, b, c] =
     ((byte a = 225 \<and> byte b = 154 \<and> byte c = 128) \<or>
      (byte a = 226 \<and> byte b = 128 \<and>
         ((128 \<le> byte c \<and> byte c \<le> 138) \<or> byte c = 168 \<or> byte c = 169 \<or> byte c = 175)) \<or>
      (byte a = 226 \<and> byte b = 129 \<and> byte c = 159) \<or>
      (byte a = 227 \<and> byte b = 128 \<and> byte c = 128))"
| "is_ws s = False"

text \<open>How many bytes of white-space character start (end) a string; 0 if none.\<close>

definition ws_prefix :: "string \<Rightarrow> nat" where
  "ws_prefix s =
     (if is_ws (take 1 s) then 1 else if is_ws (take 2 s) then 2
      else if is_ws (take 3 s) then 3 else 0)"

lemma ws_prefix_le: "ws_prefix s \<le> length s"
proof -
  have "is_ws (take 2 s) \<Longrightarrow> \<not> is_ws (take 1 s) \<Longrightarrow> 2 \<le> length s"
    by (cases s; cases "tl s") auto
  moreover have "is_ws (take 3 s) \<Longrightarrow> \<not> is_ws (take 2 s) \<Longrightarrow> 3 \<le> length s"
    by (cases s; cases "tl s"; cases "tl (tl s)") (auto simp: numeral_3_eq_3 numeral_2_eq_2)
  moreover have "is_ws (take 1 s) \<Longrightarrow> 1 \<le> length s"
    by (cases s) auto
  ultimately show ?thesis by (auto simp: ws_prefix_def)
qed

function trim_start :: "string \<Rightarrow> string" where
  "trim_start s = (if ws_prefix s = 0 then s else trim_start (drop (ws_prefix s) s))"
  by pat_completeness auto
termination
proof (relation "measure length")
  fix s
  assume "ws_prefix s \<noteq> 0"
  then show "(drop (ws_prefix s) s, s) \<in> measure length"
    using ws_prefix_le [of s] by auto
qed simp

declare trim_start.simps [simp del]

definition ws_suffix :: "string \<Rightarrow> nat" where
  "ws_suffix s =
     (if is_ws (rev (take 1 (rev s))) then 1 else if is_ws (rev (take 2 (rev s))) then 2
      else if is_ws (rev (take 3 (rev s))) then 3 else 0)"

lemma ws_suffix_le: "ws_suffix s \<le> length s"
proof -
  have len: "length t < n \<Longrightarrow> rev (take n (rev t)) = t" for n and t :: string
    by simp
  have "is_ws (rev (take 1 (rev s))) \<Longrightarrow> 1 \<le> length s"
    by (cases s) auto
  moreover have "is_ws (rev (take 2 (rev s))) \<Longrightarrow> \<not> is_ws (rev (take 1 (rev s))) \<Longrightarrow> 2 \<le> length s"
    by (cases s; cases "tl s") auto
  moreover have "is_ws (rev (take 3 (rev s))) \<Longrightarrow> \<not> is_ws (rev (take 2 (rev s))) \<Longrightarrow> 3 \<le> length s"
    by (rule ccontr) (auto simp: len not_le less_Suc_eq numeral_3_eq_3 numeral_2_eq_2)
  ultimately show ?thesis by (auto simp: ws_suffix_def)
qed

function trim_end :: "string \<Rightarrow> string" where
  "trim_end s = (if ws_suffix s = 0 then s else trim_end (take (length s - ws_suffix s) s))"
  by pat_completeness auto
termination
proof (relation "measure length")
  fix s
  assume "ws_suffix s \<noteq> 0"
  then show "(take (length s - ws_suffix s) s, s) \<in> measure length"
    using ws_suffix_le [of s] by auto
qed simp

declare trim_end.simps [simp del]

definition trim :: "string \<Rightarrow> string" where
  "trim s = trim_end (trim_start s)"

text \<open>A string of ASCII letters and digits is its own trim.\<close>

lemma is_ws_not_alnum:
  assumes "is_ws s" and "c \<in> set s" shows "\<not> is_alnum c"
  using assms by (induction s rule: is_ws.induct) (auto simp: char_class_defs)

lemma is_ws_nonempty: "is_ws s \<Longrightarrow> s \<noteq> []"
  by auto

lemma ws_prefix_alnum:
  assumes "\<forall>c \<in> set s. is_alnum c" shows "ws_prefix s = 0"
proof -
  have "\<not> is_ws (take n s)" for n
  proof
    assume ws: "is_ws (take n s)"
    then obtain c where "c \<in> set (take n s)" by (cases "take n s") auto
    with ws assms show False using is_ws_not_alnum in_set_takeD by metis
  qed
  then show ?thesis by (simp add: ws_prefix_def)
qed

lemma ws_suffix_alnum:
  assumes "\<forall>c \<in> set s. is_alnum c" shows "ws_suffix s = 0"
proof -
  have "\<not> is_ws (rev (take n (rev s)))" for n
  proof
    assume ws: "is_ws (rev (take n (rev s)))"
    then obtain c where "c \<in> set (take n (rev s))" by (cases "take n (rev s)") auto
    then have "c \<in> set s" and "c \<in> set (rev (take n (rev s)))"
      by (auto dest: in_set_takeD)
    with ws assms show False using is_ws_not_alnum by metis
  qed
  then show ?thesis by (simp add: ws_suffix_def)
qed

lemma trim_alnum: "\<forall>c \<in> set s. is_alnum c \<Longrightarrow> trim s = s"
  by (simp add: trim_def trim_start.simps [of s] trim_end.simps [of s]
      ws_prefix_alnum ws_suffix_alnum)

text \<open>The first word: \<open>split_whitespace().next()\<close>.\<close>

fun take_word :: "string \<Rightarrow> string" where
  "take_word [] = []"
| "take_word (c # cs) = (if ws_prefix (c # cs) = 0 then c # take_word cs else [])"

definition first_word :: "string \<Rightarrow> string option" where
  "first_word s = (let t = trim_start s in if t = [] then None else Some (take_word t))"

section \<open>Numbers\<close>

definition digit_val :: "char \<Rightarrow> nat option" where
  "digit_val c = (if is_digit c then Some (byte c - 48) else None)"

fun parse_digits :: "nat \<Rightarrow> string \<Rightarrow> nat option" where
  "parse_digits acc [] = Some acc"
| "parse_digits acc (c # cs) =
     (case digit_val c of None \<Rightarrow> None | Some d \<Rightarrow> parse_digits (10 * acc + d) cs)"

text \<open>\<open>str::parse\<close> for an unsigned type with the given greatest value.\<close>

definition parse_unsigned :: "nat \<Rightarrow> string \<Rightarrow> nat option" where
  "parse_unsigned bound s =
     (let ds = (case s of c # d # r \<Rightarrow> if c = CHR ''+'' then d # r else s | _ \<Rightarrow> s)
      in if ds = [] then None
         else case parse_digits 0 ds of
                None \<Rightarrow> None
              | Some n \<Rightarrow> if n \<le> bound then Some n else None)"

lemma parse_unsigned_le: "parse_unsigned b s = Some n \<Longrightarrow> n \<le> b"
  by (auto simp: parse_unsigned_def Let_def split: if_splits option.splits)

text \<open>Printing a number (\<open>Display\<close> of an unsigned integer).\<close>

fun show_nat :: "nat \<Rightarrow> string" where
  "show_nat n = (if n < 10 then [char_of (48 + n)] else show_nat (n div 10) @ [char_of (48 + n mod 10)])"

declare show_nat.simps [simp del]

lemma parse_digits_append:
  "parse_digits a (s @ t) = (case parse_digits a s of None \<Rightarrow> None | Some n \<Rightarrow> parse_digits n t)"
  by (induction s arbitrary: a) (auto split: option.splits)

lemma digit_val_char_of: "n < 10 \<Longrightarrow> digit_val (char_of (48 + n)) = Some n"
  by (simp add: digit_val_def is_digit_def of_char_of)

lemma parse_digits_show_nat: "parse_digits 0 (show_nat n) = Some n"
proof (induction n rule: show_nat.induct)
  case (1 n)
  then show ?case
    by (subst show_nat.simps) (simp add: digit_val_char_of parse_digits_append)
qed

end
