(* ===== verification/Rust_Path.thy ===== *)
theory Rust_Path
  imports Rust_Str
begin

text \<open>
  \<open>std::path\<close>: a path is the list of its components, as \<open>Path::components\<close> yields them
  (and as Rust compares paths): repeated separators and inner \<open>.\<close> components are gone, a
  leading \<open>.\<close> and every \<open>..\<close> stay. Symbolic links and mounts are not resolved: two
  different component lists are two different paths.
\<close>

datatype component = RootDir | CurDir | ParentDir | Normal string

type_synonym path = "component list"

fun comp_of :: "string \<Rightarrow> component list" where
  "comp_of s = (if s = [] \<or> s = ''.'' then [] else if s = ''..'' then [ParentDir] else [Normal s])"

definition path_of :: "string \<Rightarrow> path" where
  "path_of s =
     (case s of
        [] \<Rightarrow> []
      | c # r \<Rightarrow>
          if c = CHR ''/'' then RootDir # concat (map comp_of (split_on (CHR ''/'') r))
          else case split_on (CHR ''/'') s of
                 [] \<Rightarrow> []
               | h # t \<Rightarrow> (if h = ''.'' then [CurDir] else comp_of h) @ concat (map comp_of t))"

text \<open>\<open>Path::parent\<close>, \<open>Path::file_name\<close>, \<open>Path::extension\<close> and joining one name.\<close>

definition path_parent :: "path \<Rightarrow> path option" where
  "path_parent p =
     (if p = [] then None
      else case last p of RootDir \<Rightarrow> None | _ \<Rightarrow> Some (butlast p))"

definition path_file_name :: "path \<Rightarrow> string option" where
  "path_file_name p =
     (if p = [] then None else case last p of Normal n \<Rightarrow> Some n | _ \<Rightarrow> None)"

definition path_extension :: "path \<Rightarrow> string option" where
  "path_extension p =
     (case path_file_name p of
        None \<Rightarrow> None
      | Some n \<Rightarrow>
          (case split_once (CHR ''.'') (rev n) of
             None \<Rightarrow> None
           | Some (after, before) \<Rightarrow> if before = [] then None else Some (rev after)))"

definition path_join :: "path \<Rightarrow> string \<Rightarrow> path" where
  "path_join p n = p @ [Normal n]"

text \<open>\<open>Path::display\<close>, up to repeated separators.\<close>

fun show_comps :: "path \<Rightarrow> string" where
  "show_comps [] = []"
| "show_comps [RootDir] = ''/''"
| "show_comps [CurDir] = ''.''"
| "show_comps [ParentDir] = ''..''"
| "show_comps [Normal n] = n"
| "show_comps (RootDir # cs) = CHR ''/'' # show_comps cs"
| "show_comps (CurDir # cs) = ''./'' @ show_comps cs"
| "show_comps (ParentDir # cs) = ''../'' @ show_comps cs"
| "show_comps (Normal n # cs) = n @ CHR ''/'' # show_comps cs"

lemma path_parent_Some: "path_parent p = Some d \<Longrightarrow> p \<noteq> [] \<and> d = butlast p"
  by (auto simp: path_parent_def split: if_splits component.splits)

lemma path_parent_shorter: "path_parent p = Some d \<Longrightarrow> length d < length p"
  by (cases p) (auto simp: path_parent_def split: if_splits component.splits)

lemma path_file_name_Some: "path_file_name p = Some n \<longleftrightarrow> (\<exists>d. p = d @ [Normal n])"
proof
  assume "path_file_name p = Some n"
  then have "p \<noteq> []" and "last p = Normal n"
    by (auto simp: path_file_name_def split: if_splits component.splits)
  then have "p = butlast p @ [Normal n]"
    by (metis append_butlast_last_id)
  then show "\<exists>d. p = d @ [Normal n]" ..
next
  assume "\<exists>d. p = d @ [Normal n]"
  then show "path_file_name p = Some n" by (auto simp: path_file_name_def)
qed

lemma path_parent_join [simp]: "path_parent (path_join d n) = Some d"
  by (simp add: path_parent_def path_join_def)

lemma path_file_name_join [simp]: "path_file_name (path_join d n) = Some n"
  by (simp add: path_file_name_def path_join_def)

lemma path_split_name:
  assumes "path_file_name p = Some n" and "path_parent p = Some d"
  shows "p = path_join d n"
  using assms by (auto simp: path_file_name_Some path_parent_def path_join_def)

text \<open>The directories a path lies under, outermost first, and the path itself.\<close>

definition path_prefixes :: "path \<Rightarrow> path list" where
  "path_prefixes p = map (\<lambda>n. take (Suc n) p) [0..<length p]"

lemma path_prefixes_Nil [simp]: "path_prefixes [] = []"
  by (simp add: path_prefixes_def)

lemma set_path_prefixes: "q \<in> set (path_prefixes p) \<longleftrightarrow> q \<noteq> [] \<and> (\<exists>r. p = q @ r)"
proof
  assume "q \<in> set (path_prefixes p)"
  then obtain n where "n < length p" and q: "q = take (Suc n) p"
    by (auto simp: path_prefixes_def)
  then have "q \<noteq> []" by auto
  moreover have "p = q @ drop (Suc n) p" by (simp add: q)
  ultimately show "q \<noteq> [] \<and> (\<exists>r. p = q @ r)" by blast
next
  assume "q \<noteq> [] \<and> (\<exists>r. p = q @ r)"
  then obtain r where q: "q \<noteq> []" and p: "p = q @ r" by blast
  define n where "n = length q - 1"
  have "n < length p" using q by (cases q) (auto simp: n_def p)
  moreover have "q = take (Suc n) p" using q by (cases q) (auto simp: n_def p)
  ultimately show "q \<in> set (path_prefixes p)"
    by (auto simp: path_prefixes_def image_iff intro!: bexI [of _ n])
qed

end
