(* ===== verification/Host.thy ===== *)
theory Host
  imports Rust_Path "HOL-Library.Word"
begin

text \<open>
  The machine the two daemons run on, as far as their code observes it.

  A program runs over a \<open>world\<close>: the file system, the trace of operations made so far with
  their replies, every file system state passed through, and a clock. What the code does not
  decide is a parameter, the \<open>env\<close>: which operation fails and how, what an external program
  answers and does to the files, how long a sleep takes beyond its time, and what other
  processes change meanwhile. All of it may depend on the whole trace, so the same operation
  may behave differently each time; a theorem about every \<open>env\<close> is about every machine.

  The file system follows POSIX: directory entries and file contents become durable by
  \<open>fsync\<close> of the directory and of the file. For each path it keeps the entries that may be
  on disk, newest first; a running process sees the newest.
\<close>

section \<open>The file system\<close>

datatype entry = Absent | Directory | FileAt nat | CharDev nat nat nat

record inode =
  i_data :: string
  i_mode :: nat
  i_synced :: bool

record fsys =
  fs_ents :: "path \<Rightarrow> entry list"
  fs_inodes :: "nat \<Rightarrow> inode"
  fs_next :: nat

definition empty_fs :: fsys where
  "empty_fs = \<lparr>fs_ents = (\<lambda>_. []), fs_inodes = (\<lambda>_. \<lparr>i_data = [], i_mode = 0, i_synced = True\<rparr>), fs_next = 0\<rparr>"

definition vers :: "fsys \<Rightarrow> path \<Rightarrow> entry list" where
  "vers s p = (case fs_ents s p of [] \<Rightarrow> [Absent] | e # es \<Rightarrow> e # es)"

definition cur :: "fsys \<Rightarrow> path \<Rightarrow> entry" where
  "cur s p = hd (vers s p)"

definition is_dir :: "fsys \<Rightarrow> path \<Rightarrow> bool" where
  "is_dir s p \<longleftrightarrow> p = [] \<or> p = [RootDir] \<or> p = [CurDir] \<or> cur s p = Directory"

definition content :: "fsys \<Rightarrow> path \<Rightarrow> string option" where
  "content s p = (case cur s p of FileAt i \<Rightarrow> Some (i_data (fs_inodes s i)) | _ \<Rightarrow> None)"

definition file_mode :: "fsys \<Rightarrow> path \<Rightarrow> nat option" where
  "file_mode s p = (case cur s p of FileAt i \<Rightarrow> Some (i_mode (fs_inodes s i)) | _ \<Rightarrow> None)"

definition set_ent :: "path \<Rightarrow> entry \<Rightarrow> fsys \<Rightarrow> fsys" where
  "set_ent p e s = s\<lparr>fs_ents := (fs_ents s)(p := e # vers s p)\<rparr>"

definition upd_inode :: "nat \<Rightarrow> (inode \<Rightarrow> inode) \<Rightarrow> fsys \<Rightarrow> fsys" where
  "upd_inode i f s = s\<lparr>fs_inodes := (fs_inodes s)(i := f (fs_inodes s i))\<rparr>"

text \<open>\<open>mkdir -p\<close>: the missing directories of a list of prefixes, outermost first.\<close>

fun mkdirs :: "path list \<Rightarrow> fsys \<Rightarrow> fsys" where
  "mkdirs [] s = s"
| "mkdirs (q # qs) s =
     mkdirs qs (if is_dir s q \<or> cur s q \<noteq> Absent then s else set_ent q Directory s)"

definition blocked :: "fsys \<Rightarrow> path \<Rightarrow> bool" where
  "blocked s p \<longleftrightarrow>
     list_ex (\<lambda>q. case cur s q of FileAt _ \<Rightarrow> True | CharDev _ _ _ \<Rightarrow> True | _ \<Rightarrow> False) (path_prefixes p)"

definition fs_create_dir_all :: "path \<Rightarrow> fsys \<Rightarrow> io_error + unit \<times> fsys" where
  "fs_create_dir_all p s =
     (if blocked s p then Inl AlreadyExists else Inr ((), mkdirs (path_prefixes p) s))"

text \<open>
  \<open>OpenOptions::write(true).create(true).truncate(true).mode(m)\<close>: the mode applies to a file
  this call creates, not to one that exists. The handle is the inode.
\<close>

definition fs_open_trunc :: "path \<Rightarrow> nat \<Rightarrow> fsys \<Rightarrow> io_error + nat \<times> fsys" where
  "fs_open_trunc p m s =
     (case path_parent p of
        None \<Rightarrow> Inl (if p = [] then NotFound else IsADirectory)
      | Some d \<Rightarrow>
          if \<not> is_dir s d then Inl NotFound
          else case cur s p of
                 Absent \<Rightarrow>
                   Inr (fs_next s,
                        set_ent p (FileAt (fs_next s))
                          (s\<lparr>fs_inodes := (fs_inodes s)(fs_next s := \<lparr>i_data = [], i_mode = m, i_synced = False\<rparr>),
                             fs_next := Suc (fs_next s)\<rparr>))
               | Directory \<Rightarrow> Inl IsADirectory
               | FileAt i \<Rightarrow> Inr (i, upd_inode i (\<lambda>n. n\<lparr>i_data := [], i_synced := False\<rparr>) s)
               | CharDev _ _ _ \<Rightarrow> Inl (OsError 6))"

text \<open>A write at the start of a file: it overwrites as many bytes as it writes.\<close>

definition fs_write :: "nat \<Rightarrow> string \<Rightarrow> fsys \<Rightarrow> fsys" where
  "fs_write i d = upd_inode i (\<lambda>n. n\<lparr>i_data := d @ drop (length d) (i_data n), i_synced := False\<rparr>)"

definition fs_sync :: "nat \<Rightarrow> fsys \<Rightarrow> fsys" where
  "fs_sync i = upd_inode i (\<lambda>n. n\<lparr>i_synced := True\<rparr>)"

definition fs_rename :: "path \<Rightarrow> path \<Rightarrow> fsys \<Rightarrow> io_error + unit \<times> fsys" where
  "fs_rename a b s =
     (case cur s a of
        FileAt i \<Rightarrow>
          if is_dir s b then Inl IsADirectory
          else (case path_parent b of
                  None \<Rightarrow> Inl NotFound
                | Some d \<Rightarrow>
                    if is_dir s d then Inr ((), set_ent b (FileAt i) (set_ent a Absent s))
                    else Inl NotFound)
      | Absent \<Rightarrow> Inl NotFound
      | _ \<Rightarrow> Inl InvalidInput)"

definition fs_sync_dir :: "path \<Rightarrow> fsys \<Rightarrow> fsys" where
  "fs_sync_dir d s =
     s\<lparr>fs_ents := (\<lambda>p. if path_parent p = Some d then [cur s p] else fs_ents s p)\<rparr>"

definition fs_remove :: "path \<Rightarrow> fsys \<Rightarrow> io_error + unit \<times> fsys" where
  "fs_remove p s =
     (case cur s p of
        Absent \<Rightarrow> Inl NotFound
      | Directory \<Rightarrow> Inl IsADirectory
      | _ \<Rightarrow> Inr ((), set_ent p Absent s))"

definition fs_chmod :: "path \<Rightarrow> nat \<Rightarrow> fsys \<Rightarrow> io_error + unit \<times> fsys" where
  "fs_chmod p m s =
     (case cur s p of
        Absent \<Rightarrow> Inl NotFound
      | FileAt i \<Rightarrow> Inr ((), upd_inode i (\<lambda>n. n\<lparr>i_mode := m\<rparr>) s)
      | _ \<Rightarrow> Inr ((), s))"

definition fs_read :: "path \<Rightarrow> fsys \<Rightarrow> io_error + string \<times> fsys" where
  "fs_read p s =
     (case cur s p of
        FileAt i \<Rightarrow> Inr (i_data (fs_inodes s i), s)
      | Absent \<Rightarrow> Inl NotFound
      | Directory \<Rightarrow> Inl IsADirectory
      | CharDev _ _ _ \<Rightarrow> Inl (OsError 6))"

definition fs_mknod :: "path \<Rightarrow> nat \<Rightarrow> nat \<Rightarrow> nat \<Rightarrow> fsys \<Rightarrow> io_error + unit \<times> fsys" where
  "fs_mknod p mode major minor s =
     (case path_parent p of
        None \<Rightarrow> Inl AlreadyExists
      | Some d \<Rightarrow>
          if \<not> is_dir s d then Inl NotFound
          else if cur s p \<noteq> Absent then Inl AlreadyExists
          else Inr ((), set_ent p (CharDev mode major minor) s))"

subsection \<open>What a crash leaves\<close>

text \<open>
  After a power loss a path holds any entry not yet superseded on disk, and a file whose
  contents were not synced may hold any bytes. An entry below a directory whose own entry
  was not synced may be gone with it.
\<close>

fun entry_survives :: "fsys \<Rightarrow> string option \<Rightarrow> entry \<Rightarrow> bool" where
  "entry_survives s None (FileAt i) = False"
| "entry_survives s None e = True"
| "entry_survives s (Some b) (FileAt i) =
     (i_synced (fs_inodes s i) \<longrightarrow> b = i_data (fs_inodes s i))"
| "entry_survives s (Some b) e = False"

text \<open>The directories above a path are on disk for good.\<close>

definition anchored :: "fsys \<Rightarrow> path \<Rightarrow> bool" where
  "anchored s p \<longleftrightarrow>
     (\<forall>q \<in> set (butlast (path_prefixes p)). q = [RootDir] \<or> Absent \<notin> set (vers s q))"

text \<open>What a path may hold after a crash, by its own entries and with the directories above it.\<close>

definition may_hold :: "fsys \<Rightarrow> path \<Rightarrow> string option \<Rightarrow> bool" where
  "may_hold s p v \<longleftrightarrow> (\<exists>e \<in> set (vers s p). entry_survives s v e)"

definition survives :: "fsys \<Rightarrow> path \<Rightarrow> string option \<Rightarrow> bool" where
  "survives s p v \<longleftrightarrow> may_hold s p v \<or> (v = None \<and> \<not> anchored s p)"

section \<open>Operations, the world and its environment\<close>

datatype exit_status = ExitCode nat | Killed nat

definition success :: "exit_status \<Rightarrow> bool" where
  "success st \<longleftrightarrow> st = ExitCode 0"

fun show_status :: "exit_status \<Rightarrow> string" where
  "show_status (ExitCode n) = ''exit status: '' @ show_nat n"
| "show_status (Killed n) = ''signal: '' @ show_nat n"

datatype op =
    CreateDirAll path
  | OpenTrunc path nat
  | WriteAll nat string
  | SyncFile nat
  | Rename path path
  | OpenDir path
  | SyncDir path
  | ReadFile path
  | OpenRead path
  | Seek path nat
  | ReadExact path nat
  | RemoveFile path
  | SetMode path nat
  | Exists path
  | MakeNode path nat nat nat
  | Mount string path string "64 word" "string option"
  | OpenSocket
  | GetIfFlags string
  | SetIfFlags string "16 word"
  | CloseSocket
  | Status string "string list" "(string \<times> string) list"
  | Output string "string list" "(string \<times> string) list"
  | Spawn string "string list"
  | TryWait nat
  | Sleep nat
  | LibCall string "string list"

datatype reply = Done | Failed io_error | Exited exit_status | Answer bool

type_synonym event = "op \<times> reply"

record world =
  w_fs :: fsys
  w_snaps :: "fsys list"
  w_trace :: "event list"
  w_now :: nat

record env =
  env_fault :: "event list \<Rightarrow> op \<Rightarrow> io_error option"
  env_short :: "event list \<Rightarrow> nat"
  env_run :: "event list \<Rightarrow> op \<Rightarrow> fsys \<Rightarrow> exit_status \<times> fsys"
  env_exit :: "event list \<Rightarrow> nat \<Rightarrow> exit_status option"
  env_meanwhile :: "event list \<Rightarrow> fsys \<Rightarrow> fsys"
  env_lag :: "event list \<Rightarrow> nat"
  env_flags :: "event list \<Rightarrow> string \<Rightarrow> 16 word"

text \<open>A machine on which nothing fails and nobody else runs.\<close>

definition calm :: env where
  "calm = \<lparr>env_fault = (\<lambda>_ _. None), env_short = (\<lambda>_. 0),
     env_run = (\<lambda>_ _ s. (ExitCode 0, s)), env_exit = (\<lambda>_ _. None),
     env_meanwhile = (\<lambda>_ s. s), env_lag = (\<lambda>_. 0), env_flags = (\<lambda>_ _. 0)\<rparr>"

definition world_of :: "fsys \<Rightarrow> world" where
  "world_of s = \<lparr>w_fs = s, w_snaps = [], w_trace = [], w_now = 0\<rparr>"

type_synonym 'a cmd = "(world, 'a) io"

definition log :: "op \<Rightarrow> reply \<Rightarrow> world \<Rightarrow> world" where
  "log o' r w = w\<lparr>w_trace := w_trace w @ [(o', r)]\<rparr>"

definition put_fs :: "fsys \<Rightarrow> world \<Rightarrow> world" where
  "put_fs s w = w\<lparr>w_fs := s, w_snaps := w_snaps w @ [s]\<rparr>"

lemma log_sel [simp]:
  "w_fs (log o' r w) = w_fs w" "w_snaps (log o' r w) = w_snaps w"
  "w_trace (log o' r w) = w_trace w @ [(o', r)]" "w_now (log o' r w) = w_now w"
  by (simp_all add: log_def)

lemma put_fs_sel [simp]:
  "w_fs (put_fs s w) = s" "w_snaps (put_fs s w) = w_snaps w @ [s]"
  "w_trace (put_fs s w) = w_trace w" "w_now (put_fs s w) = w_now w"
  by (simp_all add: put_fs_def)

subsection \<open>Operations\<close>

text \<open>
  One operation: the environment may fail it, and then it has no effect; otherwise the file
  system decides.
\<close>

definition prim :: "env \<Rightarrow> op \<Rightarrow> (fsys \<Rightarrow> io_error + 'a \<times> fsys) \<Rightarrow> 'a cmd" where
  "prim E o' f = (\<lambda>w.
     case env_fault E (w_trace w) o' of
       Some e \<Rightarrow> (Inl (Io e), log o' (Failed e) w)
     | None \<Rightarrow>
         (case f (w_fs w) of
            Inl e \<Rightarrow> (Inl (Io e), log o' (Failed e) w)
          | Inr (x, s) \<Rightarrow> (Inr x, log o' Done (put_fs s w))))"

definition create_dir_all :: "env \<Rightarrow> path \<Rightarrow> unit cmd" where
  "create_dir_all E p = prim E (CreateDirAll p) (fs_create_dir_all p)"

definition open_trunc :: "env \<Rightarrow> path \<Rightarrow> nat \<Rightarrow> nat cmd" where
  "open_trunc E p m = prim E (OpenTrunc p m) (fs_open_trunc p m)"

text \<open>
  \<open>write_all\<close> may fail after some bytes have reached the file, but only while bytes are left to
  write: never on empty data, and never after all of it.
\<close>

definition write_fault :: "env \<Rightarrow> event list \<Rightarrow> nat \<Rightarrow> string \<Rightarrow> io_error option" where
  "write_fault E t i d = (if d = [] then None else env_fault E t (WriteAll i d))"

definition written :: "env \<Rightarrow> event list \<Rightarrow> string \<Rightarrow> string" where
  "written E t d = take (min (env_short E t) (length d - 1)) d"

definition write_all :: "env \<Rightarrow> nat \<Rightarrow> string \<Rightarrow> unit cmd" where
  "write_all E i d = (\<lambda>w.
     case write_fault E (w_trace w) i d of
       Some e \<Rightarrow>
         (Inl (Io e), log (WriteAll i d) (Failed e) (put_fs (fs_write i (written E (w_trace w) d) (w_fs w)) w))
     | None \<Rightarrow> (Inr (), log (WriteAll i d) Done (put_fs (fs_write i d (w_fs w)) w)))"

lemma write_fault_none [simp]: "env_fault E t (WriteAll i d) = None \<Longrightarrow> write_fault E t i d = None"
  by (simp add: write_fault_def)

lemma write_faultD: "write_fault E t i d = Some e \<Longrightarrow> d \<noteq> [] \<and> env_fault E t (WriteAll i d) = Some e"
  by (simp add: write_fault_def split: if_splits)

lemma written_short:
  assumes "d \<noteq> []"
  obtains n where "n < length d" and "written E t d = take n d"
proof
  show "min (env_short E t) (length d - 1) < length d" using assms by (cases d) simp_all
qed (simp add: written_def)

definition sync_file :: "env \<Rightarrow> nat \<Rightarrow> unit cmd" where
  "sync_file E i = prim E (SyncFile i) (\<lambda>s. Inr ((), fs_sync i s))"

definition rename :: "env \<Rightarrow> path \<Rightarrow> path \<Rightarrow> unit cmd" where
  "rename E a b = prim E (Rename a b) (fs_rename a b)"

definition open_dir :: "env \<Rightarrow> path \<Rightarrow> unit cmd" where
  "open_dir E d = prim E (OpenDir d) (\<lambda>s. if d \<noteq> [] \<and> is_dir s d then Inr ((), s) else Inl NotFound)"

definition sync_dir :: "env \<Rightarrow> path \<Rightarrow> unit cmd" where
  "sync_dir E d = prim E (SyncDir d) (\<lambda>s. Inr ((), fs_sync_dir d s))"

definition read_file :: "env \<Rightarrow> path \<Rightarrow> string cmd" where
  "read_file E p = prim E (ReadFile p) (fs_read p)"

text \<open>\<open>read_to_string\<close> fails on bytes that are not UTF-8.\<close>

definition fs_read_str :: "path \<Rightarrow> fsys \<Rightarrow> io_error + string \<times> fsys" where
  "fs_read_str p s =
     (case fs_read p s of
        Inl e \<Rightarrow> Inl e
      | Inr (d, s') \<Rightarrow> if valid_utf8 d then Inr (d, s') else Inl InvalidData)"

definition read_to_string :: "env \<Rightarrow> path \<Rightarrow> string cmd" where
  "read_to_string E p = prim E (ReadFile p) (fs_read_str p)"

definition remove_file :: "env \<Rightarrow> path \<Rightarrow> unit cmd" where
  "remove_file E p = prim E (RemoveFile p) (fs_remove p)"

definition set_mode :: "env \<Rightarrow> path \<Rightarrow> nat \<Rightarrow> unit cmd" where
  "set_mode E p m = prim E (SetMode p m) (fs_chmod p m)"

definition mknod :: "env \<Rightarrow> path \<Rightarrow> nat \<Rightarrow> nat \<Rightarrow> nat \<Rightarrow> unit cmd" where
  "mknod E p mode major minor = prim E (MakeNode p mode major minor) (fs_mknod p mode major minor)"

text \<open>\<open>Path::exists\<close> answers \<open>false\<close> where the lookup fails.\<close>

definition path_exists :: "env \<Rightarrow> path \<Rightarrow> bool cmd" where
  "path_exists E p = (\<lambda>w.
     let b = (env_fault E (w_trace w) (Exists p) = None \<and> cur (w_fs w) p \<noteq> Absent)
     in (Inr b, log (Exists p) (Answer b) w))"

text \<open>\<open>Command::status\<close>: start an external program and wait for it.\<close>

definition run_status :: "env \<Rightarrow> string \<Rightarrow> string list \<Rightarrow> (string \<times> string) list \<Rightarrow> exit_status cmd" where
  "run_status E prog args envs = (\<lambda>w.
     let o' = Status prog args envs in
     case env_fault E (w_trace w) o' of
       Some e \<Rightarrow> (Inl (Io e), log o' (Failed e) w)
     | None \<Rightarrow>
         (case env_run E (w_trace w) o' (w_fs w) of
            (st, s) \<Rightarrow> (Inr st, log o' (Exited st) (put_fs s w))))"

text \<open>\<open>Command::output\<close>, whose standard output the code only logs.\<close>

definition run_output :: "env \<Rightarrow> string \<Rightarrow> string list \<Rightarrow> (string \<times> string) list \<Rightarrow> exit_status cmd" where
  "run_output E prog args envs = (\<lambda>w.
     let o' = Output prog args envs in
     case env_fault E (w_trace w) o' of
       Some e \<Rightarrow> (Inl (Io e), log o' (Failed e) w)
     | None \<Rightarrow>
         (case env_run E (w_trace w) o' (w_fs w) of
            (st, s) \<Rightarrow> (Inr st, log o' (Exited st) (put_fs s w))))"

text \<open>\<open>Command::spawn\<close>: the child runs on; its handle is its place in the trace.\<close>

definition spawn :: "env \<Rightarrow> string \<Rightarrow> string list \<Rightarrow> nat cmd" where
  "spawn E prog args = (\<lambda>w.
     case env_fault E (w_trace w) (Spawn prog args) of
       Some e \<Rightarrow> (Inl (Io e), log (Spawn prog args) (Failed e) w)
     | None \<Rightarrow> (Inr (length (w_trace w)), log (Spawn prog args) Done w))"

text \<open>\<open>Child::try_wait\<close>.\<close>

definition try_wait :: "env \<Rightarrow> nat \<Rightarrow> exit_status option cmd" where
  "try_wait E c = (\<lambda>w.
     case env_fault E (w_trace w) (TryWait c) of
       Some e \<Rightarrow> (Inl (Io e), log (TryWait c) (Failed e) w)
     | None \<Rightarrow>
         (case env_exit E (w_trace w) c of
            None \<Rightarrow> (Inr None, log (TryWait c) (Answer False) w)
          | Some st \<Rightarrow> (Inr (Some st), log (TryWait c) (Exited st) w)))"

text \<open>A sleep of \<open>ms\<close> milliseconds lasts at least that long; other processes run meanwhile.\<close>

definition sleep :: "env \<Rightarrow> nat \<Rightarrow> unit cmd" where
  "sleep E ms = (\<lambda>w.
     (Inr (),
      log (Sleep ms) Done
        (put_fs (env_meanwhile E (w_trace w) (w_fs w)) (w\<lparr>w_now := w_now w + ms + env_lag E (w_trace w)\<rparr>))))"

text \<open>A plain system call: no effect on the files.\<close>

definition syscall :: "env \<Rightarrow> op \<Rightarrow> unit cmd" where
  "syscall E o' = prim E o' (\<lambda>s. Inr ((), s))"

text \<open>
  Reading at an offset of an open file. A block device is a file whose bytes are the
  device's. The handle is what the path named when it was opened.
\<close>

definition open_read :: "env \<Rightarrow> path \<Rightarrow> entry cmd" where
  "open_read E p =
     prim E (OpenRead p) (\<lambda>s. if cur s p = Absent then Inl NotFound else Inr (cur s p, s))"

definition seek_to :: "env \<Rightarrow> path \<Rightarrow> nat \<Rightarrow> unit cmd" where
  "seek_to E p n = syscall E (Seek p n)"

fun fs_read_at :: "entry \<Rightarrow> nat \<Rightarrow> nat \<Rightarrow> fsys \<Rightarrow> io_error + string \<times> fsys" where
  "fs_read_at (FileAt i) off n s =
     (let d = take n (drop off (i_data (fs_inodes s i)))
      in if length d = n then Inr (d, s) else Inl UnexpectedEof)"
| "fs_read_at Directory off n s = Inl IsADirectory"
| "fs_read_at _ off n s = Inl (OsError 6)"

definition read_exact :: "env \<Rightarrow> path \<Rightarrow> entry \<Rightarrow> nat \<Rightarrow> nat \<Rightarrow> string cmd" where
  "read_exact E p h off n = prim E (ReadExact p n) (fs_read_at h off n)"

text \<open>A mount: what it makes visible below its target is the environment's.\<close>

definition mount_call :: "env \<Rightarrow> op \<Rightarrow> unit cmd" where
  "mount_call E o' = (\<lambda>w. prim E o' (\<lambda>s. Inr ((), snd (env_run E (w_trace w) o' s))) w)"

text \<open>As for the combinators: an operation computes once the state is there.\<close>

lemma prim_code [code]:
  "prim E o' f w =
     (case env_fault E (w_trace w) o' of
       Some e \<Rightarrow> (Inl (Io e), log o' (Failed e) w)
     | None \<Rightarrow>
         (case f (w_fs w) of
            Inl e \<Rightarrow> (Inl (Io e), log o' (Failed e) w)
          | Inr (x, s) \<Rightarrow> (Inr x, log o' Done (put_fs s w))))"
  by (simp add: prim_def)

lemma run_status_code [code]:
  "run_status E prog args envs w =
     (case env_fault E (w_trace w) (Status prog args envs) of
       Some e \<Rightarrow> (Inl (Io e), log (Status prog args envs) (Failed e) w)
     | None \<Rightarrow>
         (case env_run E (w_trace w) (Status prog args envs) (w_fs w) of
            (st, s) \<Rightarrow> (Inr st, log (Status prog args envs) (Exited st) (put_fs s w))))"
  by (simp add: run_status_def Let_def)

lemma path_exists_code [code]:
  "path_exists E p w =
     (let b = (env_fault E (w_trace w) (Exists p) = None \<and> cur (w_fs w) p \<noteq> Absent)
      in (Inr b, log (Exists p) (Answer b) w))"
  by (simp add: path_exists_def)

lemma more_ops_code [code]:
  "mount_call E o' w = prim E o' (\<lambda>s. Inr ((), snd (env_run E (w_trace w) o' s))) w"
  "write_all E i d w =
     (case write_fault E (w_trace w) i d of
       Some e \<Rightarrow>
         (Inl (Io e), log (WriteAll i d) (Failed e) (put_fs (fs_write i (written E (w_trace w) d) (w_fs w)) w))
     | None \<Rightarrow> (Inr (), log (WriteAll i d) Done (put_fs (fs_write i d (w_fs w)) w)))"
  "run_output E prog args envs w =
     (case env_fault E (w_trace w) (Output prog args envs) of
       Some e \<Rightarrow> (Inl (Io e), log (Output prog args envs) (Failed e) w)
     | None \<Rightarrow>
         (case env_run E (w_trace w) (Output prog args envs) (w_fs w) of
            (st, s) \<Rightarrow> (Inr st, log (Output prog args envs) (Exited st) (put_fs s w))))"
  "spawn E prog args w =
     (case env_fault E (w_trace w) (Spawn prog args) of
       Some e \<Rightarrow> (Inl (Io e), log (Spawn prog args) (Failed e) w)
     | None \<Rightarrow> (Inr (length (w_trace w)), log (Spawn prog args) Done w))"
  by (simp_all add: mount_call_def write_all_def run_output_def spawn_def Let_def)

lemmas prim_op_defs = open_read_def seek_to_def read_exact_def create_dir_all_def open_trunc_def sync_file_def rename_def open_dir_def
  sync_dir_def read_file_def read_to_string_def remove_file_def set_mode_def mknod_def syscall_def

lemma prim_Inr:
  "prim E o' f w = (Inr x, w') \<longleftrightarrow>
     env_fault E (w_trace w) o' = None \<and>
     (\<exists>s. f (w_fs w) = Inr (x, s) \<and> w' = log o' Done (put_fs s w))"
  by (auto simp: prim_def split: option.splits sum.splits)

lemma prim_Inl:
  "prim E o' f w = (Inl e, w') \<Longrightarrow>
     \<exists>k. e = Io k \<and> w' = log o' (Failed k) w"
  by (auto simp: prim_def split: option.splits sum.splits)

lemma prim_calm:
  "env_fault E (w_trace w) o' = None \<Longrightarrow> f (w_fs w) = Inr (x, s) \<Longrightarrow>
     prim E o' f w = (Inr x, log o' Done (put_fs s w))"
  by (simp add: prim_def)

lemma keeps_prim_same:
  "(\<And>s x s'. f s = Inr (x, s') \<Longrightarrow> s' = s) \<Longrightarrow> keeps (\<lambda>w. w_fs w = s0) (prim E o' f)"
  by (intro keepsI) (fastforce simp: prim_def split: option.splits sum.splits)

lemma fs_read_at_same: "fs_read_at h off n s = Inr (x, s') \<Longrightarrow> s' = s"
  by (cases h) (auto simp: Let_def split: if_splits)

section \<open>What a program does to the trace\<close>

text \<open>
  \<open>emits Q m\<close>: whatever the environment answers, \<open>m\<close> only appends to the trace, and every
  event it appends satisfies \<open>Q\<close>.
\<close>

definition emits :: "(event \<Rightarrow> bool) \<Rightarrow> 'a cmd \<Rightarrow> bool" where
  "emits Q m \<longleftrightarrow> (\<forall>w. \<exists>es. w_trace (snd (m w)) = w_trace w @ es \<and> list_all Q es)"

named_theorems emits_rules "rules that compose emits"

lemma emitsD:
  assumes "emits Q m" and "m w = (r, w')"
  obtains es where "w_trace w' = w_trace w @ es" and "list_all Q es"
proof -
  from assms(1) obtain es where "w_trace (snd (m w)) = w_trace w @ es" and "list_all Q es"
    unfolding emits_def by blast
  with assms(2) show thesis by (auto intro: that)
qed

lemma emits_one:
  assumes "\<And>w. \<exists>r. w_trace (snd (m w)) = w_trace w @ [(o', r)] \<and> Q (o', r)"
  shows "emits Q m"
  unfolding emits_def
proof
  fix w
  from assms [of w] obtain r where "w_trace (snd (m w)) = w_trace w @ [(o', r)] \<and> Q (o', r)" ..
  then show "\<exists>es. w_trace (snd (m w)) = w_trace w @ es \<and> list_all Q es"
    by (intro exI [of _ "[(o', r)]"]) simp
qed

lemma emits_ret [emits_rules]: "emits Q (io_ret x)"
  by (simp add: emits_def)

lemma emits_err [emits_rules]: "emits Q (io_err e)"
  by (simp add: emits_def)

lemma emits_lift [emits_rules]: "emits Q (io_lift r)"
  by (simp add: emits_def)

lemma emits_bind [emits_rules]:
  assumes m: "emits Q m" and f: "\<And>x. emits Q (f x)"
  shows "emits Q (io_bind m f)"
  unfolding emits_def
proof
  fix w
  obtain r w' where mw: "m w = (r, w')" by (cases "m w")
  obtain es where es: "w_trace w' = w_trace w @ es" "list_all Q es"
    by (rule emitsD [OF m mw])
  show "\<exists>es. w_trace (snd (io_bind m f w)) = w_trace w @ es \<and> list_all Q es"
  proof (cases r)
    case (Inl e)
    with mw es show ?thesis by (auto simp: io_bind_def)
  next
    case (Inr x)
    obtain r' w'' where fw: "f x w' = (r', w'')" by (cases "f x w'")
    obtain es' where "w_trace w'' = w_trace w' @ es'" "list_all Q es'"
      by (rule emitsD [OF f fw])
    with mw es Inr fw show ?thesis by (auto simp: io_bind_def)
  qed
qed

lemma emits_then [emits_rules]: "emits Q m \<Longrightarrow> emits Q n \<Longrightarrow> emits Q (io_then m n)"
  by (simp add: io_then_def emits_bind)

lemma emits_ctx [emits_rules]: "emits Q m \<Longrightarrow> emits Q (io_ctx c m)"
  by (simp add: emits_def)

lemma emits_ignore [emits_rules]: "emits Q m \<Longrightarrow> emits Q (io_ignore m)"
  by (simp add: emits_def)

lemma emits_attempt [emits_rules]: "emits Q m \<Longrightarrow> emits Q (io_attempt m)"
  by (simp add: emits_def io_attempt_run)

lemma emits_seq [emits_rules]: "(\<And>m. m \<in> set ms \<Longrightarrow> emits Q m) \<Longrightarrow> emits Q (io_seq ms)"
  by (induction ms) (auto intro!: emits_rules)

lemma emits_for [emits_rules]: "(\<And>x. x \<in> set xs \<Longrightarrow> emits Q (f x)) \<Longrightarrow> emits Q (io_for xs f)"
  by (induction xs) (auto intro!: emits_rules)

lemma emits_map [emits_rules]: "(\<And>x. x \<in> set xs \<Longrightarrow> emits Q (f x)) \<Longrightarrow> emits Q (io_map xs f)"
  by (induction xs) (auto intro!: emits_rules)

lemma emits_if [emits_rules]: "(b \<Longrightarrow> emits Q m) \<Longrightarrow> (\<not> b \<Longrightarrow> emits Q n) \<Longrightarrow> emits Q (if b then m else n)"
  by simp

lemma emits_option [emits_rules]:
  "(x = None \<Longrightarrow> emits Q m) \<Longrightarrow> (\<And>y. x = Some y \<Longrightarrow> emits Q (f y)) \<Longrightarrow>
     emits Q (case x of None \<Rightarrow> m | Some y \<Rightarrow> f y)"
  by (cases x) simp_all

lemma emits_sum [emits_rules]:
  "(\<And>e. x = Inl e \<Longrightarrow> emits Q (f e)) \<Longrightarrow> (\<And>y. x = Inr y \<Longrightarrow> emits Q (g y)) \<Longrightarrow>
     emits Q (case x of Inl e \<Rightarrow> f e | Inr y \<Rightarrow> g y)"
  by (cases x) simp_all

lemma emits_list [emits_rules]:
  "(xs = [] \<Longrightarrow> emits Q m) \<Longrightarrow> (\<And>y ys. xs = y # ys \<Longrightarrow> emits Q (f y ys)) \<Longrightarrow>
     emits Q (case xs of [] \<Rightarrow> m | y # ys \<Rightarrow> f y ys)"
  by (cases xs) simp_all

lemma emits_prim [emits_rules]: "(\<And>r. Q (o', r)) \<Longrightarrow> emits Q (prim E o' f)"
  by (rule emits_one [of _ o']) (auto simp: prim_def split: option.splits sum.splits)

lemma emits_mount [emits_rules]: "(\<And>r. Q (o', r)) \<Longrightarrow> emits Q (mount_call E o')"
  by (rule emits_one [of _ o']) (auto simp: mount_call_def prim_def split: option.splits sum.splits)

lemma emits_write_all [emits_rules]: "(\<And>r. Q (WriteAll i d, r)) \<Longrightarrow> emits Q (write_all E i d)"
  by (rule emits_one [of _ "WriteAll i d"]) (auto simp: write_all_def split: option.splits)

lemma emits_exists [emits_rules]: "(\<And>b. Q (Exists p, Answer b)) \<Longrightarrow> emits Q (path_exists E p)"
  by (rule emits_one [of _ "Exists p"]) (auto simp: path_exists_def Let_def)

lemma emits_status [emits_rules]:
  "(\<And>r. Q (Status prog args envs, r)) \<Longrightarrow> emits Q (run_status E prog args envs)"
  by (rule emits_one [of _ "Status prog args envs"])
    (auto simp: run_status_def Let_def split: option.splits prod.splits)

lemma emits_output [emits_rules]:
  "(\<And>r. Q (Output prog args envs, r)) \<Longrightarrow> emits Q (run_output E prog args envs)"
  by (rule emits_one [of _ "Output prog args envs"])
    (auto simp: run_output_def Let_def split: option.splits prod.splits)

lemma emits_spawn [emits_rules]: "(\<And>r. Q (Spawn prog args, r)) \<Longrightarrow> emits Q (spawn E prog args)"
  by (rule emits_one [of _ "Spawn prog args"]) (auto simp: spawn_def split: option.splits)

lemma emits_try_wait [emits_rules]: "(\<And>r. Q (TryWait c, r)) \<Longrightarrow> emits Q (try_wait E c)"
  by (rule emits_one [of _ "TryWait c"]) (auto simp: try_wait_def split: option.splits)

lemma emits_sleep [emits_rules]: "Q (Sleep ms, Done) \<Longrightarrow> emits Q (sleep E ms)"
  by (rule emits_one [of _ "Sleep ms"]) (simp add: sleep_def)

lemma emits_weaken: "emits Q m \<Longrightarrow> (\<And>e. Q e \<Longrightarrow> R e) \<Longrightarrow> emits R m"
  unfolding emits_def by (metis list.pred_mono_strong)

text \<open>
  \<open>traces Q m\<close>: every run of \<open>m\<close> with result \<open>r\<close> appends events \<open>es\<close> with \<open>Q r es\<close>.
\<close>

definition traces :: "(err + 'a \<Rightarrow> event list \<Rightarrow> bool) \<Rightarrow> 'a cmd \<Rightarrow> bool" where
  "traces Q m \<longleftrightarrow> (\<forall>w. \<exists>es. w_trace (snd (m w)) = w_trace w @ es \<and> Q (fst (m w)) es)"

lemma tracesD:
  assumes "traces Q m" and "m w = (r, w')"
  obtains es where "w_trace w' = w_trace w @ es" and "Q r es"
proof -
  from assms(1) obtain es where "w_trace (snd (m w)) = w_trace w @ es" "Q (fst (m w)) es"
    unfolding traces_def by blast
  with assms(2) show thesis by (auto intro: that)
qed

lemma tracesI:
  assumes "\<And>w r w'. m w = (r, w') \<Longrightarrow> \<exists>es. w_trace w' = w_trace w @ es \<and> Q r es"
  shows "traces Q m"
  unfolding traces_def using assms by (metis prod.collapse)

lemma emits_traces: "emits Q m \<longleftrightarrow> traces (\<lambda>_ es. list_all Q es) m"
  by (simp add: emits_def traces_def)

lemma traces_weaken: "traces Q m \<Longrightarrow> (\<And>r es. Q r es \<Longrightarrow> R r es) \<Longrightarrow> traces R m"
  unfolding traces_def by blast

lemma traces_conj: "traces Q m \<Longrightarrow> traces R m \<Longrightarrow> traces (\<lambda>r es. Q r es \<and> R r es) m"
  unfolding traces_def by (metis same_append_eq)

lemma traces_ret: "Q (Inr x) [] \<Longrightarrow> traces Q (io_ret x)"
  by (simp add: traces_def)

lemma traces_err: "Q (Inl e) [] \<Longrightarrow> traces Q (io_err e)"
  by (simp add: traces_def)

lemma traces_lift: "Q r [] \<Longrightarrow> traces Q (io_lift r)"
  by (simp add: traces_def)

lemma traces_bind:
  assumes m: "traces Q1 m" and f: "\<And>x. traces (Q2 x) (f x)"
    and "\<And>e es. Q1 (Inl e) es \<Longrightarrow> Q (Inl e) es"
    and "\<And>x r es1 es2. Q1 (Inr x) es1 \<Longrightarrow> Q2 x r es2 \<Longrightarrow> Q r (es1 @ es2)"
  shows "traces Q (io_bind m f)"
proof (rule tracesI)
  fix w r w'
  assume run: "io_bind m f w = (r, w')"
  obtain q w1 where mw: "m w = (q, w1)" by (cases "m w")
  obtain es where es: "w_trace w1 = w_trace w @ es" "Q1 q es" by (rule tracesD [OF m mw])
  show "\<exists>es. w_trace w' = w_trace w @ es \<and> Q r es"
  proof (cases q)
    case (Inl e)
    with run mw es assms(3) show ?thesis by (auto simp: io_bind_def)
  next
    case (Inr x)
    with run mw have fw: "f x w1 = (r, w')" by (simp add: io_bind_def)
    obtain es' where "w_trace w' = w_trace w1 @ es'" "Q2 x r es'" by (rule tracesD [OF f fw])
    with es Inr assms(4) show ?thesis by (intro exI [of _ "es @ es'"]) auto
  qed
qed

lemma traces_then:
  assumes "traces Q1 m" and "traces Q2 n"
    and "\<And>e es. Q1 (Inl e) es \<Longrightarrow> Q (Inl e) es"
    and "\<And>x r es1 es2. Q1 (Inr x) es1 \<Longrightarrow> Q2 r es2 \<Longrightarrow> Q r (es1 @ es2)"
  shows "traces Q (io_then m n)"
  unfolding io_then_def by (rule traces_bind [OF assms(1), of "\<lambda>_. Q2"]) (use assms in auto)

lemma traces_ctx:
  assumes "traces (\<lambda>r es. Q (case r of Inl e \<Rightarrow> Inl (Ctx c e) | Inr x \<Rightarrow> Inr x) es) m"
  shows "traces Q (io_ctx c m)"
proof (rule tracesI)
  fix w r w'
  assume run: "io_ctx c m w = (r, w')"
  obtain q where mw: "m w = (q, w')" using run by (cases "m w") (auto simp: io_ctx_def split: sum.splits)
  obtain es where "w_trace w' = w_trace w @ es" "Q (case q of Inl e \<Rightarrow> Inl (Ctx c e) | Inr x \<Rightarrow> Inr x) es"
    by (rule tracesD [OF assms mw])
  with run mw show "\<exists>es. w_trace w' = w_trace w @ es \<and> Q r es"
    by (cases q) (auto simp: io_ctx_def)
qed

lemma traces_attempt: "traces (\<lambda>r. Q (Inr r)) m \<Longrightarrow> traces Q (io_attempt m)"
  by (simp add: traces_def io_attempt_run)

lemma traces_ignore: "traces (\<lambda>r. Q (Inr ())) m \<Longrightarrow> traces Q (io_ignore m)"
  by (simp add: traces_def)

text \<open>\<open>preceded A B es\<close>: every event with \<open>B\<close> comes after one with \<open>A\<close>.\<close>

fun preceded :: "(event \<Rightarrow> bool) \<Rightarrow> (event \<Rightarrow> bool) \<Rightarrow> event list \<Rightarrow> bool" where
  "preceded A B [] = True"
| "preceded A B (e # es) = (\<not> B e \<and> (A e \<or> preceded A B es))"

lemma preceded_nth: "preceded A B es \<longleftrightarrow> (\<forall>i < length es. B (es ! i) \<longrightarrow> (\<exists>j < i. A (es ! j)))"
proof (induction es)
  case Nil
  then show ?case by simp
next
  case (Cons e es)
  show ?case unfolding preceded.simps Cons.IH
    by (auto simp: All_less_Suc2 Ex_less_Suc2)
qed

lemma preceded_append:
  "preceded A B (xs @ ys) \<longleftrightarrow> preceded A B xs \<and> (list_ex A xs \<or> preceded A B ys)"
  by (induction xs) auto

lemma preceded_none: "list_all (\<lambda>e. \<not> B e) es \<Longrightarrow> preceded A B es"
  by (induction es) auto

lemma preceded_weaken: "preceded A B es \<Longrightarrow> (\<And>e. A e \<Longrightarrow> A' e) \<Longrightarrow> (\<And>e. B' e \<Longrightarrow> B e) \<Longrightarrow> preceded A' B' es"
  by (induction es) auto

section \<open>Facts on the file system\<close>

named_theorems fs_simps "the entries and contents after a file system update"

lemma vers_nonempty [simp]: "vers s p \<noteq> []"
  by (simp add: vers_def split: list.splits)

lemma cur_in_vers: "cur s p \<in> set (vers s p)"
  by (simp add: cur_def)

lemma vers_set_ent [fs_simps]: "vers (set_ent p e s) q = (if q = p then e # vers s p else vers s q)"
  by (simp add: vers_def set_ent_def)

lemma cur_set_ent [fs_simps]: "cur (set_ent p e s) q = (if q = p then e else cur s q)"
  by (simp add: cur_def vers_set_ent)

lemma vers_upd_inode [fs_simps]: "vers (upd_inode i f s) q = vers s q"
  by (simp add: vers_def upd_inode_def)

lemma cur_upd_inode [fs_simps]: "cur (upd_inode i f s) q = cur s q"
  by (simp add: cur_def vers_upd_inode)

lemma vers_fs_more [fs_simps]:
  "vers (s\<lparr>fs_inodes := g\<rparr>) q = vers s q" "vers (s\<lparr>fs_next := n\<rparr>) q = vers s q"
  by (simp_all add: vers_def)

lemma cur_fs_more [fs_simps]:
  "cur (s\<lparr>fs_inodes := g\<rparr>) q = cur s q" "cur (s\<lparr>fs_next := n\<rparr>) q = cur s q"
  by (simp_all add: cur_def vers_fs_more)

lemma inodes_set_ent [fs_simps]:
  "fs_inodes (set_ent p e s) = fs_inodes s" "fs_next (set_ent p e s) = fs_next s"
  by (simp_all add: set_ent_def)

lemma inodes_upd_inode [fs_simps]:
  "fs_inodes (upd_inode i f s) j = (if j = i then f (fs_inodes s i) else fs_inodes s j)"
  "fs_next (upd_inode i f s) = fs_next s"
  by (simp_all add: upd_inode_def)

lemma vers_fs_sync_dir [fs_simps]:
  "vers (fs_sync_dir d s) q = (if path_parent q = Some d then [cur s q] else vers s q)"
  by (simp add: vers_def fs_sync_dir_def)

lemma cur_fs_sync_dir [fs_simps]: "cur (fs_sync_dir d s) q = cur s q"
  by (simp add: cur_def vers_fs_sync_dir)

lemma inodes_fs_sync_dir [fs_simps]:
  "fs_inodes (fs_sync_dir d s) = fs_inodes s" "fs_next (fs_sync_dir d s) = fs_next s"
  by (simp_all add: fs_sync_dir_def)

lemma cur_fs_write [fs_simps]: "cur (fs_write i d s) q = cur s q" "vers (fs_write i d s) q = vers s q"
  by (simp_all add: fs_write_def fs_simps)

lemma inodes_fs_write [fs_simps]:
  "fs_inodes (fs_write i d s) j =
     (if j = i then (fs_inodes s i)\<lparr>i_data := d @ drop (length d) (i_data (fs_inodes s i)), i_synced := False\<rparr>
      else fs_inodes s j)"
  "fs_next (fs_write i d s) = fs_next s"
  by (simp_all add: fs_write_def fs_simps)

lemma cur_fs_sync [fs_simps]: "cur (fs_sync i s) q = cur s q" "vers (fs_sync i s) q = vers s q"
  by (simp_all add: fs_sync_def fs_simps)

lemma inodes_fs_sync [fs_simps]:
  "fs_inodes (fs_sync i s) j = (if j = i then (fs_inodes s i)\<lparr>i_synced := True\<rparr> else fs_inodes s j)"
  "fs_next (fs_sync i s) = fs_next s"
  by (simp_all add: fs_sync_def fs_simps)

lemma content_cong: "cur s p = cur t p \<Longrightarrow> fs_inodes s = fs_inodes t \<Longrightarrow> content s p = content t p"
  by (simp add: content_def split: entry.split)

lemma mkdirs_inodes [fs_simps]: "fs_inodes (mkdirs qs s) = fs_inodes s" "fs_next (mkdirs qs s) = fs_next s"
  by (induction qs arbitrary: s) (simp_all add: fs_simps)

lemma mkdirs_vers:
  "vers (mkdirs qs s) q = vers s q \<or> (q \<in> set qs \<and> cur s q = Absent \<and> vers (mkdirs qs s) q = Directory # vers s q)"
proof (induction qs arbitrary: s)
  case Nil
  then show ?case by simp
next
  case (Cons r rs)
  show ?case
  proof (cases "is_dir s r \<or> cur s r \<noteq> Absent")
    case True
    with Cons.IH [of s] show ?thesis by auto
  next
    case False
    with Cons.IH [of "set_ent r Directory s"] show ?thesis by (auto simp: fs_simps split: if_splits)
  qed
qed

lemma mkdirs_cur:
  "cur (mkdirs qs s) q = cur s q \<or> (q \<in> set qs \<and> cur s q = Absent \<and> cur (mkdirs qs s) q = Directory)"
  using mkdirs_vers [of qs s q] by (auto simp: cur_def)

lemma mkdirs_cur_file: "cur (mkdirs qs s) q = FileAt i \<longleftrightarrow> cur s q = FileAt i"
  using mkdirs_cur [of qs s q] by auto

lemma mkdirs_other: "q \<notin> set qs \<Longrightarrow> vers (mkdirs qs s) q = vers s q"
  using mkdirs_vers [of qs s q] by blast

lemma mkdirs_content: "content (mkdirs qs s) q = content s q"
  using mkdirs_cur [of qs s q] by (auto simp: content_def fs_simps split: entry.split)

lemma mkdirs_is_dir: "is_dir s q \<Longrightarrow> is_dir (mkdirs qs s) q"
  using mkdirs_cur [of qs s q] by (auto simp: is_dir_def)

lemma mkdirs_makes:
  "q \<in> set qs \<Longrightarrow> (\<forall>i. cur s q \<noteq> FileAt i) \<Longrightarrow> (\<forall>a b c. cur s q \<noteq> CharDev a b c) \<Longrightarrow>
     is_dir (mkdirs qs s) q"
proof (induction qs arbitrary: s)
  case Nil
  then show ?case by simp
next
  case (Cons r rs)
  show ?case
  proof (cases "q = r")
    case True
    have "is_dir (if is_dir s r \<or> cur s r \<noteq> Absent then s else set_ent r Directory s) r"
      using Cons.prems(2,3) True by (cases "cur s r") (auto simp: is_dir_def fs_simps)
    then show ?thesis using True by (simp add: mkdirs_is_dir)
  next
    case False
    with Cons.prems Cons.IH show ?thesis by (auto simp: fs_simps)
  qed
qed

lemma create_dir_all_is_dir:
  assumes "fs_create_dir_all p s = Inr (x, s')"
  shows "is_dir s' p"
proof (cases "p = []")
  case True
  then show ?thesis by (simp add: is_dir_def)
next
  case False
  then have p: "p \<in> set (path_prefixes p)" by (simp add: set_path_prefixes)
  from assms have nb: "\<not> blocked s p" and s': "s' = mkdirs (path_prefixes p) s"
    by (auto simp: fs_create_dir_all_def split: if_splits)
  have "\<not> (case cur s p of FileAt _ \<Rightarrow> True | CharDev _ _ _ \<Rightarrow> True | _ \<Rightarrow> False)"
    using nb p unfolding blocked_def list_ex_iff by blast
  then have "(\<forall>i. cur s p \<noteq> FileAt i) \<and> (\<forall>a b c. cur s p \<noteq> CharDev a b c)"
    by (auto split: entry.splits)
  then show ?thesis unfolding s' using p mkdirs_makes by blast
qed

section \<open>File systems with given files\<close>

text \<open>
  \<open>add_dir\<close> and \<open>add_file\<close> put a directory or a file on disk for good: the start states of
  the examples.
\<close>

definition add_dir :: "path \<Rightarrow> fsys \<Rightarrow> fsys" where
  "add_dir p s = s\<lparr>fs_ents := (fs_ents s)(p := [Directory])\<rparr>"

definition add_file :: "path \<Rightarrow> string \<Rightarrow> nat \<Rightarrow> fsys \<Rightarrow> fsys" where
  "add_file p d m s =
     s\<lparr>fs_ents := (fs_ents s)(p := [FileAt (fs_next s)]),
       fs_inodes := (fs_inodes s)(fs_next s := \<lparr>i_data = d, i_mode = m, i_synced = True\<rparr>),
       fs_next := Suc (fs_next s)\<rparr>"

fun add_dirs :: "path list \<Rightarrow> fsys \<Rightarrow> fsys" where
  "add_dirs [] s = s"
| "add_dirs (p # ps) s = add_dirs ps (add_dir p s)"

lemma vers_add_dir: "vers (add_dir p s) q = (if q = p then [Directory] else vers s q)"
  by (simp add: vers_def add_dir_def)

lemma vers_add_file: "vers (add_file p d m s) q = (if q = p then [FileAt (fs_next s)] else vers s q)"
  by (simp add: vers_def add_file_def)

end
