(* ===== verification/Initd_Config.thy ===== *)
theory Initd_Config
  imports Host
begin

text \<open>
  The configuration of \<open>initd\<close> (crates/initd/src/main.rs, \<open>Config\<close> to \<open>RestartPolicy\<close>), with
  the defaults its \<open>serde\<close> attributes fill in for absent fields, and \<open>load_config\<close>. The TOML
  parser is a parameter: it yields the table as written, each field present or not.
\<close>

section \<open>The configuration\<close>

datatype restart_policy = Never | Always

record mount_cfg =
  mt_source :: string
  mt_target :: path
  mt_fstype :: string
  mt_flags :: "string list"
  mt_data :: "string option"

record luks =
  lk_name :: string
  lk_nv_index :: string
  lk_pcrs :: "string option"

record disk =
  dk_device :: string
  dk_target :: path
  dk_fstype :: string
  dk_flags :: "string list"
  dk_format_if_empty :: bool
  dk_mkfs :: "string list"
  dk_encrypt :: "luks option"

record service =
  sv_name :: string
  sv_command :: path
  sv_args :: "string list"
  sv_restart :: restart_policy
  sv_ready_when :: "path option"
  sv_ready_timeout :: nat
  sv_start_when :: "path option"

record initd_config =
  ic_required_dirs :: "path list"
  ic_mounts :: "mount_cfg list"
  ic_disks :: "disk list"
  ic_interfaces :: "string list"
  ic_services :: "service list"

section \<open>Defaults\<close>

definition default_ready_timeout_secs :: nat where
  "default_ready_timeout_secs = 30"

definition default_restart_policy :: restart_policy where
  "default_restart_policy = Never"

definition default_required_dirs :: "path list" where
  "default_required_dirs =
     map path_of [''/run'', ''/tmp'', ''/var/lib/nodeos'', ''/var/log'']"

definition default_services :: "service list" where
  "default_services =
     [\<lparr>sv_name = ''noded'',
       sv_command = path_of ''/usr/bin/noded'',
       sv_args = [''/etc/nodeos/noded.yaml''],
       sv_restart = Always,
       sv_ready_when = None,
       sv_ready_timeout = default_ready_timeout_secs,
       sv_start_when = None\<rparr>]"

text \<open>The table as the file has it: a field with a default may be absent.\<close>

record raw_mount =
  rm_source :: string
  rm_target :: string
  rm_fstype :: string
  rm_flags :: "string list option"
  rm_data :: "string option"

record raw_disk =
  rd_device :: string
  rd_target :: string
  rd_fstype :: string
  rd_flags :: "string list option"
  rd_format_if_empty :: "bool option"
  rd_mkfs :: "string list option"
  rd_encrypt :: "luks option"

record raw_service =
  rs_name :: string
  rs_command :: string
  rs_args :: "string list option"
  rs_restart :: "restart_policy option"
  rs_ready_when :: "string option"
  rs_ready_timeout :: "nat option"
  rs_start_when :: "string option"

record raw_config =
  rc_required_dirs :: "string list option"
  rc_mounts :: "raw_mount list option"
  rc_disks :: "raw_disk list option"
  rc_interfaces :: "string list option"
  rc_services :: "raw_service list option"

definition mount_of_raw :: "raw_mount \<Rightarrow> mount_cfg" where
  "mount_of_raw r =
     \<lparr>mt_source = rm_source r, mt_target = path_of (rm_target r), mt_fstype = rm_fstype r,
      mt_flags = or_default [] (rm_flags r), mt_data = rm_data r\<rparr>"

definition disk_of_raw :: "raw_disk \<Rightarrow> disk" where
  "disk_of_raw r =
     \<lparr>dk_device = rd_device r, dk_target = path_of (rd_target r), dk_fstype = rd_fstype r,
      dk_flags = or_default [] (rd_flags r),
      dk_format_if_empty = or_default False (rd_format_if_empty r),
      dk_mkfs = or_default [] (rd_mkfs r), dk_encrypt = rd_encrypt r\<rparr>"

definition service_of_raw :: "raw_service \<Rightarrow> service" where
  "service_of_raw r =
     \<lparr>sv_name = rs_name r, sv_command = path_of (rs_command r),
      sv_args = or_default [] (rs_args r),
      sv_restart = or_default default_restart_policy (rs_restart r),
      sv_ready_when = map_option path_of (rs_ready_when r),
      sv_ready_timeout = or_default default_ready_timeout_secs (rs_ready_timeout r),
      sv_start_when = map_option path_of (rs_start_when r)\<rparr>"

definition config_of_raw :: "raw_config \<Rightarrow> initd_config" where
  "config_of_raw r =
     \<lparr>ic_required_dirs = or_default default_required_dirs (map_option (map path_of) (rc_required_dirs r)),
      ic_mounts = map mount_of_raw (or_default [] (rc_mounts r)),
      ic_disks = map disk_of_raw (or_default [] (rc_disks r)),
      ic_interfaces = or_default [] (rc_interfaces r),
      ic_services = or_default default_services (map_option (map service_of_raw) (rc_services r))\<rparr>"

section \<open>Loading\<close>

type_synonym toml = "string \<Rightarrow> err + raw_config"

definition load_initd_config :: "toml \<Rightarrow> env \<Rightarrow> path \<Rightarrow> initd_config cmd" where
  "load_initd_config toml E p =
     io_bind (io_ctx (''read config '' @ show_comps p) (read_to_string E p))
       (\<lambda>data. io_ctx ''parse initd config''
          (io_lift (case toml data of Inl e \<Rightarrow> Inl e | Inr r \<Rightarrow> Inr (config_of_raw r))))"

lemma load_initd_config_Inr:
  "load_initd_config toml E p w = (Inr c, w') \<Longrightarrow>
     \<exists>data r. content (w_fs w) p = Some data \<and> toml data = Inr r \<and> c = config_of_raw r"
  by (auto simp: load_initd_config_def read_to_string_def prim_Inr fs_read_str_def fs_read_def content_def
      elim!: io_bind_InrE split: sum.splits entry.splits if_splits)

lemma emits_load [emits_rules]: "(\<And>r. Q (ReadFile p, r)) \<Longrightarrow> emits Q (load_initd_config toml E p)"
  unfolding load_initd_config_def read_to_string_def by (intro emits_rules) simp_all

end
