(* ===== verification/Initd_Mounts.thy ===== *)
theory Initd_Mounts
  imports Initd_Config
begin

text \<open>
  Directories and mounts of \<open>initd\<close>: \<open>create_required_dirs\<close>, \<open>mount_flags\<close>, \<open>mount_fs\<close>,
  \<open>apply_mounts\<close> and \<open>remount_root_readonly\<close> (crates/initd/src/main.rs). Flags are the
  64-bit \<open>c_ulong\<close> of \<open>mount(2)\<close> on Linux.
\<close>

unbundle bit_operations_syntax

section \<open>Flags\<close>

type_synonym mflags = "64 word"

definition MS_RDONLY :: mflags where "MS_RDONLY = 1"
definition MS_NOSUID :: mflags where "MS_NOSUID = 2"
definition MS_NODEV :: mflags where "MS_NODEV = 4"
definition MS_NOEXEC :: mflags where "MS_NOEXEC = 8"
definition MS_REMOUNT :: mflags where "MS_REMOUNT = 32"
definition MS_RELATIME :: mflags where "MS_RELATIME = 2097152"

lemmas ms_defs = MS_RDONLY_def MS_NOSUID_def MS_NODEV_def MS_NOEXEC_def MS_REMOUNT_def MS_RELATIME_def

text \<open>The arms of the \<open>match\<close> in \<open>mount_flags\<close>.\<close>

definition flag_table :: "(string \<times> mflags) list" where
  "flag_table =
     [(''noexec'', MS_NOEXEC), (''nodev'', MS_NODEV), (''nosuid'', MS_NOSUID),
      (''readonly'', MS_RDONLY), (''ro'', MS_RDONLY), (''relatime'', MS_RELATIME)]"

definition flag_value :: "string \<Rightarrow> mflags option" where
  "flag_value f = map_of flag_table f"

fun mount_flags_from :: "mflags \<Rightarrow> string list \<Rightarrow> err + mflags" where
  "mount_flags_from value [] = Inr value"
| "mount_flags_from value (f # fs) =
     (case flag_value f of
        Some b \<Rightarrow> mount_flags_from (value OR b) fs
      | None \<Rightarrow> Inl (Msg (''unknown mount flag '' @ f)))"

definition mount_flags :: "string list \<Rightarrow> err + mflags" where
  "mount_flags fs = mount_flags_from 0 fs"

lemma mount_flags_from_Inr:
  "mount_flags_from v fs = Inr w \<longleftrightarrow>
     (\<forall>f \<in> set fs. flag_value f \<noteq> None) \<and> w = foldl (OR) v (map (the \<circ> flag_value) fs)"
  by (induction fs arbitrary: v) (auto split: option.splits)

lemma bit_foldl_or:
  "bit (foldl (OR) (v :: mflags) ws) n \<longleftrightarrow> bit v n \<or> (\<exists>w \<in> set ws. bit w n)"
  by (induction ws arbitrary: v) (auto simp: bit_or_iff)

lemma mount_flags_from_Inl:
  "mount_flags_from v fs = Inl e \<Longrightarrow>
     \<exists>xs f ys. fs = xs @ f # ys \<and> flag_value f = None \<and> (\<forall>x \<in> set xs. flag_value x \<noteq> None) \<and>
       e = Msg (''unknown mount flag '' @ f)"
proof (induction fs arbitrary: v)
  case Nil
  then show ?case by simp
next
  case (Cons f fs)
  show ?case
  proof (cases "flag_value f")
    case None
    with Cons.prems show ?thesis by (intro exI [of _ "[]"] exI [of _ f] exI [of _ fs]) simp
  next
    case (Some b)
    with Cons.prems have "mount_flags_from (v OR b) fs = Inl e" by simp
    from Cons.IH [OF this] obtain xs g ys where "fs = xs @ g # ys" "flag_value g = None"
      "\<forall>x \<in> set xs. flag_value x \<noteq> None" "e = Msg (''unknown mount flag '' @ g)" by blast
    with Some show ?thesis by (intro exI [of _ "f # xs"] exI [of _ g] exI [of _ ys]) simp
  qed
qed

text \<open>Which single bit a name stands for.\<close>

lemma ms_push_bit:
  "MS_RDONLY = push_bit 0 1" "MS_NOSUID = push_bit 1 1" "MS_NODEV = push_bit 2 1"
  "MS_NOEXEC = push_bit 3 1" "MS_REMOUNT = push_bit 5 1" "MS_RELATIME = push_bit 21 1"
  by (simp_all add: ms_defs push_bit_eq_mult)

lemma bit_one_flag: "k < 64 \<Longrightarrow> bit (push_bit k (1 :: mflags)) n \<longleftrightarrow> n = k"
  by (auto simp: bit_exp_iff)

lemma ms_bits:
  "bit MS_RDONLY n \<longleftrightarrow> n = 0" "bit MS_NOSUID n \<longleftrightarrow> n = 1" "bit MS_NODEV n \<longleftrightarrow> n = 2"
  "bit MS_NOEXEC n \<longleftrightarrow> n = 3" "bit MS_REMOUNT n \<longleftrightarrow> n = 5" "bit MS_RELATIME n \<longleftrightarrow> n = 21"
  unfolding ms_push_bit by (rule bit_one_flag, simp)+

lemma flag_value_cases:
  assumes "flag_value f = Some v"
  obtains "f = ''noexec''" "v = MS_NOEXEC" | "f = ''nodev''" "v = MS_NODEV"
    | "f = ''nosuid''" "v = MS_NOSUID" | "f = ''readonly''" "v = MS_RDONLY"
    | "f = ''ro''" "v = MS_RDONLY" | "f = ''relatime''" "v = MS_RELATIME"
proof -
  have "(f, v) \<in> set flag_table" using assms unfolding flag_value_def by (rule map_of_SomeD)
  then show thesis unfolding flag_table_def list.set insert_iff empty_iff prod.inject
    by (elim disjE conjE FalseE) (rule that, assumption, assumption)+
qed

lemma flag_value_bit:
  assumes "flag_value f = Some v"
  shows "bit v n \<longleftrightarrow>
     (n = 0 \<and> (f = ''readonly'' \<or> f = ''ro'')) \<or> (n = 1 \<and> f = ''nosuid'') \<or>
     (n = 2 \<and> f = ''nodev'') \<or> (n = 3 \<and> f = ''noexec'') \<or> (n = 21 \<and> f = ''relatime'')"
  by (rule flag_value_cases [OF assms]; hypsubst; unfold ms_bits; simp)

section \<open>Mounting\<close>

text \<open>\<open>CString::new\<close>: a string with a NUL byte inside is refused.\<close>

definition cstring :: "string \<Rightarrow> err + string" where
  "cstring s = (if CHR 0x00 \<in> set s then Inl (Lib ''nul byte found in provided data'') else Inr s)"

definition mount_fs :: "env \<Rightarrow> string \<Rightarrow> path \<Rightarrow> string \<Rightarrow> mflags \<Rightarrow> string option \<Rightarrow> unit cmd" where
  "mount_fs E source target fstype flags data =
     io_bind (io_lift (cstring source)) (\<lambda>src.
     io_bind (io_lift (cstring (show_comps target))) (\<lambda>_.
     io_bind (io_lift (cstring fstype)) (\<lambda>ty.
     io_bind (case data of
                None \<Rightarrow> io_ret None
              | Some d \<Rightarrow> io_bind (io_lift (cstring d)) (\<lambda>x. io_ret (Some x))) (\<lambda>dt.
     io_ctx ''mount syscall failed'' (mount_call E (Mount src target ty flags dt))))))"

definition create_required_dirs :: "env \<Rightarrow> path list \<Rightarrow> unit cmd" where
  "create_required_dirs E paths =
     io_for paths (\<lambda>p. io_ctx (''create '' @ show_comps p) (create_dir_all E p))"

definition apply_mount :: "env \<Rightarrow> mount_cfg \<Rightarrow> unit cmd" where
  "apply_mount E m =
     io_then (io_ctx (''create mount target '' @ show_comps (mt_target m)) (create_dir_all E (mt_target m)))
     (io_bind (io_lift (mount_flags (mt_flags m)))
       (\<lambda>flags.
          io_ctx (''mount '' @ show_comps (mt_target m))
            (mount_fs E (mt_source m) (mt_target m) (mt_fstype m) flags (mt_data m))))"

definition apply_mounts :: "env \<Rightarrow> mount_cfg list \<Rightarrow> unit cmd" where
  "apply_mounts E ms = io_for ms (apply_mount E)"

definition remount_root_readonly :: "env \<Rightarrow> unit cmd" where
  "remount_root_readonly E =
     io_ctx ''remount root read-only''
       (mount_fs E ''none'' [RootDir] ''none'' (MS_REMOUNT OR MS_RDONLY) None)"

text \<open>For evaluation: a program computes once its state is there.\<close>

lemmas initd_mounts_code [code] =
  mount_fs_def [THEN fun_cong] create_required_dirs_def [THEN fun_cong]
  apply_mount_def [THEN fun_cong] apply_mounts_def [THEN fun_cong]
  remount_root_readonly_def [THEN fun_cong]

section \<open>What these do to the trace\<close>

fun is_mount :: "event \<Rightarrow> bool" where
  "is_mount (Mount s t f v d, r) = True"
| "is_mount _ = False"

fun is_mkdir :: "event \<Rightarrow> bool" where
  "is_mkdir (CreateDirAll p, r) = True"
| "is_mkdir _ = False"

lemma emits_mount_fs [emits_rules]:
  "(\<And>s t r d. Q (Mount s target t flags d, r)) \<Longrightarrow> emits Q (mount_fs E src target ty flags data)"
  unfolding mount_fs_def by (intro emits_rules) (auto simp: cstring_def split: if_splits)

lemma emits_create_dir_all [emits_rules]:
  "(\<And>r. Q (CreateDirAll p, r)) \<Longrightarrow> emits Q (create_dir_all E p)"
  unfolding create_dir_all_def by (intro emits_rules) simp

lemma emits_apply_mounts:
  "emits (\<lambda>e. is_mount e \<or> is_mkdir e) (apply_mounts E ms)"
  unfolding apply_mounts_def apply_mount_def
  by (intro emits_rules) simp_all

lemma emits_required_dirs: "emits is_mkdir (create_required_dirs E ps)"
  unfolding create_required_dirs_def by (intro emits_rules) simp_all

lemma emits_remount: "emits is_mount (remount_root_readonly E)"
  unfolding remount_root_readonly_def by (intro emits_rules) simp_all

lemma mount_flags_Inr:
  assumes "mount_flags fs = Inr v"
  shows "\<forall>f \<in> set fs. flag_value f \<noteq> None" and "v = foldl (OR) 0 (map (the \<circ> flag_value) fs)"
  using assms by (simp_all add: mount_flags_def mount_flags_from_Inr)

lemma mount_flags_bit:
  assumes "mount_flags fs = Inr v"
  shows "bit v n \<longleftrightarrow> (\<exists>f \<in> set fs.
      (n = 0 \<and> (f = ''readonly'' \<or> f = ''ro'')) \<or> (n = 1 \<and> f = ''nosuid'') \<or>
      (n = 2 \<and> f = ''nodev'') \<or> (n = 3 \<and> f = ''noexec'') \<or> (n = 21 \<and> f = ''relatime''))"
proof -
  have "bit v n \<longleftrightarrow> (\<exists>f \<in> set fs. bit (the (flag_value f)) n)"
    by (simp add: mount_flags_Inr(2) [OF assms] bit_foldl_or)
  also have "\<dots> \<longleftrightarrow> (\<exists>f \<in> set fs.
      (n = 0 \<and> (f = ''readonly'' \<or> f = ''ro'')) \<or> (n = 1 \<and> f = ''nosuid'') \<or>
      (n = 2 \<and> f = ''nodev'') \<or> (n = 3 \<and> f = ''noexec'') \<or> (n = 21 \<and> f = ''relatime''))"
    using mount_flags_Inr(1) [OF assms] by (intro bex_cong refl) (auto simp: flag_value_bit)
  finally show ?thesis .
qed

section \<open>Properties\<close>

text \<open>
  \<open>mount_flags\<close> succeeds exactly when every name is known, and then bit by bit the result
  holds what was asked for and nothing else: bit 0 for \<open>ro\<close> or \<open>readonly\<close>, 1 for \<open>nosuid\<close>,
  2 for \<open>nodev\<close>, 3 for \<open>noexec\<close>, 21 for \<open>relatime\<close>. Order and repetition do not matter, and
  no configuration can ask for a remount (bit 5). The error names the first unknown flag.
\<close>

lemma mount_flags_exact:
  "(case mount_flags fs of
      Inr v \<Rightarrow>
        set fs \<subseteq> {''noexec'', ''nodev'', ''nosuid'', ''readonly'', ''ro'', ''relatime''} \<and>
        {n. bit v n} =
          (if ''ro'' \<in> set fs \<or> ''readonly'' \<in> set fs then {0} else {}) \<union>
          (if ''nosuid'' \<in> set fs then {1} else {}) \<union> (if ''nodev'' \<in> set fs then {2} else {}) \<union>
          (if ''noexec'' \<in> set fs then {3} else {}) \<union> (if ''relatime'' \<in> set fs then {21} else {})
    | Inl e \<Rightarrow>
        (\<exists>xs f ys. fs = xs @ f # ys \<and> flag_value f = None \<and> list_all (\<lambda>x. flag_value x \<noteq> None) xs \<and>
           e = Msg (''unknown mount flag '' @ f)))"
proof (cases "mount_flags fs")
  case (Inl e)
  then show ?thesis
    using mount_flags_from_Inl [of 0 fs e] by (simp add: mount_flags_def list_all_iff)
next
  case (Inr v)
  let ?bits = "(if ''ro'' \<in> set fs \<or> ''readonly'' \<in> set fs then {0} else {}) \<union>
          (if ''nosuid'' \<in> set fs then {1} else {}) \<union> (if ''nodev'' \<in> set fs then {2} else {}) \<union>
          (if ''noexec'' \<in> set fs then {3} else {}) \<union> (if ''relatime'' \<in> set fs then {21} else {}) :: nat set"
  note known = mount_flags_Inr(1) [OF Inr]
  have bits: "{n. bit v n} = ?bits"
  proof (rule set_eqI)
    fix n
    have "n \<in> ?bits \<longleftrightarrow>
        (n = 0 \<and> (''ro'' \<in> set fs \<or> ''readonly'' \<in> set fs)) \<or> (n = 1 \<and> ''nosuid'' \<in> set fs) \<or>
        (n = 2 \<and> ''nodev'' \<in> set fs) \<or> (n = 3 \<and> ''noexec'' \<in> set fs) \<or>
        (n = 21 \<and> ''relatime'' \<in> set fs)"
      by simp
    also have "\<dots> \<longleftrightarrow> bit v n" unfolding mount_flags_bit [OF Inr]
      by (simp only: bex_disj_distrib bex_simps bex_triv_one_point1 conj_disj_distribL disj_ac)
    finally show "n \<in> {n. bit v n} \<longleftrightarrow> n \<in> ?bits" by simp
  qed
  have "f \<in> {''noexec'', ''nodev'', ''nosuid'', ''readonly'', ''ro'', ''relatime''}" if f: "f \<in> set fs" for f
  proof -
    from known f obtain b where "flag_value f = Some b" by auto
    then show ?thesis by (rule flag_value_cases; hypsubst; simp)
  qed
  then have "set fs \<subseteq> {''noexec'', ''nodev'', ''nosuid'', ''readonly'', ''ro'', ''relatime''}"
    by (rule subsetI)
  with bits show ?thesis unfolding Inr sum.case by (rule conjI [rotated])
qed

end
