(* ===== verification/Initd_Tpm.thy ===== *)
theory Initd_Tpm
  imports Initd_Config
begin

text \<open>
  External tools of \<open>initd\<close> (crates/initd/src/main.rs): \<open>run_tool\<close>, the LUKS commands and the
  TPM commands that keep the disk key, with the policy session around them. What a tool does
  to the files and how it ends is the environment's; the model keeps its name, arguments and
  environment settings.
\<close>

section \<open>Running tools\<close>

definition run_tool :: "env \<Rightarrow> string \<Rightarrow> string list \<Rightarrow> (string \<times> string) list \<Rightarrow> unit cmd" where
  "run_tool E program args envs =
     io_bind (io_ctx (''run '' @ program) (run_status E program args envs))
       (\<lambda>status.
          if success status then io_ret ()
          else io_err (Msg (program @ '' failed: '' @ show_status status)))"

definition CRYPTSETUP :: string where "CRYPTSETUP = ''/usr/sbin/cryptsetup''"
definition TPM_TCTI :: string where "TPM_TCTI = ''device:/dev/tpmrm0''"
definition LUKS_KEYFILE :: string where "LUKS_KEYFILE = ''/run/nodeos-luks.key''"
definition PCR_FILE :: string where "PCR_FILE = ''/run/nodeos.pcr''"
definition SESSION_FILE :: string where "SESSION_FILE = ''/run/nodeos.session''"
definition POLICY_FILE :: string where "POLICY_FILE = ''/run/nodeos.policy''"

definition DM_NO_UDEV :: "string \<times> string" where
  "DM_NO_UDEV = (''DM_DISABLE_UDEV'', ''1'')"

definition TPM_ENV :: "string \<times> string" where
  "TPM_ENV = (''TPM2TOOLS_TCTI'', TPM_TCTI)"

section \<open>LUKS\<close>

definition is_luks :: "env \<Rightarrow> string \<Rightarrow> bool cmd" where
  "is_luks E device =
     io_bind (io_ctx (''run '' @ CRYPTSETUP @ '' isLuks'')
                (run_status E CRYPTSETUP [''isLuks'', device] [DM_NO_UDEV]))
       (\<lambda>status. io_ret (success status))"

definition luks_format :: "env \<Rightarrow> string \<Rightarrow> string \<Rightarrow> unit cmd" where
  "luks_format E device keyfile =
     run_tool E CRYPTSETUP
       [''luksFormat'', ''--type'', ''luks2'', ''--batch-mode'', ''--key-file'', keyfile, device]
       [DM_NO_UDEV]"

definition luks_open :: "env \<Rightarrow> string \<Rightarrow> string \<Rightarrow> string \<Rightarrow> unit cmd" where
  "luks_open E device name keyfile =
     run_tool E CRYPTSETUP
       [''open'', ''--type'', ''luks2'', ''--key-file'', keyfile, device, name] [DM_NO_UDEV]"

section \<open>The TPM\<close>

definition set_private_perms :: "env \<Rightarrow> string \<Rightarrow> unit cmd" where
  "set_private_perms E p = io_ctx (''chmod 600 '' @ p) (set_mode E (path_of p) 0x180)"

definition tpm_getrandom :: "env \<Rightarrow> nat \<Rightarrow> string \<Rightarrow> unit cmd" where
  "tpm_getrandom E bytes keyfile =
     io_then (run_tool E ''/usr/bin/tpm2_getrandom'' [show_nat bytes, ''-o'', keyfile] [TPM_ENV])
       (set_private_perms E keyfile)"

definition flush_session :: "env \<Rightarrow> unit cmd" where
  "flush_session E = run_tool E ''/usr/bin/tpm2_flushcontext'' [SESSION_FILE] [TPM_ENV]"

definition with_policy_session :: "env \<Rightarrow> string \<Rightarrow> (string \<Rightarrow> unit cmd) \<Rightarrow> unit cmd" where
  "with_policy_session E pcrs act =
     io_then (run_tool E ''/usr/bin/tpm2_startauthsession'' [''--policy-session'', ''-S'', SESSION_FILE] [TPM_ENV])
     (io_bind
       (io_attempt
         (io_then (run_tool E ''/usr/bin/tpm2_policypcr'' [''-S'', SESSION_FILE, ''-l'', pcrs] [TPM_ENV])
           (act (''session:'' @ SESSION_FILE))))
       (\<lambda>result. io_then (io_ignore (flush_session E)) (io_lift result)))"

definition tpm_nv_store :: "env \<Rightarrow> string \<Rightarrow> string \<Rightarrow> string option \<Rightarrow> unit cmd" where
  "tpm_nv_store E index keyfile pcrs =
     io_then (io_ignore (run_status E ''/usr/bin/tpm2_nvundefine'' [''-C'', ''o'', index] [TPM_ENV]))
     (case pcrs of
        None \<Rightarrow>
          io_then (run_tool E ''/usr/bin/tpm2_nvdefine''
                     [''-C'', ''o'', ''-s'', ''32'', ''-a'', ''ownerread|ownerwrite'', index] [TPM_ENV])
            (run_tool E ''/usr/bin/tpm2_nvwrite'' [''-C'', ''o'', ''-i'', keyfile, index] [TPM_ENV])
      | Some pcrs \<Rightarrow>
          io_then (run_tool E ''/usr/bin/tpm2_pcrread'' [pcrs, ''-o'', PCR_FILE] [TPM_ENV])
          (io_then (run_tool E ''/usr/bin/tpm2_startauthsession'' [''-S'', SESSION_FILE] [TPM_ENV])
          (io_then (run_tool E ''/usr/bin/tpm2_policypcr''
                      [''-S'', SESSION_FILE, ''-l'', pcrs, ''-f'', PCR_FILE, ''-L'', POLICY_FILE] [TPM_ENV])
          (io_then (flush_session E)
          (io_then (run_tool E ''/usr/bin/tpm2_nvdefine''
                      [''-C'', ''o'', ''-s'', ''32'', ''-a'', ''policyread|policywrite'', ''-L'', POLICY_FILE, index]
                      [TPM_ENV])
            (with_policy_session E pcrs
               (\<lambda>session. run_tool E ''/usr/bin/tpm2_nvwrite''
                  [''-P'', session, ''-i'', keyfile, index] [TPM_ENV])))))))"

definition tpm_nv_read :: "env \<Rightarrow> string \<Rightarrow> string \<Rightarrow> string option \<Rightarrow> unit cmd" where
  "tpm_nv_read E index keyfile pcrs =
     io_then
       (case pcrs of
          None \<Rightarrow> run_tool E ''/usr/bin/tpm2_nvread''
                    [''-C'', ''o'', ''-s'', ''32'', ''-o'', keyfile, index] [TPM_ENV]
        | Some pcrs \<Rightarrow>
            with_policy_session E pcrs
              (\<lambda>session. run_tool E ''/usr/bin/tpm2_nvread''
                 [''-P'', session, ''-s'', ''32'', ''-o'', keyfile, index] [TPM_ENV]))
       (set_private_perms E keyfile)"

definition log_pcrs :: "env \<Rightarrow> string option \<Rightarrow> unit cmd" where
  "log_pcrs E pcrs =
     io_ignore (run_output E ''/usr/bin/tpm2_pcrread''
       [case pcrs of None \<Rightarrow> ''sha256:4,7'' | Some p \<Rightarrow> p] [TPM_ENV])"

text \<open>For evaluation: a program computes once its state is there.\<close>

lemmas initd_tpm_code [code] =
  run_tool_def [THEN fun_cong] is_luks_def [THEN fun_cong] luks_format_def [THEN fun_cong]
  luks_open_def [THEN fun_cong] set_private_perms_def [THEN fun_cong]
  tpm_getrandom_def [THEN fun_cong] flush_session_def [THEN fun_cong]
  with_policy_session_def [THEN fun_cong] tpm_nv_store_def [THEN fun_cong]
  tpm_nv_read_def [THEN fun_cong] log_pcrs_def [THEN fun_cong]

section \<open>Facts on tools\<close>

text \<open>A tool run is one event; it succeeds exactly if the tool exits with 0.\<close>

lemma run_status_run:
  "\<exists>r s. run_status E p a v w =
     (case r of Failed e \<Rightarrow> Inl (Io e) | Exited st \<Rightarrow> Inr st | _ \<Rightarrow> undefined,
      log (Status p a v) r (case r of Exited _ \<Rightarrow> put_fs s w | _ \<Rightarrow> w)) \<and>
     ((\<exists>e. r = Failed e) \<or> (\<exists>st. r = Exited st))"
proof (cases "env_fault E (w_trace w) (Status p a v)")
  case None
  obtain st s where "env_run E (w_trace w) (Status p a v) (w_fs w) = (st, s)"
    by (cases "env_run E (w_trace w) (Status p a v) (w_fs w)")
  with None show ?thesis
    by (intro exI [of _ "Exited st"] exI [of _ s]) (simp add: run_status_def Let_def)
next
  case (Some e)
  then show ?thesis
    by (intro exI [of _ "Failed e"] exI [of _ "w_fs w"]) (simp add: run_status_def Let_def)
qed

definition tool_ok :: "string \<Rightarrow> string list \<Rightarrow> (string \<times> string) list \<Rightarrow> event" where
  "tool_ok p a v = (Status p a v, Exited (ExitCode 0))"

lemma run_tool_trace:
  assumes "run_tool E p a v w = (r, w')"
  shows "\<exists>reply. w_trace w' = w_trace w @ [(Status p a v, reply)] \<and>
    (case r of Inr _ \<Rightarrow> reply = Exited (ExitCode 0) | Inl _ \<Rightarrow> reply \<noteq> Exited (ExitCode 0))"
  using run_status_run [of E p a v w] assms
  by (auto simp: run_tool_def io_bind_def io_ctx_def success_def split: if_splits)

lemma triple_run_tool:
  assumes "\<And>w w'. P w \<Longrightarrow> w_trace w' = w_trace w @ [tool_ok p a v] \<Longrightarrow> Q () w'"
    and "\<And>e w w' reply. P w \<Longrightarrow> reply \<noteq> Exited (ExitCode 0) \<Longrightarrow>
      w_trace w' = w_trace w @ [(Status p a v, reply)] \<Longrightarrow> R e w'"
  shows "triple P (run_tool E p a v) Q R"
proof (rule tripleI)
  fix w x w'
  assume P: "P w" and r: "run_tool E p a v w = (Inr x, w')"
  from run_tool_trace [OF r] have "w_trace w' = w_trace w @ [tool_ok p a v]" by (simp add: tool_ok_def)
  with assms(1) P show "Q x w'" by simp
next
  fix w e w'
  assume P: "P w" and r: "run_tool E p a v w = (Inl e, w')"
  from run_tool_trace [OF r] obtain reply where "w_trace w' = w_trace w @ [(Status p a v, reply)]"
    "reply \<noteq> Exited (ExitCode 0)" by auto
  with assms(2) P show "R e w'" by blast
qed

lemma traces_run_tool:
  assumes "Q (Inr ()) [tool_ok p a v]"
    and "\<And>e reply. reply \<noteq> Exited (ExitCode 0) \<Longrightarrow> Q (Inl e) [(Status p a v, reply)]"
  shows "traces Q (run_tool E p a v)"
proof (rule tracesI)
  fix w r w'
  assume "run_tool E p a v w = (r, w')"
  from run_tool_trace [OF this] assms show "\<exists>es. w_trace w' = w_trace w @ es \<and> Q r es"
    by (cases r) (auto simp: tool_ok_def)
qed

lemma emits_run_tool [emits_rules]:
  "(\<And>r. Q (Status p a v, r)) \<Longrightarrow> emits Q (run_tool E p a v)"
  unfolding run_tool_def by (intro emits_rules) simp_all

lemma emits_set_private [emits_rules]:
  "(\<And>r. Q (SetMode (path_of p) 0x180, r)) \<Longrightarrow> emits Q (set_private_perms E p)"
  unfolding set_private_perms_def set_mode_def by (intro emits_rules) simp

lemma emits_flush [emits_rules]:
  "(\<And>r. Q (Status ''/usr/bin/tpm2_flushcontext'' [SESSION_FILE] [TPM_ENV], r)) \<Longrightarrow> emits Q (flush_session E)"
  unfolding flush_session_def by (intro emits_rules) simp

text \<open>The events of the TPM commands: tools run with the TPM's environment, and a \<open>chmod\<close>.\<close>

fun tpm_event :: "event \<Rightarrow> bool" where
  "tpm_event (Status p a v, r) = (v = [TPM_ENV] \<and> p \<noteq> CRYPTSETUP)"
| "tpm_event (Output p a v, r) = (v = [TPM_ENV])"
| "tpm_event (SetMode p m, r) = True"
| "tpm_event _ = False"

lemma emits_with_policy_session [emits_rules]:
  "(\<And>e. tpm_event e \<Longrightarrow> Q e) \<Longrightarrow> (\<And>s. emits Q (act s)) \<Longrightarrow> emits Q (with_policy_session E pcrs act)"
  unfolding with_policy_session_def by (intro emits_rules) (simp_all add: CRYPTSETUP_def)

lemma emits_tpm:
  "emits tpm_event (tpm_getrandom E n k)" "emits tpm_event (tpm_nv_store E i k q)"
  "emits tpm_event (tpm_nv_read E i k q)" "emits tpm_event (log_pcrs E q)"
  unfolding tpm_getrandom_def tpm_nv_store_def tpm_nv_read_def log_pcrs_def
  by (intro emits_rules; simp add: CRYPTSETUP_def)+

text \<open>A successful \<open>tpm_nv_store\<close> has written the key into the index.\<close>

fun seals :: "string \<Rightarrow> string \<Rightarrow> event \<Rightarrow> bool" where
  "seals index keyfile (Status p a v, r) \<longleftrightarrow>
     p = ''/usr/bin/tpm2_nvwrite'' \<and>
     (a = [''-C'', ''o'', ''-i'', keyfile, index] \<or>
      a = [''-P'', ''session:'' @ SESSION_FILE, ''-i'', keyfile, index]) \<and> r = Exited (ExitCode 0)"
| "seals index keyfile _ \<longleftrightarrow> False"

abbreviation ok_has :: "(event \<Rightarrow> bool) \<Rightarrow> err + 'a \<Rightarrow> event list \<Rightarrow> bool" where
  "ok_has A r es \<equiv> isl r \<or> list_ex A es"

lemma ok_has_then:
  assumes "emits (\<lambda>_. True) m" and "traces (ok_has A) n"
  shows "traces (ok_has A) (io_then m n)"
  using assms(1) unfolding emits_traces
  by (rule traces_then [OF _ assms(2)]) auto

lemma ok_has_first:
  assumes "traces (ok_has A) m" and "\<And>x. emits (\<lambda>_. True) (f x)"
  shows "traces (ok_has A) (io_bind m f)"
  using assms(2) unfolding emits_traces
  by (rule traces_bind [OF assms(1)]) auto

lemma ok_has_session:
  assumes "\<And>s. s = ''session:'' @ SESSION_FILE \<Longrightarrow> traces (ok_has A) (act s)"
  shows "traces (ok_has A) (with_policy_session E pcrs act)"
  unfolding with_policy_session_def
proof (rule ok_has_then)
  let ?body = "io_then (run_tool E ''/usr/bin/tpm2_policypcr'' [''-S'', SESSION_FILE, ''-l'', pcrs] [TPM_ENV])
                     (act (''session:'' @ SESSION_FILE))"
  have "traces (ok_has A) ?body"
    by (rule ok_has_then [OF _ assms]) (intro emits_rules, simp_all)
  then have "traces (\<lambda>r es. \<not> isl r \<and> ok_has A (projr r) es) (io_attempt ?body)"
    by (intro traces_attempt) simp
  moreover have "traces (\<lambda>r es. isl q \<longrightarrow> isl r) (io_then (io_ignore (flush_session E)) (io_lift q))"
    for q :: "err + unit"
    by (rule traces_then [of "\<lambda>_ _. True" _ "\<lambda>r _. isl q \<longrightarrow> isl r"])
      (auto intro!: traces_ignore traces_lift traces_run_tool simp: flush_session_def)
  ultimately show "traces (ok_has A) (io_bind (io_attempt ?body)
      (\<lambda>r. io_then (io_ignore (flush_session E)) (io_lift r)))"
    by (rule traces_bind) auto
qed (intro emits_rules, simp)

lemma nv_store_seals: "traces (ok_has (seals index keyfile)) (tpm_nv_store E index keyfile pcrs)"
proof -
  have w: "traces (ok_has (seals index keyfile)) (run_tool E ''/usr/bin/tpm2_nvwrite'' a [TPM_ENV])"
    if "a = [''-C'', ''o'', ''-i'', keyfile, index] \<or> a = [''-P'', ''session:'' @ SESSION_FILE, ''-i'', keyfile, index]"
    for a
    by (rule traces_run_tool) (use that in \<open>simp_all add: tool_ok_def\<close>)
  show ?thesis
    unfolding tpm_nv_store_def
    by (cases pcrs; simp only: option.case)
      ((rule ok_has_then, (intro emits_rules; simp))+,
       (rule w | (rule ok_has_session, rule w)), simp)+
qed

section \<open>Properties\<close>

text \<open>
  C18. A TPM policy session never leaks: once \<open>tpm2_startauthsession\<close> has succeeded, the last
  thing \<open>with_policy_session\<close> does is to flush the session, whatever the policy command or the
  action did, and its result is theirs and never the flush's. If the start fails, nothing else
  runs.
\<close>

theorem policy_session_flushed:
  assumes "\<And>s. emits (\<lambda>_. True) (act s)" and "with_policy_session E pcrs act w = (r, w')"
  shows "(\<exists>es reply. w_trace w' = w_trace w @
            tool_ok ''/usr/bin/tpm2_startauthsession'' [''--policy-session'', ''-S'', SESSION_FILE] [TPM_ENV] #
            es @ [(Status ''/usr/bin/tpm2_flushcontext'' [SESSION_FILE] [TPM_ENV], reply)] \<and>
            (\<exists>wa. fst (io_then (run_tool E ''/usr/bin/tpm2_policypcr'' [''-S'', SESSION_FILE, ''-l'', pcrs] [TPM_ENV])
                     (act (''session:'' @ SESSION_FILE)) wa) = r)) \<or>
         (\<exists>reply. w_trace w' = w_trace w @
            [(Status ''/usr/bin/tpm2_startauthsession'' [''--policy-session'', ''-S'', SESSION_FILE] [TPM_ENV], reply)] \<and>
            reply \<noteq> Exited (ExitCode 0) \<and> isl r)"
proof -
  let ?start = "run_tool E ''/usr/bin/tpm2_startauthsession'' [''--policy-session'', ''-S'', SESSION_FILE] [TPM_ENV]"
  let ?body = "io_then (run_tool E ''/usr/bin/tpm2_policypcr'' [''-S'', SESSION_FILE, ''-l'', pcrs] [TPM_ENV])
                     (act (''session:'' @ SESSION_FILE))"
  obtain r0 w0 where s: "?start w = (r0, w0)" by (cases "?start w")
  show ?thesis
  proof (cases r0)
    case (Inl e)
    with s assms(2) have "r = Inl e" "w' = w0"
      by (simp_all add: with_policy_session_def io_then_def io_bind_def)
    with run_tool_trace [OF s] Inl show ?thesis by auto
  next
    case (Inr u)
    have "emits (\<lambda>_. True) ?body" by (intro emits_rules assms(1)) simp
    then obtain es where es: "w_trace (snd (?body w0)) = w_trace w0 @ es"
      by (meson emits_def)
    have "io_ignore (flush_session E) (snd (?body w0)) = (Inr (), w')" "r = fst (?body w0)"
      using s assms(2) Inr
      by (simp_all add: with_policy_session_def io_then_def io_bind_def io_attempt_run io_ignore_run
          split: prod.splits)
    then obtain q where "flush_session E (snd (?body w0)) = (q, w')"
      by (auto simp: io_ignore_def split: prod.splits)
    then have "\<exists>reply. w_trace w' = w_trace (snd (?body w0)) @
        [(Status ''/usr/bin/tpm2_flushcontext'' [SESSION_FILE] [TPM_ENV], reply)]"
      using run_tool_trace unfolding flush_session_def by blast
    with run_tool_trace [OF s] Inr es \<open>r = fst (?body w0)\<close> show ?thesis
      by (intro disjI1) (auto simp: tool_ok_def)
  qed
qed

theorem policy_session_flushed_witness:
  "(let w' = snd (with_policy_session calm ''sha256:7'' (\<lambda>s. run_tool calm ''/x'' [s] []) (world_of empty_fs))
    in fst (last (w_trace w')) = Status ''/usr/bin/tpm2_flushcontext'' [SESSION_FILE] [TPM_ENV])"
proof -
  let ?m = "with_policy_session calm ''sha256:7'' (\<lambda>s. run_tool calm ''/x'' [s] [])"
  let ?r = "?m (world_of empty_fs)"
  have em: "\<And>s. emits (\<lambda>_. True) (run_tool calm ''/x'' [s] [])" by (intro emits_rules) simp
  have run: "?r = (fst ?r, snd ?r)" and ok: "\<not> isl (fst ?r)"
    by simp code_simp
  from policy_session_flushed [OF em run] ok show ?thesis
    by (auto simp: Let_def)
qed

end
