(* ===== verification/Initd_Disks.thy ===== *)
theory Initd_Disks
  imports Initd_Mounts Initd_Tpm
begin

text \<open>
  Persistent disks of \<open>initd\<close> (crates/initd/src/main.rs): \<open>is_formatted\<close>, \<open>format_disk\<close>,
  \<open>format_target\<close>, \<open>ensure_dm_control\<close>, \<open>open_encrypted\<close> and \<open>apply_disks\<close>, and what they
  guarantee about data already on a disk, the disk key and its copy in a file.
\<close>

section \<open>Plain disks\<close>

definition is_formatted :: "env \<Rightarrow> string \<Rightarrow> bool cmd" where
  "is_formatted E device =
     io_bind (io_attempt (open_read E (path_of device))) (\<lambda>opened.
       case opened of
         Inl err \<Rightarrow>
           if err = Io NotFound then io_ret False else io_err (Ctx (''open '' @ device) err)
       | Inr file \<Rightarrow>
           io_bind (io_attempt (seek_to E (path_of device) 1080)) (\<lambda>sought.
             case sought of
               Inl _ \<Rightarrow> io_ret False
             | Inr _ \<Rightarrow>
                 io_bind (io_attempt (read_exact E (path_of device) file 1080 2)) (\<lambda>got.
                   case got of
                     Inr magic \<Rightarrow> io_ret (magic = [CHR 0x53, CHR 0xEF])
                   | Inl err \<Rightarrow>
                       if err = Io UnexpectedEof then io_ret False
                       else io_err (Ctx (''read superblock of '' @ device) err))))"

text \<open>\<open>mkfs\<close> with its arguments, then the device; the two callers differ in their messages.\<close>

definition run_mkfs :: "env \<Rightarrow> string \<Rightarrow> string list \<Rightarrow> string \<Rightarrow> unit cmd" where
  "run_mkfs E command args target =
     io_bind (io_ctx (''run '' @ command @ '' on '' @ target) (run_status E command (args @ [target]) []))
       (\<lambda>status.
          if success status then io_ret ()
          else io_err (Msg (''mkfs failed for '' @ target @ '': '' @ show_status status)))"

definition format_disk :: "env \<Rightarrow> disk \<Rightarrow> unit cmd" where
  "format_disk E d =
     (case dk_mkfs d of
        [] \<Rightarrow> io_err (Msg (''disk '' @ dk_device d @ '' is formatIfEmpty but has no mkfs command''))
      | command # args \<Rightarrow> run_mkfs E command args (dk_device d))"

definition format_target :: "env \<Rightarrow> disk \<Rightarrow> string \<Rightarrow> unit cmd" where
  "format_target E d target =
     (case dk_mkfs d of
        [] \<Rightarrow> io_err (Msg (''encrypted disk '' @ dk_device d @ '' requires an mkfs command''))
      | command # args \<Rightarrow> run_mkfs E command args target)"

section \<open>Encrypted disks\<close>

definition DM_CONTROL :: string where "DM_CONTROL = ''/dev/mapper/control''"

definition mknod_char :: "env \<Rightarrow> string \<Rightarrow> nat \<Rightarrow> nat \<Rightarrow> unit cmd" where
  "mknod_char E p major minor =
     io_bind (io_lift (cstring p)) (\<lambda>cpath.
       io_ctx ''mknod'' (mknod E (path_of cpath) 0x2180 major minor))"

text \<open>The minor number of the device mapper in the text of \<open>/proc/misc\<close>.\<close>

definition dm_minor :: "string \<Rightarrow> nat option" where
  "dm_minor misc =
     (case filter (\<lambda>line. ends_with ''device-mapper'' (trim_end line)) (str_lines misc) of
        [] \<Rightarrow> None
      | line # _ \<Rightarrow> (case first_word line of None \<Rightarrow> None | Some m \<Rightarrow> parse_unsigned (2 ^ 32 - 1) m))"

definition ensure_dm_control :: "env \<Rightarrow> unit cmd" where
  "ensure_dm_control E =
     io_bind (path_exists E (path_of DM_CONTROL)) (\<lambda>there.
       if there then io_ret ()
       else io_bind (io_ctx ''read /proc/misc'' (read_to_string E (path_of ''/proc/misc''))) (\<lambda>misc.
         case dm_minor misc of
           None \<Rightarrow> io_err (Msg ''device-mapper not found in /proc/misc'')
         | Some minor \<Rightarrow>
             io_then (io_ctx ''create /dev/mapper'' (create_dir_all E (path_of ''/dev/mapper'')))
               (mknod_char E DM_CONTROL 10 minor)))"

definition drop_keyfile :: "env \<Rightarrow> unit cmd" where
  "drop_keyfile E = io_ignore (remove_file E (path_of LUKS_KEYFILE))"

text \<open>The branch of \<open>open_encrypted\<close> for a volume that exists.\<close>

definition unlock_volume :: "env \<Rightarrow> disk \<Rightarrow> luks \<Rightarrow> unit cmd" where
  "unlock_volume E d l =
     io_then (tpm_nv_read E (lk_nv_index l) LUKS_KEYFILE (lk_pcrs l))
     (io_bind (io_attempt (luks_open E (dk_device d) (lk_name l) LUKS_KEYFILE))
       (\<lambda>result. io_then (drop_keyfile E) (io_lift result)))"

text \<open>The closure of the branch for the first boot, and the branch.\<close>

definition provision_steps :: "env \<Rightarrow> disk \<Rightarrow> luks \<Rightarrow> string \<Rightarrow> unit cmd" where
  "provision_steps E d l mapper =
     io_then (tpm_getrandom E 32 LUKS_KEYFILE)
     (io_then (luks_format E (dk_device d) LUKS_KEYFILE)
     (io_then (luks_open E (dk_device d) (lk_name l) LUKS_KEYFILE)
     (io_then (tpm_nv_store E (lk_nv_index l) LUKS_KEYFILE (lk_pcrs l))
     (format_target E d mapper))))"

definition provision_volume :: "env \<Rightarrow> disk \<Rightarrow> luks \<Rightarrow> string \<Rightarrow> unit cmd" where
  "provision_volume E d l mapper =
     io_bind (io_attempt (provision_steps E d l mapper))
       (\<lambda>result. io_then (drop_keyfile E) (io_lift result))"

definition open_encrypted :: "env \<Rightarrow> disk \<Rightarrow> luks \<Rightarrow> string cmd" where
  "open_encrypted E d l =
     (let mapper = ''/dev/mapper/'' @ lk_name l in
      io_then (ensure_dm_control E)
      (io_then (log_pcrs E (lk_pcrs l))
      (io_bind (is_luks E (dk_device d)) (\<lambda>luks.
        io_then
          (if luks then unlock_volume E d l
           else if dk_format_if_empty d then provision_volume E d l mapper
           else io_err (Msg (dk_device d @ '' is not a LUKS volume and formatIfEmpty is false'')))
          (io_ret mapper)))))"

section \<open>All disks\<close>

definition disk_source :: "env \<Rightarrow> disk \<Rightarrow> string cmd" where
  "disk_source E d =
     (case dk_encrypt d of
        Some l \<Rightarrow> open_encrypted E d l
      | None \<Rightarrow>
          io_then
            (if dk_format_if_empty d
             then io_bind (is_formatted E (dk_device d))
                    (\<lambda>formatted. if \<not> formatted then format_disk E d else io_ret ())
             else io_ret ())
            (io_ret (dk_device d)))"

definition apply_disk :: "env \<Rightarrow> disk \<Rightarrow> unit cmd" where
  "apply_disk E d =
     io_bind (disk_source E d) (\<lambda>source.
     io_then (io_ctx (''create mount target '' @ show_comps (dk_target d)) (create_dir_all E (dk_target d)))
     (io_bind (io_lift (mount_flags (dk_flags d))) (\<lambda>flags.
        io_ctx (''mount '' @ source @ '' at '' @ show_comps (dk_target d))
          (mount_fs E source (dk_target d) (dk_fstype d) flags None))))"

definition apply_disks :: "env \<Rightarrow> disk list \<Rightarrow> unit cmd" where
  "apply_disks E ds = io_for ds (apply_disk E)"

text \<open>For evaluation: a program computes once its state is there.\<close>

lemmas initd_disks_code [code] =
  is_formatted_def [THEN fun_cong] run_mkfs_def [THEN fun_cong] format_disk_def [THEN fun_cong]
  format_target_def [THEN fun_cong] mknod_char_def [THEN fun_cong]
  ensure_dm_control_def [THEN fun_cong] drop_keyfile_def [THEN fun_cong]
  unlock_volume_def [THEN fun_cong] provision_steps_def [THEN fun_cong]
  provision_volume_def [THEN fun_cong] open_encrypted_def [THEN fun_cong]
  disk_source_def [THEN fun_cong] apply_disk_def [THEN fun_cong]
  apply_disks_def [THEN fun_cong]

end
