(* ===== verification/Disk_Safety.thy ===== *)
theory Disk_Safety
  imports Initd_Disks
begin

text \<open>
  What \<open>initd\<close> guarantees about disks: which runs may format one, that the disk key is in the
  TPM before the volume gets a file system, and what becomes of the key's copy in a file.
\<close>

section \<open>Events that destroy or keep data\<close>

text \<open>
  Of all commands \<open>initd\<close> waits for, only \<open>mkfs\<close> runs without environment settings.
  \<open>formats\<close> are the events that overwrite a disk.
\<close>

fun is_mkfs :: "event \<Rightarrow> bool" where
  "is_mkfs (Status p a v, r) \<longleftrightarrow> v = []"
| "is_mkfs _ \<longleftrightarrow> False"

fun formats :: "event \<Rightarrow> bool" where
  "formats (Status p a v, r) \<longleftrightarrow> v = [] \<or> (p = CRYPTSETUP \<and> take 1 a = [''luksFormat''])"
| "formats _ \<longleftrightarrow> False"

text \<open>\<open>cryptsetup isLuks\<close> answered that the device is no LUKS volume.\<close>

fun not_luks :: "string \<Rightarrow> event \<Rightarrow> bool" where
  "not_luks dev (Status p a v, Exited st) \<longleftrightarrow>
     p = CRYPTSETUP \<and> a = [''isLuks'', dev] \<and> v = [DM_NO_UDEV] \<and> \<not> success st"
| "not_luks dev _ \<longleftrightarrow> False"

abbreviation harmless :: "event \<Rightarrow> bool" where
  "harmless e \<equiv> \<not> formats e"

lemma formats_mkfs: "is_mkfs e \<Longrightarrow> formats e"
  by (cases e rule: is_mkfs.cases) auto

lemma tpm_event_harmless: "tpm_event e \<Longrightarrow> harmless e"
  by (cases e rule: tpm_event.cases) (auto simp: TPM_ENV_def)

lemma tpm_event_no_mkfs: "tpm_event e \<Longrightarrow> \<not> is_mkfs e"
  using tpm_event_harmless formats_mkfs by blast

lemma emits_read_to_string [emits_rules]: "(\<And>r. Q (ReadFile p, r)) \<Longrightarrow> emits Q (read_to_string E p)"
  unfolding read_to_string_def by (intro emits_rules) simp

lemma emits_remove_file [emits_rules]: "(\<And>r. Q (RemoveFile p, r)) \<Longrightarrow> emits Q (remove_file E p)"
  unfolding remove_file_def by (intro emits_rules) simp

lemma emits_drop_keyfile: "emits harmless (drop_keyfile E)"
  unfolding drop_keyfile_def by (intro emits_rules) simp

lemma emits_dm_control: "emits harmless (ensure_dm_control E)"
  unfolding ensure_dm_control_def mknod_char_def mknod_def
  by (intro emits_rules) simp_all

lemma emits_luks_open: "emits harmless (luks_open E dev n k)"
  unfolding luks_open_def by (intro emits_rules) (simp add: DM_NO_UDEV_def)

lemmas harmless_tpm = emits_tpm [THEN emits_weaken, OF tpm_event_harmless]

lemmas no_mkfs_tpm = emits_tpm [THEN emits_weaken, OF tpm_event_no_mkfs]

lemma emits_unlock: "emits harmless (unlock_volume E d l)"
  unfolding unlock_volume_def by (intro emits_rules emits_drop_keyfile emits_luks_open harmless_tpm)

section \<open>Provisioning\<close>

lemma traces_mkfs:
  assumes "\<And>r es. list_all is_mkfs es \<Longrightarrow> Q r es"
  shows "traces Q (format_target E d t)"
proof -
  have "emits is_mkfs (format_target E d t)"
    unfolding format_target_def run_mkfs_def by (intro emits_rules) simp_all
  then show ?thesis unfolding emits_traces by (rule traces_weaken) (rule assms)
qed

text \<open>No file system before the key is in the TPM.\<close>

lemma provision_sealed:
  "traces (\<lambda>_. preceded (seals (lk_nv_index l) LUKS_KEYFILE) is_mkfs) (provision_steps E d l mapper)"
proof -
  let ?S = "seals (lk_nv_index l) LUKS_KEYFILE"
  have quiet: "traces (\<lambda>_. preceded ?S is_mkfs) (io_then m n)"
    if "emits (\<lambda>e. \<not> is_mkfs e) m" and "traces (\<lambda>_. preceded ?S is_mkfs) n"
    for m :: "unit cmd" and n :: "unit cmd"
    using that(1) unfolding emits_traces
    by (rule traces_then [OF _ that(2)]) (auto simp: preceded_append preceded_none)
  have store: "traces (\<lambda>_. preceded ?S is_mkfs)
      (io_then (tpm_nv_store E (lk_nv_index l) LUKS_KEYFILE (lk_pcrs l)) (format_target E d mapper))"
  proof (rule traces_then)
    show "traces (\<lambda>r es. ok_has ?S r es \<and> list_all (\<lambda>e. \<not> is_mkfs e) es)
        (tpm_nv_store E (lk_nv_index l) LUKS_KEYFILE (lk_pcrs l))"
      using nv_store_seals no_mkfs_tpm(2) unfolding emits_traces by (rule traces_conj)
    show "traces (\<lambda>_. list_all is_mkfs) (format_target E d mapper)" by (rule traces_mkfs)
  qed (auto simp: preceded_append preceded_none)
  have noise: "emits (\<lambda>e. \<not> is_mkfs e) (tpm_getrandom E 32 LUKS_KEYFILE)"
    "emits (\<lambda>e. \<not> is_mkfs e) (luks_format E (dk_device d) LUKS_KEYFILE)"
    "emits (\<lambda>e. \<not> is_mkfs e) (luks_open E (dk_device d) (lk_name l) LUKS_KEYFILE)"
    using no_mkfs_tpm(1) by (auto simp: luks_format_def luks_open_def intro!: emits_rules)
  show ?thesis unfolding provision_steps_def by (intro quiet noise store)
qed

lemma provision_volume_sealed:
  "traces (\<lambda>_. preceded (seals (lk_nv_index l) LUKS_KEYFILE) is_mkfs) (provision_volume E d l mapper)"
  unfolding provision_volume_def
proof (rule traces_bind)
  show "traces (\<lambda>_. preceded (seals (lk_nv_index l) LUKS_KEYFILE) is_mkfs)
      (io_attempt (provision_steps E d l mapper))"
    by (rule traces_attempt, rule traces_weaken [OF provision_sealed])
  show "traces (\<lambda>_. list_all (\<lambda>e. \<not> is_mkfs e)) (io_then (drop_keyfile E) (io_lift q))" for q :: "err + unit"
    unfolding emits_traces [symmetric] drop_keyfile_def by (intro emits_rules) simp
qed (auto simp: preceded_append preceded_none)

section \<open>Opening an encrypted disk\<close>

lemma traces_is_luks:
  "traces (\<lambda>r es. list_all harmless es \<and> (r = Inr False \<longrightarrow> list_ex (not_luks dev) es)) (is_luks E dev)"
proof (rule tracesI)
  fix w r w'
  assume "is_luks E dev w = (r, w')"
  with run_status_run [of E CRYPTSETUP "[''isLuks'', dev]" "[DM_NO_UDEV]" w]
  show "\<exists>es. w_trace w' = w_trace w @ es \<and>
      list_all harmless es \<and> (r = Inr False \<longrightarrow> list_ex (not_luks dev) es)"
    by (auto simp: is_luks_def io_bind_def io_ctx_def DM_NO_UDEV_def)
qed

definition format_guard :: "disk \<Rightarrow> luks \<Rightarrow> event list \<Rightarrow> bool" where
  "format_guard d l es \<longleftrightarrow>
     preceded (not_luks (dk_device d)) formats es \<and>
     preceded (seals (lk_nv_index l) LUKS_KEYFILE) is_mkfs es \<and>
     (dk_format_if_empty d \<or> list_all harmless es)"

lemma format_guard_quiet:
  assumes "list_all harmless xs" and "format_guard d l ys"
  shows "format_guard d l (xs @ ys)"
proof -
  have "list_all (\<lambda>e. \<not> is_mkfs e) xs"
    using assms(1) formats_mkfs by (auto simp: list_all_iff)
  with assms show ?thesis
    by (auto simp: format_guard_def preceded_append preceded_none)
qed

lemma format_guard_harmless: "list_all harmless xs \<Longrightarrow> format_guard d l xs"
  using format_guard_quiet [of xs d l "[]"] by (simp add: format_guard_def)

lemma open_encrypted_guard: "traces (\<lambda>_. format_guard d l) (open_encrypted E d l)"
proof -
  have quiet: "traces (\<lambda>_. format_guard d l) (io_then m n)"
    if "emits harmless m" and "traces (\<lambda>_. format_guard d l) n" for m :: "unit cmd" and n :: "string cmd"
    using that(1) unfolding emits_traces
    by (rule traces_then [OF _ that(2)]) (auto intro: format_guard_quiet format_guard_harmless)
  let ?body = "\<lambda>luks. io_then
      (if luks then unlock_volume E d l
       else if dk_format_if_empty d then provision_volume E d l (''/dev/mapper/'' @ lk_name l)
       else io_err (Msg (dk_device d @ '' is not a LUKS volume and formatIfEmpty is false'')))
      (io_ret (''/dev/mapper/'' @ lk_name l))"
  have body: "traces (\<lambda>_ es. (if luks \<or> \<not> dk_format_if_empty d then list_all harmless es
      else preceded (seals (lk_nv_index l) LUKS_KEYFILE) is_mkfs es)) (?body luks)" for luks
  proof (cases "luks \<or> \<not> dk_format_if_empty d")
    case True
    then have "emits harmless (?body luks)"
      by (intro emits_rules emits_unlock) auto
    with True show ?thesis unfolding emits_traces by simp
  next
    case False
    then show ?thesis
      by (simp, intro traces_then [OF provision_volume_sealed traces_ret [of "\<lambda>_ es. es = []"]]) auto
  qed
  have "traces (\<lambda>_. format_guard d l) (io_bind (is_luks E (dk_device d)) ?body)"
  proof (rule traces_bind [OF traces_is_luks body])
    fix e :: err and es
    assume "list_all harmless es \<and> (Inl e = Inr False \<longrightarrow> list_ex (not_luks (dk_device d)) es)"
    then show "format_guard d l es" by (auto intro: format_guard_harmless)
  next
    fix x and r :: "err + string" and es1 es2
    assume 1: "list_all harmless es1 \<and> (Inr x = (Inr False :: err + bool) \<longrightarrow> list_ex (not_luks (dk_device d)) es1)"
      and 2: "if x \<or> \<not> dk_format_if_empty d then list_all harmless es2
        else preceded (seals (lk_nv_index l) LUKS_KEYFILE) is_mkfs es2"
    show "format_guard d l (es1 @ es2)"
    proof (cases "x \<or> \<not> dk_format_if_empty d")
      case True
      with 1 2 show ?thesis by (intro format_guard_harmless) simp
    next
      case False
      with 1 2 have "list_ex (not_luks (dk_device d)) es1"
        "preceded (seals (lk_nv_index l) LUKS_KEYFILE) is_mkfs es2" by auto
      moreover have "list_all (\<lambda>e. \<not> is_mkfs e) es1"
        using 1 formats_mkfs by (auto simp: list_all_iff)
      ultimately show ?thesis
        using 1 False by (simp add: format_guard_def preceded_append preceded_none)
    qed
  qed
  then show ?thesis
    unfolding open_encrypted_def Let_def by (intro quiet emits_dm_control harmless_tpm)
qed

section \<open>Plain disks\<close>

abbreviation ext_magic :: string where
  "ext_magic \<equiv> [CHR 0x53, CHR 0xEF]"

text \<open>The environment does not make the probe of a device take a failure for an empty disk.\<close>

definition honest_probe :: "env \<Rightarrow> string \<Rightarrow> bool" where
  "honest_probe E dev \<longleftrightarrow>
     (\<forall>t. env_fault E t (OpenRead (path_of dev)) \<noteq> Some NotFound \<and>
          env_fault E t (Seek (path_of dev) 1080) = None \<and>
          env_fault E t (ReadExact (path_of dev) 2) \<noteq> Some UnexpectedEof)"

lemma emits_is_formatted: "emits harmless (is_formatted E dev)"
  unfolding is_formatted_def prim_op_defs by (intro emits_rules) simp_all

lemma is_formatted_keeps: "w_fs (snd (is_formatted E dev w)) = w_fs w"
proof -
  have "keeps (\<lambda>v. w_fs v = w_fs w) (is_formatted E dev)"
    unfolding is_formatted_def prim_op_defs
    by (intro keeps_rules keeps_prim_same) (auto dest: fs_read_at_same split: if_splits)
  then show ?thesis by (simp add: keeps_def)
qed

text \<open>What the probe answers, from the bytes of the device.\<close>

lemma is_formatted_magic:
  assumes "honest_probe E dev" and "content (w_fs w) (path_of dev) = Some data"
    and "take 2 (drop 1080 data) = ext_magic"
  shows "is_formatted E dev w = (r, w') \<Longrightarrow> r = Inr True \<or> isl r"
  using assms
  by (auto simp: is_formatted_def prim_op_defs io_bind_def io_attempt_run prim_def content_def honest_probe_def
      split: option.splits entry.splits sum.splits prod.splits if_splits)

lemma is_formatted_other:
  assumes "\<And>t. env_fault E t (OpenRead (path_of dev)) = None"
    and "\<And>t. env_fault E t (Seek (path_of dev) 1080) = None"
    and "\<And>t. env_fault E t (ReadExact (path_of dev) 2) = None"
    and "content (w_fs w) (path_of dev) = Some data" and "take 2 (drop 1080 data) \<noteq> ext_magic"
  shows "fst (is_formatted E dev w) = Inr False"
  using assms
  by (auto simp: is_formatted_def prim_op_defs io_bind_def io_attempt_run prim_def content_def
      split: option.splits entry.splits sum.splits prod.splits if_splits)

section \<open>The key file\<close>

lemma drop_keyfile_content:
  assumes "\<And>t. env_fault E t (RemoveFile (path_of LUKS_KEYFILE)) = None"
  shows "content (w_fs (snd (drop_keyfile E w))) (path_of LUKS_KEYFILE) = None"
  using assms
  by (auto simp: drop_keyfile_def remove_file_def prim_def fs_remove_def content_def fs_simps
      split: entry.splits)

lemma drop_keyfile_last:
  assumes "\<And>t. env_fault E t (RemoveFile (path_of LUKS_KEYFILE)) = None"
    and "io_bind (io_attempt m) (\<lambda>result. io_then (drop_keyfile E) (io_lift result)) w = (r, w')"
  shows "content (w_fs w') (path_of LUKS_KEYFILE) = None \<and> r = fst (m w)"
  using assms(2) drop_keyfile_content [OF assms(1), of "snd (m w)"]
  by (auto simp: io_then_def io_bind_def io_attempt_run drop_keyfile_def io_ignore_run split: prod.splits)

text \<open>The events that make the key or hand it to \<open>cryptsetup\<close>.\<close>

fun handles_key :: "event \<Rightarrow> bool" where
  "handles_key (Status p a v, r) \<longleftrightarrow>
     p = ''/usr/bin/tpm2_getrandom'' \<or> p = CRYPTSETUP \<and> (take 1 a = [''luksFormat''] \<or> take 1 a = [''open''])"
| "handles_key _ \<longleftrightarrow> False"

definition key_gone :: "'a cmd \<Rightarrow> bool" where
  "key_gone m \<longleftrightarrow> (\<forall>w r w'. m w = (r, w') \<longrightarrow> (\<exists>es. w_trace w' = w_trace w @ es \<and>
     (\<not> isl r \<or> list_ex handles_key es \<longrightarrow> content (w_fs w') (path_of LUKS_KEYFILE) = None)))"

lemma key_goneD:
  assumes "key_gone m" and "m w = (r, w')" and "w_trace w' = w_trace w @ es" and "\<not> isl r \<or> list_ex handles_key es"
  shows "content (w_fs w') (path_of LUKS_KEYFILE) = None"
  using assms unfolding key_gone_def by fastforce

lemma key_gone_bind:
  assumes "emits (\<lambda>e. \<not> handles_key e) m" and "\<And>x. key_gone (f x)"
  shows "key_gone (io_bind m f)"
  unfolding key_gone_def
proof (intro allI impI)
  fix w r w'
  assume run: "io_bind m f w = (r, w')"
  obtain q w1 where q: "m w = (q, w1)" by (cases "m w")
  obtain es where es: "w_trace w1 = w_trace w @ es" "list_all (\<lambda>e. \<not> handles_key e) es" by (rule emitsD [OF assms(1) q])
  then have none: "\<not> list_ex handles_key es" by (auto simp: list_all_iff list_ex_iff)
  show "\<exists>es. w_trace w' = w_trace w @ es \<and>
      (\<not> isl r \<or> list_ex handles_key es \<longrightarrow> content (w_fs w') (path_of LUKS_KEYFILE) = None)"
  proof (cases q)
    case (Inl e)
    with run q es(1) none show ?thesis by (auto simp: io_bind_def)
  next
    case (Inr x)
    with run q have "f x w1 = (r, w')" by (simp add: io_bind_def)
    with assms(2) [of x] obtain fs where "w_trace w' = w_trace w1 @ fs"
      "\<not> isl r \<or> list_ex handles_key fs \<longrightarrow> content (w_fs w') (path_of LUKS_KEYFILE) = None"
      unfolding key_gone_def by blast
    with es(1) none show ?thesis by (intro exI [of _ "es @ fs"]) auto
  qed
qed

lemma key_gone_then: "emits (\<lambda>e. \<not> handles_key e) m \<Longrightarrow> key_gone n \<Longrightarrow> key_gone (io_then m n)"
  unfolding io_then_def by (rule key_gone_bind)

lemma key_gone_ret: "key_gone m \<Longrightarrow> key_gone (io_then m (io_ret x))"
  unfolding key_gone_def by (fastforce simp: io_then_def io_bind_def io_ret_def split: prod.splits sum.splits)

lemma key_gone_err: "key_gone (io_err e)"
  by (simp add: key_gone_def)

text \<open>Both branches end with the removal, whatever came before it.\<close>

lemma key_gone_drop:
  assumes "\<And>t. env_fault E t (RemoveFile (path_of LUKS_KEYFILE)) = None" and "emits (\<lambda>_. True) m"
  shows "key_gone (io_bind (io_attempt m) (\<lambda>result. io_then (drop_keyfile E) (io_lift result)))" (is "key_gone ?p")
  unfolding key_gone_def
proof (intro allI impI)
  fix w r w'
  assume run: "?p w = (r, w')"
  have "emits (\<lambda>_. True) ?p"
    unfolding drop_keyfile_def by (intro emits_rules assms(2)) simp
  from emitsD [OF this run] obtain es where "w_trace w' = w_trace w @ es" .
  with drop_keyfile_last [OF assms(1) run] show "\<exists>es. w_trace w' = w_trace w @ es \<and>
      (\<not> isl r \<or> list_ex handles_key es \<longrightarrow> content (w_fs w') (path_of LUKS_KEYFILE) = None)" by blast
qed

lemma emits_no_key:
  "emits (\<lambda>e. \<not> handles_key e) (tpm_nv_read E i k q)" "emits (\<lambda>e. \<not> handles_key e) (ensure_dm_control E)"
  "emits (\<lambda>e. \<not> handles_key e) (log_pcrs E q)" "emits (\<lambda>e. \<not> handles_key e) (is_luks E dev)"
  unfolding tpm_nv_read_def with_policy_session_def ensure_dm_control_def mknod_char_def mknod_def log_pcrs_def is_luks_def
  by (intro emits_rules; simp add: CRYPTSETUP_def)+

lemma open_encrypted_key_gone:
  assumes "\<And>t. env_fault E t (RemoveFile (path_of LUKS_KEYFILE)) = None"
  shows "key_gone (open_encrypted E d l)"
proof -
  have "emits (\<lambda>_. True) (luks_open E (dk_device d) (lk_name l) LUKS_KEYFILE)"
    unfolding luks_open_def by (intro emits_rules) simp
  then have u: "key_gone (unlock_volume E d l)"
    unfolding unlock_volume_def by (intro key_gone_then emits_no_key key_gone_drop assms)
  have "emits (\<lambda>_. True) (provision_steps E d l m)" for m
    unfolding provision_steps_def luks_format_def luks_open_def format_target_def run_mkfs_def
    by (intro emits_rules emits_tpm [THEN emits_weaken]; simp)
  then have p: "key_gone (provision_volume E d l m)" for m
    unfolding provision_volume_def by (intro key_gone_drop assms)
  show ?thesis
    unfolding open_encrypted_def Let_def
    by (intro key_gone_then key_gone_bind emits_no_key key_gone_ret) (simp add: u p key_gone_err)
qed

section \<open>A key that cannot be sealed\<close>

text \<open>A \<open>tpm_nv_store\<close> that fails has not written the key into the index.\<close>

abbreviation unsealed :: "(event \<Rightarrow> bool) \<Rightarrow> err + unit \<Rightarrow> event list \<Rightarrow> bool" where
  "unsealed A r es \<equiv> isl r \<longrightarrow> \<not> list_ex A es"

lemma unsealed_then:
  assumes "emits (\<lambda>e. \<not> A e) m" and "traces (unsealed A) n"
  shows "traces (unsealed A) (io_then m n)"
  using assms(1) unfolding emits_traces
  by (rule traces_then [OF _ assms(2)]) (auto simp: list_all_iff list_ex_iff)

lemma unsealed_session:
  assumes "\<And>s. s = ''session:'' @ SESSION_FILE \<Longrightarrow> traces (unsealed (seals index keyfile)) (act s)"
  shows "traces (unsealed (seals index keyfile)) (with_policy_session E pcrs act)"
  unfolding with_policy_session_def
proof (rule unsealed_then)
  let ?A = "seals index keyfile"
  let ?body = "io_then (run_tool E ''/usr/bin/tpm2_policypcr'' [''-S'', SESSION_FILE, ''-l'', pcrs] [TPM_ENV])
                     (act (''session:'' @ SESSION_FILE))"
  have "traces (unsealed ?A) ?body"
    by (rule unsealed_then [OF _ assms]) (intro emits_rules, simp_all)
  then have "traces (\<lambda>r es. \<not> isl r \<and> unsealed ?A (projr r) es) (io_attempt ?body)"
    by (intro traces_attempt) simp
  moreover have "traces (\<lambda>r es. (isl r \<longrightarrow> isl q) \<and> \<not> list_ex ?A es) (io_then (io_ignore (flush_session E)) (io_lift q))"
    for q :: "err + unit"
    by (rule traces_then [of "\<lambda>r es. \<not> isl r \<and> \<not> list_ex ?A es" _ "\<lambda>r es. (isl r \<longrightarrow> isl q) \<and> es = []"])
      (auto intro!: traces_ignore traces_lift traces_run_tool simp: flush_session_def tool_ok_def)
  ultimately show "traces (unsealed ?A) (io_bind (io_attempt ?body)
      (\<lambda>r. io_then (io_ignore (flush_session E)) (io_lift r)))"
    by (rule traces_bind) auto
qed (intro emits_rules, simp)

lemma nv_store_unsealed: "traces (unsealed (seals index keyfile)) (tpm_nv_store E index keyfile pcrs)"
proof -
  have w: "traces (unsealed (seals index keyfile)) (run_tool E ''/usr/bin/tpm2_nvwrite'' a [TPM_ENV])" for a
    by (rule traces_run_tool) (simp_all add: tool_ok_def)
  show ?thesis
    unfolding tpm_nv_store_def
    by (cases pcrs; simp only: option.case)
      ((rule unsealed_then, (intro emits_rules emits_flush; simp))+, (rule w | (rule unsealed_session, rule w)))+
qed

text \<open>\<open>luksFormat\<close> has been run on the device, with success.\<close>

fun luks_formatted :: "string \<Rightarrow> event \<Rightarrow> bool" where
  "luks_formatted dev (Status p a v, r) \<longleftrightarrow>
     p = CRYPTSETUP \<and> take 1 a = [''luksFormat''] \<and> last a = dev \<and> r = Exited (ExitCode 0)"
| "luks_formatted dev _ \<longleftrightarrow> False"

lemma succeeds_run:
  assumes "\<And>v. \<not> isl (fst (m v))"
  obtains x w1 where "m w = (Inr x, w1)"
  using assms [of w] that by (cases "m w"; cases "fst (m w)") auto

lemma provision_unsealed:
  assumes "\<And>v. \<not> isl (fst (tpm_getrandom E 32 LUKS_KEYFILE v))"
    and "\<And>v. \<not> isl (fst (luks_format E (dk_device d) LUKS_KEYFILE v))"
    and "\<And>v. \<not> isl (fst (luks_open E (dk_device d) (lk_name l) LUKS_KEYFILE v))"
    and "\<And>v. isl (fst (tpm_nv_store E (lk_nv_index l) LUKS_KEYFILE (lk_pcrs l) v))"
    and "provision_volume E d l m w = (r, w')"
  shows "isl r \<and> (\<exists>es. w_trace w' = w_trace w @ es \<and> list_ex (luks_formatted (dk_device d)) es \<and>
    \<not> list_ex (seals (lk_nv_index l) LUKS_KEYFILE) es)"
proof -
  let ?S = "seals (lk_nv_index l) LUKS_KEYFILE"
  obtain x1 w1 where 1: "tpm_getrandom E 32 LUKS_KEYFILE w = (Inr x1, w1)" by (rule succeeds_run [OF assms(1)])
  obtain x2 w2 where 2: "luks_format E (dk_device d) LUKS_KEYFILE w1 = (Inr x2, w2)" by (rule succeeds_run [OF assms(2)])
  obtain x3 w3 where 3: "luks_open E (dk_device d) (lk_name l) LUKS_KEYFILE w2 = (Inr x3, w3)" by (rule succeeds_run [OF assms(3)])
  obtain e w4 where 4: "tpm_nv_store E (lk_nv_index l) LUKS_KEYFILE (lk_pcrs l) w3 = (Inl e, w4)"
    using assms(4) [of w3] by (cases "tpm_nv_store E (lk_nv_index l) LUKS_KEYFILE (lk_pcrs l) w3") (auto simp: isl_def)
  have "provision_steps E d l m w = (Inl e, w4)"
    using 1 2 3 4 by (simp add: provision_steps_def io_then_def io_bind_def)
  then have run: "drop_keyfile E w4 = (Inr (), w')" "r = Inl e"
    using assms(5) by (auto simp: provision_volume_def io_then_def io_bind_def io_attempt_run drop_keyfile_def io_ignore_run
        split: prod.splits)
  have quiet: "emits (\<lambda>e. \<not> ?S e) (tpm_getrandom E 32 LUKS_KEYFILE)"
    "emits (\<lambda>e. \<not> ?S e) (luks_open E (dk_device d) (lk_name l) LUKS_KEYFILE)" "emits (\<lambda>e. \<not> ?S e) (drop_keyfile E)"
    unfolding tpm_getrandom_def luks_open_def drop_keyfile_def by (intro emits_rules; simp add: CRYPTSETUP_def)+
  obtain es1 where es1: "w_trace w1 = w_trace w @ es1" "list_all (\<lambda>e. \<not> ?S e) es1" by (rule emitsD [OF quiet(1) 1])
  obtain f where f: "w_trace w2 = w_trace w1 @ [f]" "luks_formatted (dk_device d) f" "\<not> ?S f"
    using run_tool_trace [OF 2 [unfolded luks_format_def]] by (auto simp: CRYPTSETUP_def)
  obtain es3 where es3: "w_trace w3 = w_trace w2 @ es3" "list_all (\<lambda>e. \<not> ?S e) es3" by (rule emitsD [OF quiet(2) 3])
  obtain es4 where es4: "w_trace w4 = w_trace w3 @ es4" "unsealed ?S (Inl e) es4" by (rule tracesD [OF nv_store_unsealed 4])
  obtain es5 where es5: "w_trace w' = w_trace w4 @ es5" "list_all (\<lambda>e. \<not> ?S e) es5" by (rule emitsD [OF quiet(3) run(1)])
  show ?thesis
    using es1 f es3 es4 es5 run(2)
    by (intro conjI exI [of _ "es1 @ [f] @ es3 @ es4 @ es5"]) (auto simp: list_all_iff list_ex_iff)
qed

lemma io_bind_fails: "(\<And>x u. isl (fst (f x u))) \<Longrightarrow> isl (fst (io_bind m f v))"
  by (auto simp: io_bind_def split: prod.splits sum.splits)

text \<open>A volume whose key cannot be read is neither opened nor formatted.\<close>

lemma unlock_unsealed:
  assumes "\<And>v. fst (is_luks E (dk_device d) v) = Inr True"
    and "\<And>v. isl (fst (tpm_nv_read E (lk_nv_index l) LUKS_KEYFILE (lk_pcrs l) v))"
    and "open_encrypted E d l w = (r, w')"
  shows "\<exists>es. w_trace w' = w_trace w @ es \<and> isl r \<and> list_all harmless es"
proof -
  let ?mapper = "''/dev/mapper/'' @ lk_name l"
  have luks: "io_bind (is_luks E (dk_device d)) f = io_bind (is_luks E (dk_device d)) (\<lambda>_. f True)" for f :: "bool \<Rightarrow> string cmd"
  proof
    show "io_bind (is_luks E (dk_device d)) f v = io_bind (is_luks E (dk_device d)) (\<lambda>_. f True) v" for v
      using assms(1) [of v] by (cases "is_luks E (dk_device d) v") (simp add: io_bind_def)
  qed
  have "open_encrypted E d l = io_then (ensure_dm_control E) (io_then (log_pcrs E (lk_pcrs l)) (io_bind (is_luks E (dk_device d))
      (\<lambda>_. io_then (unlock_volume E d l) (io_ret ?mapper))))"
    unfolding open_encrypted_def Let_def by (subst luks) simp
  with assms(3) have run: "io_then (ensure_dm_control E) (io_then (log_pcrs E (lk_pcrs l)) (io_bind (is_luks E (dk_device d))
      (\<lambda>_. io_then (unlock_volume E d l) (io_ret ?mapper)))) w = (r, w')" by simp
  have "isl (fst (unlock_volume E d l v))" for v
    using assms(2) [of v] by (cases "tpm_nv_read E (lk_nv_index l) LUKS_KEYFILE (lk_pcrs l) v")
      (auto simp: unlock_volume_def io_then_def io_bind_def isl_def)
  then have all: "isl (fst (io_then (unlock_volume E d l) (io_ret ?mapper) v))" for v
    by (cases "unlock_volume E d l v"; cases "fst (unlock_volume E d l v)")
      (use \<open>\<And>v. isl (fst (unlock_volume E d l v))\<close> [of v] in \<open>simp_all add: io_then_def io_bind_def\<close>)
  have "isl (fst (io_then (ensure_dm_control E) (io_then (log_pcrs E (lk_pcrs l)) (io_bind (is_luks E (dk_device d))
      (\<lambda>_. io_then (unlock_volume E d l) (io_ret ?mapper)))) w))"
    unfolding io_then_def [of "ensure_dm_control E"] io_then_def [of "log_pcrs E (lk_pcrs l)"] by (intro io_bind_fails all)
  with run have "isl r" by simp
  moreover have "emits harmless (io_then (ensure_dm_control E) (io_then (log_pcrs E (lk_pcrs l)) (io_bind (is_luks E (dk_device d))
      (\<lambda>_. io_then (unlock_volume E d l) (io_ret ?mapper)))))"
    unfolding is_luks_def by (intro emits_rules emits_dm_control harmless_tpm emits_unlock) simp_all
  from emitsD [OF this run] obtain es where "w_trace w' = w_trace w @ es" "list_all harmless es" .
  ultimately show ?thesis by blast
qed

section \<open>An example\<close>

text \<open>A machine with one blank disk: every tool does its work, and \<open>isLuks\<close> says no.\<close>

fun blank_run :: "event list \<Rightarrow> op \<Rightarrow> fsys \<Rightarrow> exit_status \<times> fsys" where
  "blank_run t (Status p a v) s =
     (if take 1 a = [''isLuks''] then (ExitCode 1, s)
      else if p = ''/usr/bin/tpm2_getrandom''
      then (ExitCode 0, add_file (path_of LUKS_KEYFILE) ''KEY'' 0x1A4 s)
      else (ExitCode 0, s))"
| "blank_run t o' s = (ExitCode 0, s)"

definition blank_env :: env where
  "blank_env = calm\<lparr>env_run := blank_run\<rparr>"

definition sample_luks :: luks where
  "sample_luks = \<lparr>lk_name = ''st'', lk_nv_index = ''0x1'', lk_pcrs = None\<rparr>"

definition sample_disk :: "bool \<Rightarrow> luks option \<Rightarrow> disk" where
  "sample_disk fmt enc =
     \<lparr>dk_device = ''/vda'', dk_target = path_of ''/v'', dk_fstype = ''ext4'', dk_flags = [],
      dk_format_if_empty = fmt, dk_mkfs = [''mkfs''], dk_encrypt = enc\<rparr>"

definition dm_world :: world where
  "dm_world = world_of (add_file (path_of DM_CONTROL) [] 0 empty_fs)"

lemma blank_env_sel:
  "env_fault blank_env t o' = None" "env_run blank_env = blank_run"
  by (simp_all add: blank_env_def calm_def)

lemma cur_add_file: "cur (add_file p d m s) p = FileAt (fs_next s)"
  by (simp add: cur_def vers_add_file)

lemma dm_world_control: "cur (w_fs dm_world) (path_of DM_CONTROL) \<noteq> Absent" "w_trace dm_world = []"
  by (simp_all add: dm_world_def world_of_def cur_add_file)

lemmas blank_defs = blank_env_sel sample_disk_def sample_luks_def open_encrypted_def
  ensure_dm_control_def log_pcrs_def is_luks_def provision_volume_def provision_steps_def
  tpm_getrandom_def luks_format_def luks_open_def tpm_nv_store_def format_target_def run_mkfs_def
  run_tool_def set_private_perms_def set_mode_def drop_keyfile_def remove_file_def path_exists_def
  run_status_def run_output_def prim_def fs_chmod_def CRYPTSETUP_def success_def cur_add_file fs_simps

lemma blank_run_facts:
  "case open_encrypted blank_env (sample_disk True (Some sample_luks)) sample_luks dm_world of (r, w') \<Rightarrow>
     r = Inr ''/dev/mapper/st'' \<and> list_ex is_mkfs (w_trace w')"
proof -
  have "show_nat 32 = ''32''" by code_simp
  with dm_world_control show ?thesis
    by (simp add: blank_defs io_defs Let_def fs_remove_def split: sum.split)
qed

section \<open>Properties\<close>

text \<open>
  C7. An encrypted disk is formatted only after \<open>cryptsetup isLuks\<close> has said in this very run
  that it is no LUKS volume, and only if its entry has \<open>formatIfEmpty\<close>; its file system is made
  only after the key has been written into the TPM. So an existing volume is never
  overwritten, and no file system is ever made under a key that is not sealed.
\<close>

theorem encrypted_disk_guarded:
  assumes "open_encrypted E d l w = (r, w')"
  shows "\<exists>es. w_trace w' = w_trace w @ es \<and>
    preceded (not_luks (dk_device d)) formats es \<and>
    preceded (seals (lk_nv_index l) LUKS_KEYFILE) is_mkfs es \<and>
    (dk_format_if_empty d \<or> list_all harmless es)"
  using tracesD [OF open_encrypted_guard assms] unfolding format_guard_def by metis

theorem encrypted_disk_guarded_witness:
  "list_ex (seals ''0x1'' LUKS_KEYFILE)
     (w_trace (snd (open_encrypted blank_env (sample_disk True (Some sample_luks)) sample_luks dm_world)))"
proof -
  let ?r = "open_encrypted blank_env (sample_disk True (Some sample_luks)) sample_luks dm_world"
  have pre: "preceded A B es \<Longrightarrow> list_ex B es \<Longrightarrow> list_ex A es" for A B es
    by (induction es) auto
  have "w_trace dm_world = []" by (simp add: dm_world_def world_of_def)
  moreover have "list_ex is_mkfs (w_trace (snd ?r))" using blank_run_facts by (simp split: prod.splits)
  ultimately show ?thesis
    using encrypted_disk_guarded [of blank_env "sample_disk True (Some sample_luks)" sample_luks dm_world
        "fst ?r" "snd ?r"] pre
    by (auto simp: sample_luks_def)
qed

text \<open>
  C19. Where no disk has \<open>formatIfEmpty\<close>, \<open>apply_disks\<close> never formats anything, whatever the
  machine answers.
\<close>

theorem disks_not_formatted:
  assumes "\<forall>d \<in> set ds. \<not> dk_format_if_empty d" and "apply_disks E ds w = (r, w')"
  shows "\<exists>es. w_trace w' = w_trace w @ es \<and> list_all harmless es"
proof -
  have "emits harmless (open_encrypted E d l)" if "d \<in> set ds" for d l
    unfolding emits_traces
    by (rule traces_weaken [OF open_encrypted_guard]) (use assms(1) that in \<open>auto simp: format_guard_def\<close>)
  then have "emits harmless (apply_disks E ds)"
    unfolding apply_disks_def apply_disk_def disk_source_def using assms(1)
    by (intro emits_rules) auto
  with assms(2) show ?thesis by (meson emitsD)
qed

theorem disks_not_formatted_witness:
  "list_all harmless (w_trace (snd (apply_disks blank_env [sample_disk False None] (world_of empty_fs))))"
  using disks_not_formatted [of "[sample_disk False None]" blank_env "world_of empty_fs"
      "fst (apply_disks blank_env [sample_disk False None] (world_of empty_fs))"]
  by (force simp: sample_disk_def world_of_def)

text \<open>
  A plain disk that carries an ext2/3/4 superblock is never formatted, even with
  \<open>formatIfEmpty\<close>: preparing it runs no \<open>mkfs\<close> and leaves its contents as they are. (The probe
  must not be made to take a failure for an empty disk: a failing seek, a device that cannot
  be found and a short read all count as unformatted.)
\<close>

lemma ext_disk_kept:
  assumes "dk_encrypt d = None" and "honest_probe E (dk_device d)"
    and "content (w_fs w) (path_of (dk_device d)) = Some data" and "take 2 (drop 1080 data) = ext_magic"
    and "disk_source E d w = (r, w')"
  shows "content (w_fs w') (path_of (dk_device d)) = Some data \<and>
    (\<exists>es. w_trace w' = w_trace w @ es \<and> list_all harmless es)"
proof -
  obtain q w1 where q: "is_formatted E (dk_device d) w = (q, w1)" by (cases "is_formatted E (dk_device d) w")
  have fs: "w_fs w1 = w_fs w" using is_formatted_keeps [of E "dk_device d" w] q by simp
  obtain es where es: "w_trace w1 = w_trace w @ es" "list_all harmless es"
    by (rule emitsD [OF emits_is_formatted q])
  from is_formatted_magic [OF assms(2-4) q] show ?thesis
    using assms(1,3,5) q fs es
    by (cases "dk_format_if_empty d")
      (auto simp: disk_source_def io_then_def io_bind_def io_ret_def isl_def)
qed

lemma ext_disk_kept_example:
  "content (w_fs (snd (disk_source calm (sample_disk True None)
      (world_of (add_file (path_of ''/vda'') (replicate 1080 CHR 0x00 @ ext_magic) 0 empty_fs)))))
     (path_of ''/vda'') = Some (replicate 1080 CHR 0x00 @ ext_magic)"
proof -
  let ?data = "replicate 1080 CHR 0x00 @ ext_magic"
  let ?d = "sample_disk True None" and ?w = "world_of (add_file (path_of ''/vda'') ?data 0 empty_fs)"
  have d: "dk_encrypt ?d = None" "dk_device ?d = ''/vda''" by (simp_all add: sample_disk_def)
  have h: "honest_probe calm (dk_device ?d)" by (simp add: honest_probe_def calm_def)
  have c: "content (w_fs ?w) (path_of (dk_device ?d)) = Some ?data"
    by (simp add: d world_of_def content_def cur_def vers_add_file) (simp add: add_file_def)
  have m: "take 2 (drop 1080 ?data) = ext_magic" by simp
  show ?thesis
    using ext_disk_kept [OF d(1) h c m, of "fst (disk_source calm ?d ?w)"] by (simp add: d(2))
qed

text \<open>
  The comment on \<open>format_if_empty\<close> promises a file system where there is none, but the
  probe knows only the ext magic: a plain disk with \<open>formatIfEmpty\<close> that holds anything else,
  such as an XFS or FAT file system or a LUKS header, is handed to \<open>mkfs\<close>.
\<close>

lemma other_disk_formatted:
  assumes "dk_encrypt d = None" and "dk_format_if_empty d" and "dk_mkfs d = command # args"
    and "\<And>t. env_fault E t (OpenRead (path_of (dk_device d))) = None"
    and "\<And>t. env_fault E t (Seek (path_of (dk_device d)) 1080) = None"
    and "\<And>t. env_fault E t (ReadExact (path_of (dk_device d)) 2) = None"
    and "content (w_fs w) (path_of (dk_device d)) = Some data" and "take 2 (drop 1080 data) \<noteq> ext_magic"
  shows "fst (last (w_trace (snd (disk_source E d w)))) = Status command (args @ [dk_device d]) []"
proof -
  obtain q w1 where q: "is_formatted E (dk_device d) w = (q, w1)" by (cases "is_formatted E (dk_device d) w")
  with is_formatted_other [OF assms(4-8)] have "q = Inr False" by simp
  with q assms(1-3) run_status_run [of E command "args @ [dk_device d]" "[]" w1] show ?thesis
    by (auto simp: disk_source_def format_disk_def run_mkfs_def io_then_def io_bind_def io_ctx_def io_ret_def)
qed

lemma other_disk_formatted_example:
  "fst (last (w_trace (snd (disk_source calm (sample_disk True None)
      (world_of (add_file (path_of ''/vda'') ''XFSB'' 0 empty_fs)))))) = Status ''mkfs'' [''/vda''] []"
proof -
  let ?d = "sample_disk True None" and ?w = "world_of (add_file (path_of ''/vda'') ''XFSB'' 0 empty_fs)"
  have d: "dk_encrypt ?d = None" "dk_format_if_empty ?d" "dk_mkfs ?d = [''mkfs'']" "dk_device ?d = ''/vda''"
    by (simp_all add: sample_disk_def)
  have c: "content (w_fs ?w) (path_of (dk_device ?d)) = Some ''XFSB''"
    by (simp add: d world_of_def content_def cur_def vers_add_file) (simp add: add_file_def)
  show ?thesis
    using other_disk_formatted [OF d(1-3) _ _ _ c, of calm] by (simp add: calm_def d(4))
qed

text \<open>
  C20. The copy of the disk key in a file does not outlive its use. Where unlinking the file does not
  itself fail, it is gone at the end of \<open>open_encrypted\<close> if that succeeded, and also if it failed at any
  step after the key was generated or handed to \<open>cryptsetup\<close> by \<open>luksFormat\<close> or \<open>open\<close>, so after every
  provisioning, failed or not, and every attempt to unlock.
\<close>

theorem key_file_removed:
  assumes "\<And>t. env_fault E t (RemoveFile (path_of LUKS_KEYFILE)) = None"
    and "open_encrypted E d l w = (r, w')" and "w_trace w' = w_trace w @ es"
    and "\<not> isl r \<or> list_ex handles_key es"
  shows "content (w_fs w') (path_of LUKS_KEYFILE) = None"
  using key_goneD [OF open_encrypted_key_gone [OF assms(1)] assms(2-4)] .

theorem key_file_removed_witness:
  "content (w_fs (snd (open_encrypted blank_env (sample_disk True (Some sample_luks)) sample_luks dm_world)))
     (path_of LUKS_KEYFILE) = None"
proof -
  let ?d = "sample_disk True (Some sample_luks)"
  let ?r = "open_encrypted blank_env ?d sample_luks dm_world"
  have run: "?r = (Inr ''/dev/mapper/st'', snd ?r)" using blank_run_facts by (simp split: prod.splits)
  have nf: "env_fault blank_env t (RemoveFile (path_of LUKS_KEYFILE)) = None" for t
    by (simp add: blank_env_def calm_def)
  show ?thesis
    by (rule key_file_removed [OF nf run, of "w_trace (snd ?r)"]) (simp_all add: dm_world_control)
qed

text \<open>
  The unlock branch has a gap: an error of \<open>tpm_nv_read\<close> returns before the removal, so
  the state is exactly as that call left it. Where \<open>tpm2_nvread\<close> has written the key and the
  \<open>chmod\<close> after it fails, the disk key stays behind in \<open>/run/nodeos-luks.key\<close>.
\<close>

lemma key_file_left_behind:
  assumes "tpm_nv_read E (lk_nv_index l) LUKS_KEYFILE (lk_pcrs l) w = (Inl e, w')"
  shows "unlock_volume E d l w = (Inl e, w')"
  using assms by (simp add: unlock_volume_def io_then_def io_bind_def)

text \<open>A machine where \<open>tpm2_nvread\<close> writes the key and then \<open>chmod\<close> fails.\<close>

fun leaky_run :: "event list \<Rightarrow> op \<Rightarrow> fsys \<Rightarrow> exit_status \<times> fsys" where
  "leaky_run t (Status p a v) s =
     (if p = ''/usr/bin/tpm2_nvread'' then (ExitCode 0, add_file (path_of LUKS_KEYFILE) ''KEY'' 0x1A4 s)
      else (ExitCode 0, s))"
| "leaky_run t o' s = (ExitCode 0, s)"

fun leaky_fault :: "event list \<Rightarrow> op \<Rightarrow> io_error option" where
  "leaky_fault t (SetMode p m) = Some (OsError 30)"
| "leaky_fault t o' = None"

definition leaky_env :: env where
  "leaky_env = calm\<lparr>env_run := leaky_run, env_fault := leaky_fault\<rparr>"

lemma key_file_left_behind_example:
  "content (w_fs (snd (unlock_volume leaky_env (sample_disk False (Some sample_luks)) sample_luks dm_world)))
     (path_of LUKS_KEYFILE) = Some ''KEY''"
proof -
  let ?r = "tpm_nv_read leaky_env (lk_nv_index sample_luks) LUKS_KEYFILE (lk_pcrs sample_luks) dm_world"
  have run: "case ?r of (r, w') \<Rightarrow> isl r \<and> content (w_fs w') (path_of LUKS_KEYFILE) = Some ''KEY''"
    by code_simp
  then have "?r = (Inl (projl (fst ?r)), snd ?r)" by (auto split: prod.splits simp: isl_def)
  from key_file_left_behind [OF this] run show ?thesis by (auto split: prod.splits)
qed

text \<open>
  C34. Provisioning is not all or nothing: \<open>luksFormat\<close> comes before the key is sealed. Where the key can
  be generated, the disk formatted and opened, but \<open>tpm_nv_store\<close> fails, the run overwrites the disk with
  a LUKS header, writes the key into no index of the TPM, removes its only copy and ends with an error.
  On a later boot, where \<open>isLuks\<close> therefore says yes and nothing can be read from the index,
  \<open>open_encrypted\<close> fails too and formats nothing, \<open>formatIfEmpty\<close> or not, so the disk stays unusable.
\<close>

theorem seal_failure_loses_key:
  assumes "\<And>t. env_fault E t (RemoveFile (path_of LUKS_KEYFILE)) = None"
    and "\<And>v. \<not> isl (fst (tpm_getrandom E 32 LUKS_KEYFILE v))"
    and "\<And>v. \<not> isl (fst (luks_format E (dk_device d) LUKS_KEYFILE v))"
    and "\<And>v. \<not> isl (fst (luks_open E (dk_device d) (lk_name l) LUKS_KEYFILE v))"
    and "\<And>v. isl (fst (tpm_nv_store E (lk_nv_index l) LUKS_KEYFILE (lk_pcrs l) v))"
    and "provision_volume E d l m w = (r, w')"
    and "\<And>v. fst (is_luks E2 (dk_device d) v) = Inr True"
    and "\<And>v. isl (fst (tpm_nv_read E2 (lk_nv_index l) LUKS_KEYFILE (lk_pcrs l) v))"
    and "open_encrypted E2 d l v = (r2, v')"
  shows "isl r \<and> content (w_fs w') (path_of LUKS_KEYFILE) = None \<and>
    (\<exists>es. w_trace w' = w_trace w @ es \<and> list_ex (luks_formatted (dk_device d)) es \<and>
       \<not> list_ex (seals (lk_nv_index l) LUKS_KEYFILE) es) \<and>
    (\<exists>es. w_trace v' = w_trace v @ es \<and> isl r2 \<and> list_all harmless es)"
proof -
  have "content (w_fs w') (path_of LUKS_KEYFILE) = None"
    using drop_keyfile_last [OF assms(1)] assms(6) unfolding provision_volume_def by blast
  with provision_unsealed [OF assms(2-6)] unlock_unsealed [OF assms(7-9)] show ?thesis by blast
qed

text \<open>The machine of the example, with a TPM that refuses to define the index.\<close>

definition sealless_env :: env where
  "sealless_env = calm\<lparr>env_run := (\<lambda>t o' s. case o' of
     Status p a v \<Rightarrow> if p = ''/usr/bin/tpm2_nvdefine'' then (ExitCode 1, s) else blank_run t o' s
   | _ \<Rightarrow> (ExitCode 0, s))\<rparr>"

lemma sealless_env_sel:
  "env_fault sealless_env t o' = None"
  "env_run sealless_env t (Status p a v) s =
     (if p = ''/usr/bin/tpm2_nvdefine'' then (ExitCode 1, s) else blank_run t (Status p a v) s)"
  by (simp_all add: sealless_env_def calm_def)

text \<open>The machine on its next boot: the disk is a LUKS volume, and the index cannot be read.\<close>

definition keyless_env :: env where
  "keyless_env = calm\<lparr>env_run := (\<lambda>t o' s. case o' of
     Status p a v \<Rightarrow> if p = ''/usr/bin/tpm2_nvread'' then (ExitCode 1, s) else (ExitCode 0, s)
   | _ \<Rightarrow> (ExitCode 0, s))\<rparr>"

lemma keyless_env_sel:
  "env_fault keyless_env t o' = None"
  "env_run keyless_env t (Status p a v) s = (if p = ''/usr/bin/tpm2_nvread'' then (ExitCode 1, s) else (ExitCode 0, s))"
  by (simp_all add: keyless_env_def calm_def)

lemma sealless_tools:
  "\<not> isl (fst (tpm_getrandom sealless_env 32 LUKS_KEYFILE v))" "\<not> isl (fst (luks_format sealless_env dev k v))"
  "\<not> isl (fst (luks_open sealless_env dev n k v))" "isl (fst (tpm_nv_store sealless_env i k None v))"
proof -
  have sn: "show_nat 32 = ''32''" by code_simp
  have there: "cur (add_file (path_of LUKS_KEYFILE) x y s) (path_of LUKS_KEYFILE) \<noteq> Absent" for x y s
    by (simp add: cur_add_file)
  show "\<not> isl (fst (tpm_getrandom sealless_env 32 LUKS_KEYFILE v))"
    using there sn by (simp add: blank_defs sealless_env_sel io_defs Let_def)
  show "\<not> isl (fst (luks_format sealless_env dev k v))" "\<not> isl (fst (luks_open sealless_env dev n k v))"
    "isl (fst (tpm_nv_store sealless_env i k None v))"
    by (simp_all add: blank_defs sealless_env_sel io_defs Let_def)
qed

theorem seal_failure_loses_key_witness:
  "(case provision_volume sealless_env (sample_disk True (Some sample_luks)) sample_luks ''m'' dm_world of
      (r, w') \<Rightarrow> isl r \<and> content (w_fs w') (path_of LUKS_KEYFILE) = None \<and> list_ex (luks_formatted ''/vda'') (w_trace w')) \<and>
   (case open_encrypted keyless_env (sample_disk True (Some sample_luks)) sample_luks dm_world of
      (r, w') \<Rightarrow> isl r \<and> list_all harmless (w_trace w'))"
proof -
  let ?d = "sample_disk True (Some sample_luks)"
  let ?r = "provision_volume sealless_env ?d sample_luks ''m'' dm_world"
  let ?r2 = "open_encrypted keyless_env ?d sample_luks dm_world"
  have nf: "env_fault sealless_env t (RemoveFile (path_of LUKS_KEYFILE)) = None" for t
    by (simp add: sealless_env_sel)
  have ns: "isl (fst (tpm_nv_store sealless_env (lk_nv_index sample_luks) LUKS_KEYFILE (lk_pcrs sample_luks) v))" for v
    by (simp add: sample_luks_def sealless_tools)
  have yes: "fst (is_luks keyless_env (dk_device ?d) v) = Inr True" for v
    by (simp add: is_luks_def run_status_def keyless_env_sel CRYPTSETUP_def success_def io_defs Let_def)
  have nr: "isl (fst (tpm_nv_read keyless_env (lk_nv_index sample_luks) LUKS_KEYFILE (lk_pcrs sample_luks) v))" for v
    by (simp add: tpm_nv_read_def sample_luks_def run_tool_def run_status_def keyless_env_sel success_def io_defs Let_def)
  from seal_failure_loses_key [OF nf sealless_tools(1-3) ns prod.collapse [symmetric] yes nr prod.collapse [symmetric],
      of "''m''" dm_world dm_world]
  show ?thesis by (simp add: case_prod_beta dm_world_control) (simp add: sample_disk_def)
qed

end
