(* ===== verification/Initd_Services.thy ===== *)
theory Initd_Services
  imports Initd_Config
begin

text \<open>
  Services of \<open>initd\<close> (crates/initd/src/main.rs): \<open>spawn_service\<close>, \<open>await_ready\<close>,
  \<open>start_services\<close> and \<open>supervise\<close>. The supervisor's endless loop is its body, one round over
  the services and the sleep, and the number of rounds; every claim holds for every number.
\<close>

section \<open>Starting\<close>

record running_service =
  rn_spec :: service
  rn_child :: "nat option"

definition spawn_service :: "env \<Rightarrow> service \<Rightarrow> nat cmd" where
  "spawn_service E s =
     io_ctx (''start service '' @ sv_name s) (spawn E (show_comps (sv_command s)) (sv_args s))"

definition READY_POLL_INTERVAL :: nat where
  "READY_POLL_INTERVAL = 200"

text \<open>
  The polling loop of \<open>await_ready\<close>. The clock counts milliseconds; every turn sleeps at
  least the interval, so the loop ends.
\<close>

function await_loop :: "env \<Rightarrow> path \<Rightarrow> nat \<Rightarrow> unit cmd" where
  "await_loop E marker deadline w =
     (case path_exists E marker w of
        (Inr True, w1) \<Rightarrow> (Inr (), w1)
      | (_, w1) \<Rightarrow>
          if deadline \<le> w_now w1 then (Inr (), w1)
          else await_loop E marker deadline (snd (sleep E READY_POLL_INTERVAL w1)))"
  by pat_completeness auto

lemma path_exists_now: "path_exists E p w = (r, w') \<Longrightarrow> w_now w' = w_now w"
  by (auto simp: path_exists_def Let_def)

lemma sleep_now: "w_now (snd (sleep E ms w)) = w_now w + ms + env_lag E (w_trace w)"
  by (simp add: sleep_def)

termination await_loop
  by (relation "measure (\<lambda>(E, m, d, w). d - w_now w)")
    (auto simp: sleep_now READY_POLL_INTERVAL_def dest!: path_exists_now [OF sym])

declare await_loop.simps [simp del]

text \<open>
  \<open>Instant + Duration\<close> panics where the seconds leave the range of \<open>i64\<close>.
\<close>

definition await_ready :: "env \<Rightarrow> path \<Rightarrow> nat \<Rightarrow> unit cmd" where
  "await_ready E marker timeout_secs = (\<lambda>w.
     if w_now w div 1000 + timeout_secs < 2 ^ 63
     then await_loop E marker (w_now w + timeout_secs * 1000) w
     else (Inl (Panic ''overflow when adding duration to instant''), w))"

definition start_service :: "env \<Rightarrow> service \<Rightarrow> running_service cmd" where
  "start_service E s =
     io_bind (case sv_start_when s of
                None \<Rightarrow> io_ret True
              | Some marker \<Rightarrow> path_exists E marker)
       (\<lambda>go.
          if \<not> go then io_ret \<lparr>rn_spec = s, rn_child = None\<rparr>
          else io_bind (spawn_service E s) (\<lambda>child.
            io_then (case sv_ready_when s of
                       None \<Rightarrow> io_ret ()
                     | Some marker \<Rightarrow> await_ready E marker (sv_ready_timeout s))
              (io_ret \<lparr>rn_spec = s, rn_child = Some child\<rparr>)))"

definition start_services :: "env \<Rightarrow> service list \<Rightarrow> running_service list cmd" where
  "start_services E ss = io_map ss (start_service E)"

section \<open>Supervising\<close>

text \<open>One service in one round of \<open>supervise\<close>.\<close>

definition supervise_one :: "env \<Rightarrow> running_service \<Rightarrow> running_service cmd" where
  "supervise_one E rn =
     (case rn_child rn of
        None \<Rightarrow>
          io_bind (case sv_start_when (rn_spec rn) of
                     None \<Rightarrow> io_ret True
                   | Some m \<Rightarrow> path_exists E m)
            (\<lambda>ready.
               if ready
               then io_bind (io_attempt (spawn_service E (rn_spec rn)))
                      (\<lambda>r. case r of
                              Inr child \<Rightarrow> io_ret (rn\<lparr>rn_child := Some child\<rparr>)
                            | Inl _ \<Rightarrow> io_ret rn)
               else io_ret rn)
      | Some child \<Rightarrow>
          io_bind (try_wait E child)
            (\<lambda>exited. case exited of
                None \<Rightarrow> io_ret rn
              | Some status \<Rightarrow>
                  if sv_restart (rn_spec rn) = Always
                  then io_bind (spawn_service E (rn_spec rn))
                         (\<lambda>c. io_ret (rn\<lparr>rn_child := Some c\<rparr>))
                  else io_err (Msg (''required service '' @ sv_name (rn_spec rn) @ '' exited''))))"

definition supervise_round :: "env \<Rightarrow> running_service list \<Rightarrow> running_service list cmd" where
  "supervise_round E rs =
     io_bind (io_map rs (supervise_one E)) (\<lambda>rs'. io_then (sleep E 1000) (io_ret rs'))"

primrec supervise :: "env \<Rightarrow> nat \<Rightarrow> running_service list \<Rightarrow> running_service list cmd" where
  "supervise E 0 rs = io_ret rs"
| "supervise E (Suc n) rs = io_bind (supervise_round E rs) (supervise E n)"

section \<open>Polling\<close>

fun is_poll :: "path \<Rightarrow> event \<Rightarrow> bool" where
  "is_poll m (Exists p, r) \<longleftrightarrow> p = m"
| "is_poll m _ \<longleftrightarrow> False"

text \<open>How a loop of polls ends, and how many it makes.\<close>

definition polled :: "path \<Rightarrow> nat \<Rightarrow> world \<Rightarrow> world \<Rightarrow> bool" where
  "polled m deadline w w' \<longleftrightarrow>
     (\<exists>es. w_trace w' = w_trace w @ es \<and> es \<noteq> [] \<and>
        (last es = (Exists m, Answer True) \<or> (last es = (Exists m, Answer False) \<and> deadline \<le> w_now w')) \<and>
        length (filter (is_poll m) es) \<le> (deadline - w_now w + 199) div 200 + 1)"

lemma poll_step:
  fixes a b dl :: nat
  assumes "a + 200 \<le> b" and "\<not> dl \<le> a"
  shows "(dl - b + 199) div 200 + 1 \<le> (dl - a + 199) div 200"
proof (cases "dl \<le> b")
  case True
  have "200 div 200 \<le> (dl - a + 199) div 200" using assms by (intro div_le_mono) linarith
  with True show ?thesis by simp
next
  case False
  have "(dl - b + 199 + 200) div 200 \<le> (dl - a + 199) div 200"
    using assms False by (intro div_le_mono) linarith
  moreover have "(dl - b + 199 + 200) div 200 = (dl - b + 199) div 200 + 1" by (rule div_add_self2) simp
  ultimately show ?thesis by (simp only:)
qed

lemma await_loop_polled: "fst (await_loop E m dl w) = Inr () \<and> polled m dl w (snd (await_loop E m dl w))"
proof (induction E m dl w rule: await_loop.induct)
  case (1 E m dl w)
  obtain b where b: "path_exists E m w = (Inr b, log (Exists m) (Answer b) w)"
    by (auto simp: path_exists_def Let_def)
  let ?w1 = "log (Exists m) (Answer b) w"
  show ?case
  proof (cases "b \<or> dl \<le> w_now w")
    case True
    then have "await_loop E m dl w = (Inr (), ?w1)"
      using b by (cases b) (simp_all add: await_loop.simps [of E m dl w])
    with True show ?thesis
      by (cases b) (auto simp: polled_def intro!: exI [of _ "[(Exists m, Answer b)]"])
  next
    case False
    let ?w2 = "snd (sleep E READY_POLL_INTERVAL ?w1)"
    have run: "await_loop E m dl w = await_loop E m dl ?w2"
      using b False by (simp add: await_loop.simps [of E m dl w])
    have IH: "fst (await_loop E m dl ?w2) = Inr () \<and> polled m dl ?w2 (snd (await_loop E m dl ?w2))"
      by (rule "1.IH" [OF b [symmetric]]) (use False in auto)
    then obtain es where es: "w_trace (snd (await_loop E m dl ?w2)) = w_trace ?w2 @ es" "es \<noteq> []"
      "last es = (Exists m, Answer True) \<or>
       (last es = (Exists m, Answer False) \<and> dl \<le> w_now (snd (await_loop E m dl ?w2)))"
      "length (filter (is_poll m) es) \<le> (dl - w_now ?w2 + 199) div 200 + 1"
      unfolding polled_def by blast
    have now: "w_now w + 200 \<le> w_now ?w2" by (simp add: sleep_now READY_POLL_INTERVAL_def)
    have "(dl - w_now ?w2 + 199) div 200 + 1 \<le> (dl - w_now w + 199) div 200"
      using now False by (intro poll_step) auto
    with es have "polled m dl w (snd (await_loop E m dl ?w2))"
      unfolding polled_def
      by (intro exI [of _ "(Exists m, Answer b) # (Sleep READY_POLL_INTERVAL, Done) # es"])
        (auto simp: sleep_def)
    with IH run show ?thesis by simp
  qed
qed

section \<open>Gates and children\<close>

text \<open>
  The invariant of the services: a child is the process that a spawn of the service's own
  command started, and where the service is gated its marker was seen before that spawn.
\<close>

definition started_ok :: "event list \<Rightarrow> running_service \<Rightarrow> bool" where
  "started_ok t rn \<longleftrightarrow>
     (case rn_child rn of
        None \<Rightarrow> True
      | Some c \<Rightarrow>
          c < length t \<and>
          t ! c = (Spawn (show_comps (sv_command (rn_spec rn))) (sv_args (rn_spec rn)), Done) \<and>
          (case sv_start_when (rn_spec rn) of
             None \<Rightarrow> True
           | Some m \<Rightarrow> (Exists m, Answer True) \<in> set (take c t)))"

lemma started_ok_append: "started_ok t rn \<Longrightarrow> started_ok (t @ es) rn"
  by (auto simp: started_ok_def nth_append split: option.splits)

lemma spawn_service_ok:
  "spawn_service E s w = (Inr c, w') \<longleftrightarrow>
     env_fault E (w_trace w) (Spawn (show_comps (sv_command s)) (sv_args s)) = None \<and>
     c = length (w_trace w) \<and> w' = log (Spawn (show_comps (sv_command s)) (sv_args s)) Done w"
  by (auto simp: spawn_service_def spawn_def split: option.splits)

lemma path_exists_run:
  "path_exists E p w = (r, w') \<Longrightarrow> \<exists>b. r = Inr b \<and> w' = log (Exists p) (Answer b) w"
  by (auto simp: path_exists_def Let_def)

lemma await_ready_trace: "\<exists>es. w_trace (snd (await_ready E m t w)) = w_trace w @ es"
  using await_loop_polled [of E m "w_now w + t * 1000" w]
  by (auto simp: await_ready_def polled_def)

lemma start_service_gate:
  assumes "start_service E s w = (Inr rn, w')"
  shows "rn_spec rn = s \<and> started_ok (w_trace w') rn \<and> (\<exists>es. w_trace w' = w_trace w @ es)"
proof -
  obtain go w1 where g: "(case sv_start_when s of None \<Rightarrow> io_ret True | Some m \<Rightarrow> path_exists E m) w = (Inr go, w1)"
    and rest: "(if \<not> go then io_ret \<lparr>rn_spec = s, rn_child = None\<rparr>
          else io_bind (spawn_service E s) (\<lambda>child.
            io_then (case sv_ready_when s of None \<Rightarrow> io_ret () | Some m \<Rightarrow> await_ready E m (sv_ready_timeout s))
              (io_ret \<lparr>rn_spec = s, rn_child = Some child\<rparr>))) w1 = (Inr rn, w')"
    using assms unfolding start_service_def by (rule io_bind_InrE)
  have w1: "w_trace w1 = w_trace w @ (case sv_start_when s of None \<Rightarrow> [] | Some m \<Rightarrow> [(Exists m, Answer go)])"
    using g by (auto split: option.splits dest: path_exists_run)
  show ?thesis
  proof (cases go)
    case False
    with rest w1 show ?thesis by (auto simp: started_ok_def)
  next
    case True
    from rest True obtain c w2 u w3 where c: "spawn_service E s w1 = (Inr c, w2)"
      and a: "(case sv_ready_when s of None \<Rightarrow> io_ret () | Some m \<Rightarrow> await_ready E m (sv_ready_timeout s)) w2 = (Inr u, w')"
      and rn: "rn = \<lparr>rn_spec = s, rn_child = Some c\<rparr>"
      by (auto elim!: io_bind_InrE io_then_InrE)
    have w2: "w_trace w2 = w_trace w1 @ [(Spawn (show_comps (sv_command s)) (sv_args s), Done)]"
      "c = length (w_trace w1)" using c by (auto simp: spawn_service_ok)
    have "started_ok (w_trace w2) rn"
      using w1 w2 True by (auto simp: started_ok_def rn split: option.splits)
    moreover obtain es where "w_trace w' = w_trace w2 @ es"
      using a await_ready_trace [of E _ "sv_ready_timeout s" w2] by (cases "sv_ready_when s") (auto simp: prod_eq_iff)
    ultimately show ?thesis using w1 w2(1) rn by (metis append.assoc running_service.select_convs(1) started_ok_append)
  qed
qed

lemma supervise_one_gate:
  assumes "supervise_one E rn w = (Inr rn', w')" and "started_ok (w_trace w) rn"
  shows "rn_spec rn' = rn_spec rn \<and> started_ok (w_trace w') rn' \<and> (\<exists>es. w_trace w' = w_trace w @ es)"
proof (cases "rn_child rn")
  case None
  let ?s = "rn_spec rn"
  obtain go w1 where g: "(case sv_start_when ?s of None \<Rightarrow> io_ret True | Some m \<Rightarrow> path_exists E m) w = (Inr go, w1)"
    and rest: "(if go then io_bind (io_attempt (spawn_service E ?s))
                  (\<lambda>r. case r of Inr child \<Rightarrow> io_ret (rn\<lparr>rn_child := Some child\<rparr>) | Inl _ \<Rightarrow> io_ret rn)
               else io_ret rn) w1 = (Inr rn', w')"
    using assms(1) None unfolding supervise_one_def by (auto elim: io_bind_InrE)
  have w1: "w_trace w1 = w_trace w @ (case sv_start_when ?s of None \<Rightarrow> [] | Some m \<Rightarrow> [(Exists m, Answer go)])"
    using g by (auto split: option.splits dest: path_exists_run)
  show ?thesis
  proof (cases go)
    case False
    with rest w1 None show ?thesis by (auto simp: started_ok_def)
  next
    case True
    obtain q w2 where q: "spawn_service E ?s w1 = (q, w2)" by (cases "spawn_service E ?s w1")
    show ?thesis
    proof (cases q)
      case (Inl e)
      with q have "w_trace w2 = w_trace w1 @ [(Spawn (show_comps (sv_command ?s)) (sv_args ?s), Failed (the (env_fault E (w_trace w1) (Spawn (show_comps (sv_command ?s)) (sv_args ?s)))))]"
        by (auto simp: spawn_service_def spawn_def io_ctx_def split: option.splits)
      moreover have "rn' = rn" "w' = w2"
        using rest True q Inl by (auto simp: io_bind_def io_attempt_def)
      ultimately show ?thesis using w1 None by (auto simp: started_ok_def)
    next
      case (Inr c)
      with q have "w_trace w2 = w_trace w1 @ [(Spawn (show_comps (sv_command ?s)) (sv_args ?s), Done)]"
        "c = length (w_trace w1)" by (auto simp: spawn_service_ok)
      moreover have "rn' = rn\<lparr>rn_child := Some c\<rparr>" "w' = w2"
        using rest True q Inr by (auto simp: io_bind_def io_attempt_def)
      ultimately show ?thesis using w1 True by (auto simp: started_ok_def split: option.splits)
    qed
  qed
next
  case (Some c)
  obtain ex w1 where t: "try_wait E c w = (Inr ex, w1)"
    and rest: "(case ex of None \<Rightarrow> io_ret rn
        | Some status \<Rightarrow> if sv_restart (rn_spec rn) = Always
            then io_bind (spawn_service E (rn_spec rn)) (\<lambda>c. io_ret (rn\<lparr>rn_child := Some c\<rparr>))
            else io_err (Msg (''required service '' @ sv_name (rn_spec rn) @ '' exited''))) w1 = (Inr rn', w')"
    using assms(1) Some unfolding supervise_one_def by (auto elim: io_bind_InrE)
  obtain reply where w1: "w_trace w1 = w_trace w @ [(TryWait c, reply)]"
    using t by (auto simp: try_wait_def split: option.splits)
  show ?thesis
  proof (cases ex)
    case None
    with rest w1 assms(2) show ?thesis by (auto intro: started_ok_append)
  next
    case (Some st)
    with rest obtain c' where c': "spawn_service E (rn_spec rn) w1 = (Inr c', w')"
      and rn': "rn' = rn\<lparr>rn_child := Some c'\<rparr>"
      by (auto elim!: io_bind_InrE split: if_splits)
    have "(Exists m, Answer True) \<in> set (w_trace w)" if "sv_start_when (rn_spec rn) = Some m" for m
      using assms(2) \<open>rn_child rn = Some c\<close> that by (auto simp: started_ok_def dest: in_set_takeD)
    with c' rn' w1 show ?thesis
      by (auto simp: spawn_service_ok started_ok_def nth_append split: option.splits)
  qed
qed

text \<open>A loop over services keeps the invariant if its body does.\<close>

lemma io_map_gate:
  assumes "\<And>x w y w'. A (w_trace w) x \<Longrightarrow> f x w = (Inr y, w') \<Longrightarrow>
      P x y \<and> started_ok (w_trace w') y \<and> (\<exists>es. w_trace w' = w_trace w @ es)"
    and "\<And>t es x. A t x \<Longrightarrow> A (t @ es) x"
    and "list_all (A (w_trace w)) xs" and "io_map xs f w = (Inr ys, w')"
  shows "list_all2 P xs ys \<and> list_all (started_ok (w_trace w')) ys \<and> (\<exists>es. w_trace w' = w_trace w @ es)"
  using assms(3,4)
proof (induction xs arbitrary: w ys)
  case Nil
  then show ?case by simp
next
  case (Cons x xs)
  from Cons.prems(2) obtain y w1 ys' where y: "f x w = (Inr y, w1)"
    and r: "io_map xs f w1 = (Inr ys', w')" and ys: "ys = y # ys'"
    by (auto elim!: io_bind_InrE)
  from assms(1) [OF _ y] Cons.prems(1) obtain es where P: "P x y" "started_ok (w_trace w1) y"
    and es: "w_trace w1 = w_trace w @ es" by auto
  have "list_all (A (w_trace w1)) xs"
    using Cons.prems(1) assms(2) by (auto simp: es list_all_iff)
  from Cons.IH [OF this r] obtain es' where IH: "list_all2 P xs ys'" "list_all (started_ok (w_trace w')) ys'"
    and es': "w_trace w' = w_trace w1 @ es'" by blast
  moreover have "started_ok (w_trace w') y" unfolding es' using P(2) by (rule started_ok_append)
  ultimately show ?case using P(1) es by (simp add: ys)
qed

lemma supervise_gate:
  assumes "supervise E n rs w = (Inr rs', w')" and "list_all (started_ok (w_trace w)) rs"
  shows "map rn_spec rs' = map rn_spec rs \<and> list_all (started_ok (w_trace w')) rs'"
  using assms
proof (induction n arbitrary: rs w)
  case 0
  then show ?case by simp
next
  case (Suc n)
  from Suc.prems(1) obtain rs1 w1 w2 u where m: "io_map rs (supervise_one E) w = (Inr rs1, w1)"
    and sl: "sleep E 1000 w1 = (Inr u, w2)" and rest: "supervise E n rs1 w2 = (Inr rs', w')"
    by (auto simp: supervise_round_def elim!: io_bind_InrE io_then_InrE)
  have "list_all2 (\<lambda>x y. rn_spec y = rn_spec x) rs rs1 \<and> list_all (started_ok (w_trace w1)) rs1 \<and>
      (\<exists>es. w_trace w1 = w_trace w @ es)"
    by (rule io_map_gate [where A = started_ok, OF _ _ Suc.prems(2) m])
      (auto dest: supervise_one_gate intro: started_ok_append)
  then have spec: "map rn_spec rs1 = map rn_spec rs" and ok: "list_all (started_ok (w_trace w1)) rs1"
    by (auto simp: list_all2_conv_all_nth intro!: nth_equalityI)
  have "w_trace w2 = w_trace w1 @ [(Sleep 1000, Done)]" using sl by (auto simp: sleep_def)
  with ok have "list_all (started_ok (w_trace w2)) rs1"
    by (auto simp: list_all_iff intro: started_ok_append)
  from Suc.IH [OF rest this] spec show ?case by simp
qed

section \<open>The trace of the services\<close>

text \<open>All that the services part does: look at markers, spawn, wait and sleep.\<close>

fun service_event :: "event \<Rightarrow> bool" where
  "service_event (Exists p, r) = True"
| "service_event (Spawn p a, r) = True"
| "service_event (TryWait c, r) = True"
| "service_event (Sleep n, r) = True"
| "service_event _ = False"

lemma emits_await_ready [emits_rules]:
  assumes "\<And>b. Q (Exists m, Answer b)" and "Q (Sleep READY_POLL_INTERVAL, Done)"
  shows "emits Q (await_ready E m t)"
proof -
  have "\<exists>es. w_trace (snd (await_loop E m dl w)) = w_trace w @ es \<and> list_all Q es" for dl w
    using assms
  proof (induction E m dl w rule: await_loop.induct)
    case (1 E m dl w)
    obtain b where b: "path_exists E m w = (Inr b, log (Exists m) (Answer b) w)"
      by (auto simp: path_exists_def Let_def)
    show ?case
    proof (cases "b \<or> dl \<le> w_now w")
      case True
      then have "await_loop E m dl w = (Inr (), log (Exists m) (Answer b) w)"
        using b by (cases b) (simp_all add: await_loop.simps [of E m dl w])
      then show ?thesis using "1.prems" by simp
    next
      case False
      let ?w2 = "snd (sleep E READY_POLL_INTERVAL (log (Exists m) (Answer b) w))"
      have "await_loop E m dl w = await_loop E m dl ?w2"
        using b False by (simp add: await_loop.simps [of E m dl w])
      moreover obtain es where "w_trace (snd (await_loop E m dl ?w2)) = w_trace ?w2 @ es" "list_all Q es"
        using "1.IH" [OF b [symmetric]] False "1.prems" by auto
      ultimately show ?thesis
        using "1.prems" by (intro exI [of _ "(Exists m, Answer b) # (Sleep READY_POLL_INTERVAL, Done) # es"])
          (simp add: sleep_def)
    qed
  qed
  then show ?thesis by (simp add: emits_def await_ready_def)
qed

lemma emits_spawn_service [emits_rules]:
  "(\<And>r. Q (Spawn (show_comps (sv_command s)) (sv_args s), r)) \<Longrightarrow> emits Q (spawn_service E s)"
  unfolding spawn_service_def by (intro emits_rules) simp

lemma emits_start_services: "emits service_event (start_services E ss)"
  unfolding start_services_def start_service_def by (intro emits_rules) simp_all

lemma emits_supervise: "emits service_event (supervise E n rs)"
proof (induction n arbitrary: rs)
  case 0
  show ?case by (simp only: supervise.simps emits_ret)
next
  case (Suc n)
  have "emits service_event (supervise_round E rs)"
    unfolding supervise_round_def supervise_one_def by (intro emits_rules) simp_all
  with Suc.IH show ?case by (simp add: emits_bind)
qed

section \<open>Properties\<close>

text \<open>
  C10. The start gate holds for the whole life of \<open>initd\<close>: after \<open>start_services\<close> and any number of
  supervision rounds, the services are those of the configuration in their order, and every
  child is the process started by a spawn of that service's own command; if the service has
  \<open>startWhen\<close>, its marker had been seen to exist before that spawn.
\<close>

theorem gated_start:
  assumes "start_services E ss w = (Inr rs, w1)" and "supervise E n rs w1 = (Inr rs', w2)"
  shows "map rn_spec rs' = ss \<and> list_all (started_ok (w_trace w2)) rs'"
proof -
  have "list_all2 (\<lambda>s rn. rn_spec rn = s) ss rs \<and> list_all (started_ok (w_trace w1)) rs \<and>
      (\<exists>es. w_trace w1 = w_trace w @ es)"
    by (rule io_map_gate [where A = "\<lambda>_ _. True" and f = "start_service E"])
      (use assms(1) start_service_gate in \<open>auto simp: start_services_def list_all_iff\<close>)
  then have "map rn_spec rs = ss" "list_all (started_ok (w_trace w1)) rs"
    by (auto simp: list_all2_conv_all_nth intro!: nth_equalityI)
  with supervise_gate [OF assms(2)] show ?thesis by simp
qed

text \<open>Two services: the daemon that makes a marker, and one gated by it.\<close>

definition sample_services :: "service list" where
  "sample_services =
     [\<lparr>sv_name = ''noded'', sv_command = path_of ''/n'', sv_args = [], sv_restart = Always,
       sv_ready_when = None, sv_ready_timeout = 30, sv_start_when = None\<rparr>,
      \<lparr>sv_name = ''kubelet'', sv_command = path_of ''/k'', sv_args = [], sv_restart = Always,
       sv_ready_when = None, sv_ready_timeout = 30, sv_start_when = Some (path_of ''/m'')\<rparr>]"

text \<open>The marker appears during the first sleep.\<close>

definition marker_env :: env where
  "marker_env = calm\<lparr>env_meanwhile := (\<lambda>t s. add_file (path_of ''/m'') [] 0 s)\<rparr>"

lemma marker_env_sel:
  "env_fault marker_env t o' = None" "env_meanwhile marker_env t s = add_file (path_of ''/m'') [] 0 s"
  "env_exit marker_env t c = None"
  by (simp_all add: marker_env_def calm_def)

lemma sample_boot_run:
  "start_services marker_env sample_services (world_of empty_fs) =
     (Inr [\<lparr>rn_spec = sample_services ! 0, rn_child = Some 0\<rparr>, \<lparr>rn_spec = sample_services ! 1, rn_child = None\<rparr>],
      snd (start_services marker_env sample_services (world_of empty_fs)))"
  "map rn_child (projr (fst (supervise marker_env 2
      [\<lparr>rn_spec = sample_services ! 0, rn_child = Some 0\<rparr>, \<lparr>rn_spec = sample_services ! 1, rn_child = None\<rparr>]
      (snd (start_services marker_env sample_services (world_of empty_fs)))))) = [Some 0, Some 7]"
  "\<not> isl (fst (supervise marker_env 2
      [\<lparr>rn_spec = sample_services ! 0, rn_child = Some 0\<rparr>, \<lparr>rn_spec = sample_services ! 1, rn_child = None\<rparr>]
      (snd (start_services marker_env sample_services (world_of empty_fs)))))"
  by (simp_all add: start_services_def sample_services_def start_service_def spawn_service_def spawn_def
      path_exists_def marker_env_sel world_of_def empty_fs_def cur_def vers_def io_defs Let_def
      numeral_2_eq_2 supervise_round_def supervise_one_def try_wait_def sleep_def add_file_def)

theorem gated_start_witness:
  "(Exists (path_of ''/m''), Answer True) \<in>
     set (take 7 (w_trace (snd (supervise marker_env 2
        [\<lparr>rn_spec = sample_services ! 0, rn_child = Some 0\<rparr>, \<lparr>rn_spec = sample_services ! 1, rn_child = None\<rparr>]
        (snd (start_services marker_env sample_services (world_of empty_fs)))))))"
proof -
  let ?w1 = "snd (start_services marker_env sample_services (world_of empty_fs))"
  let ?rs = "[\<lparr>rn_spec = sample_services ! 0, rn_child = Some 0\<rparr>, \<lparr>rn_spec = sample_services ! 1, rn_child = None\<rparr>]"
  let ?r = "supervise marker_env 2 ?rs ?w1"
  obtain rs' where rs': "?r = (Inr rs', snd ?r)"
    using sample_boot_run(3) by (cases ?r; cases "fst ?r") auto
  then have "map rn_child rs' = [Some 0, Some 7]"
    using sample_boot_run(2) by (metis fst_conv sum.sel(2))
  then obtain a b where ab: "rs' = [a, b]" "rn_child b = Some 7" by (auto simp: map_eq_Cons_conv)
  from gated_start [OF sample_boot_run(1) rs'] have g: "map rn_spec rs' = sample_services"
    "list_all (started_ok (w_trace (snd ?r))) rs'" by blast+
  then have "sv_start_when (rn_spec b) = Some (path_of ''/m'')" "started_ok (w_trace (snd ?r)) b"
    by (auto simp: ab sample_services_def)
  with ab(2) show ?thesis by (simp add: started_ok_def)
qed

text \<open>
  C27. \<open>await_ready\<close> always ends, unless the deadline leaves the clock's range and the addition
  panics. It looks at least once and at most five times per second of the timeout and once
  more, and it returns only when the marker was there at the last look or the timeout has
  passed.
\<close>

theorem await_ready_bounded:
  "(case await_ready E marker timeout w of (r, w') \<Rightarrow>
      if w_now w div 1000 + timeout < 2 ^ 63
      then r = Inr () \<and>
        (\<exists>es. w_trace w' = w_trace w @ es \<and> es \<noteq> [] \<and>
           (last es = (Exists marker, Answer True) \<or>
            last es = (Exists marker, Answer False) \<and> w_now w + timeout * 1000 \<le> w_now w') \<and>
           length (filter (is_poll marker) es) \<le> 5 * timeout + 1)
      else r = Inl (Panic ''overflow when adding duration to instant'') \<and> w' = w)"
proof (cases "w_now w div 1000 + timeout < 2 ^ 63")
  case True
  have "(timeout * 1000 + 199) div 200 = timeout * 5"
    using div_mult_self1 [of 200 199 "timeout * 5"] by (simp add: mult.commute mult.left_commute add.commute)
  with await_loop_polled [of E marker "w_now w + timeout * 1000" w] True show ?thesis
    by (auto simp: await_ready_def polled_def split: prod.splits)
next
  case False
  then show ?thesis by (simp add: await_ready_def)
qed

text \<open>
  What one round does with a started service: a child that still runs is left alone; after
  an exit a service with \<open>restart = always\<close> gets a new child, and any other ends \<open>initd\<close> with an
  error that names it.
\<close>

lemma supervise_restart:
  assumes "rn_child rn = Some c" and "env_fault E (w_trace w) (TryWait c) = None"
    and "supervise_one E rn w = (r, w')"
  shows "(case env_exit E (w_trace w) c of
      None \<Rightarrow> r = Inr rn \<and> w_trace w' = w_trace w @ [(TryWait c, Answer False)]
    | Some st \<Rightarrow>
        (case sv_restart (rn_spec rn) of
           Never \<Rightarrow> r = Inl (Msg (''required service '' @ sv_name (rn_spec rn) @ '' exited'')) \<and>
             w_trace w' = w_trace w @ [(TryWait c, Exited st)]
         | Always \<Rightarrow>
             (\<exists>reply. w_trace w' = w_trace w @ [(TryWait c, Exited st),
                (Spawn (show_comps (sv_command (rn_spec rn))) (sv_args (rn_spec rn)), reply)] \<and>
              (r = Inr (rn\<lparr>rn_child := Some (Suc (length (w_trace w)))\<rparr>) \<and> reply = Done \<or>
               isl r \<and> reply \<noteq> Done))))"
  using assms
  by (auto simp: supervise_one_def try_wait_def spawn_service_def spawn_def io_defs
      split: option.splits restart_policy.splits if_splits)

lemma supervise_restart_example:
  "fst (supervise_one (calm\<lparr>env_exit := (\<lambda>_ _. Some (ExitCode 1))\<rparr>)
      \<lparr>rn_spec = sample_services ! 0, rn_child = Some 0\<rparr> (world_of empty_fs)) =
    Inr \<lparr>rn_spec = sample_services ! 0, rn_child = Some 1\<rparr>"
proof -
  let ?E = "calm\<lparr>env_exit := (\<lambda>_ _. Some (ExitCode 1))\<rparr>"
  let ?rn = "\<lparr>rn_spec = sample_services ! 0, rn_child = Some 0\<rparr>"
  let ?r = "supervise_one ?E ?rn (world_of empty_fs)"
  have "\<not> isl (fst ?r)"
    by (simp add: supervise_one_def try_wait_def spawn_service_def spawn_def io_defs sample_services_def
        calm_def world_of_def)
  with supervise_restart [of ?rn 0 ?E "world_of empty_fs" "fst ?r" "snd ?r"] show ?thesis
    by (simp add: calm_def world_of_def sample_services_def)
qed

text \<open>Rounds add up, and a turn that fails ends its round.\<close>

lemma supervise_add: "supervise E n rs w = (Inr rs', w') \<Longrightarrow> supervise E (n + m) rs w = supervise E m rs' w'"
  by (induction n arbitrary: rs w) (auto simp: io_bind_def split: prod.splits sum.splits)

lemma io_map_fails:
  assumes "io_map xs f w = (Inr ys, w1)" and "f x w1 = (Inl e, w2)"
  shows "io_map (xs @ x # zs) f w = (Inl e, w2)"
  using assms by (induction xs arbitrary: ys w) (auto simp: io_bind_def split: prod.splits sum.splits)

text \<open>
  C35. A single failing respawn ends PID 1. In any round, let the services before this one have had
  their turns; where the service has \<open>restart = always\<close> and its child has exited, and the spawn fails
  this one time, \<open>supervise\<close> returns that error at once: it tries no second spawn, looks at no
  other service and does not go on to another round, although the branch for deferred services says that
  a transient spawn failure must not abort.
\<close>

theorem respawn_failure_aborts:
  assumes "supervise E n rs w = (Inr (before @ rn # after), w1)"
    and "io_map before (supervise_one E) w1 = (Inr before', w2)"
    and "rn_child rn = Some c" and "env_fault E (w_trace w2) (TryWait c) = None"
    and "env_exit E (w_trace w2) c = Some st" and "sv_restart (rn_spec rn) = Always"
    and "env_fault E (w_trace w2 @ [(TryWait c, Exited st)])
      (Spawn (show_comps (sv_command (rn_spec rn))) (sv_args (rn_spec rn))) = Some k"
  shows "\<exists>w3. supervise E (n + Suc rounds) rs w = (Inl (Ctx (''start service '' @ sv_name (rn_spec rn)) (Io k)), w3) \<and>
    w_trace w3 = w_trace w2 @ [(TryWait c, Exited st),
      (Spawn (show_comps (sv_command (rn_spec rn))) (sv_args (rn_spec rn)), Failed k)]"
proof -
  obtain w3 where turn: "supervise_one E rn w2 = (Inl (Ctx (''start service '' @ sv_name (rn_spec rn)) (Io k)), w3)"
    and "w_trace w3 = w_trace w2 @ [(TryWait c, Exited st),
      (Spawn (show_comps (sv_command (rn_spec rn))) (sv_args (rn_spec rn)), Failed k)]"
    using assms(3-7) by (simp add: supervise_one_def try_wait_def spawn_service_def spawn_def io_defs)
  moreover from io_map_fails [OF assms(2) turn] assms(1)
  have "supervise E (n + Suc rounds) rs w = (Inl (Ctx (''start service '' @ sv_name (rn_spec rn)) (Io k)), w3)"
    by (simp add: supervise_add supervise_round_def io_bind_def del: add_Suc_right)
  ultimately show ?thesis by blast
qed

text \<open>
  Two services run; in the second round the second one has exited, and the only spawn that ever fails
  is the one that follows.
\<close>

definition flaky_env :: env where
  "flaky_env = calm\<lparr>env_exit := (\<lambda>t c. if c = 1 \<and> 3 \<le> length t then Some (ExitCode 1) else None),
     env_fault := (\<lambda>t o'. case o' of Spawn _ _ \<Rightarrow> if length t = 5 then Some (OsError 11) else None | _ \<Rightarrow> None)\<rparr>"

lemma flaky_env_sel:
  "env_exit flaky_env t c = (if c = 1 \<and> 3 \<le> length t then Some (ExitCode 1) else None)"
  "env_fault flaky_env t (TryWait c) = None" "env_fault flaky_env t (Sleep ms) = None"
  "env_fault flaky_env t (Spawn p a) = (if length t = 5 then Some (OsError 11) else None)"
  by (simp_all add: flaky_env_def calm_def)

theorem respawn_failure_aborts_witness:
  "\<exists>w3. supervise flaky_env (1 + Suc 9)
      [\<lparr>rn_spec = sample_services ! 0, rn_child = Some 0\<rparr>, \<lparr>rn_spec = sample_services ! 1, rn_child = Some 1\<rparr>] (world_of empty_fs) =
    (Inl (Ctx ''start service kubelet'' (Io (OsError 11))), w3)"
proof -
  let ?a = "\<lparr>rn_spec = sample_services ! 0, rn_child = Some 0\<rparr>" and ?b = "\<lparr>rn_spec = sample_services ! 1, rn_child = Some 1\<rparr>"
  obtain w1 where one: "supervise flaky_env 1 [?a, ?b] (world_of empty_fs) = (Inr ([?a] @ ?b # []), w1)" "length (w_trace w1) = 3"
    by (simp add: supervise_round_def supervise_one_def try_wait_def sleep_def io_defs flaky_env_sel world_of_def)
  obtain w2 where two: "io_map [?a] (supervise_one flaky_env) w1 = (Inr [?a], w2)" "length (w_trace w2) = 4"
    using one(2) by (simp add: supervise_one_def try_wait_def io_defs flaky_env_sel)
  have "env_exit flaky_env (w_trace w2) 1 = Some (ExitCode 1)"
    "env_fault flaky_env (w_trace w2 @ [(TryWait 1, Exited (ExitCode 1))]) (Spawn p a) = Some (OsError 11)" for p a
    by (simp_all add: flaky_env_sel two(2))
  from respawn_failure_aborts [OF one(1) two(1) _ flaky_env_sel(2) this(1) _ this(2), of 9]
  show ?thesis by (auto simp: sample_services_def)
qed

text \<open>
  A deferred service is never fatal and never forgotten: its turn in a round succeeds
  whatever the machine answers, and leaves it with a child exactly if its marker exists (or it
  has none) and the spawn did not fail.
\<close>

lemma deferred_retried:
  assumes "rn_child rn = None"
  shows "(\<exists>rn'. fst (supervise_one E rn w) = Inr rn' \<and> rn_spec rn' = rn_spec rn \<and>
    (let s = rn_spec rn;
         gate = (case sv_start_when s of None \<Rightarrow> []
                 | Some m \<Rightarrow> [(Exists m, Answer (env_fault E (w_trace w) (Exists m) = None \<and> cur (w_fs w) m \<noteq> Absent))]);
         open = (case sv_start_when s of None \<Rightarrow> True
                 | Some m \<Rightarrow> env_fault E (w_trace w) (Exists m) = None \<and> cur (w_fs w) m \<noteq> Absent);
         fault = env_fault E (w_trace w @ gate) (Spawn (show_comps (sv_command s)) (sv_args s))
     in rn_child rn' = (if open \<and> fault = None then Some (length (w_trace w @ gate)) else None)))"
  using assms
  by (auto simp: supervise_one_def path_exists_def spawn_service_def spawn_def io_defs Let_def
      split: option.splits)

lemma deferred_retried_example:
  "map_option rn_child (case fst (supervise_one calm \<lparr>rn_spec = sample_services ! 1, rn_child = None\<rparr>
        (world_of (add_file (path_of ''/m'') [] 0 empty_fs))) of Inr rn \<Rightarrow> Some rn | Inl _ \<Rightarrow> None)
    = Some (Some 1)"
proof -
  let ?rn = "\<lparr>rn_spec = sample_services ! 1, rn_child = None\<rparr>"
  let ?w = "world_of (add_file (path_of ''/m'') [] 0 empty_fs)"
  have "cur (w_fs ?w) (path_of ''/m'') \<noteq> Absent" by (simp add: world_of_def cur_def vers_add_file)
  with deferred_retried [of ?rn calm ?w] show ?thesis
    by (auto simp: sample_services_def calm_def world_of_def Let_def)
qed

end
