(* ===== verification/Initd_Boot.thy ===== *)
theory Initd_Boot
  imports Disk_Safety Initd_Services
begin

text \<open>
  Network interfaces and the boot sequence of \<open>initd\<close> (crates/initd/src/main.rs):
  \<open>sys::interface_up\<close>, \<open>bring_up_interfaces\<close> and \<open>main\<close>, and the order of the boot's effects.
\<close>

section \<open>Interfaces\<close>

definition IFNAMSIZ :: nat where "IFNAMSIZ = 16"
definition IFF_UP :: "16 word" where "IFF_UP = 0x1"
definition IFF_RUNNING :: "16 word" where "IFF_RUNNING = 0x40"

definition get_if_flags :: "env \<Rightarrow> string \<Rightarrow> 16 word cmd" where
  "get_if_flags E name = (\<lambda>w. prim E (GetIfFlags name) (\<lambda>s. Inr (env_flags E (w_trace w) name, s)) w)"

definition interface_up :: "env \<Rightarrow> string \<Rightarrow> unit cmd" where
  "interface_up E name =
     (if IFNAMSIZ \<le> length name then io_err (Msg (''interface name too long: '' @ name))
      else io_then (io_ctx ''socket(AF_INET6)'' (syscall E OpenSocket))
        (io_bind
          (io_attempt
            (io_bind (io_ctx (''SIOCGIFFLAGS '' @ name) (get_if_flags E name)) (\<lambda>flags.
              io_ctx (''SIOCSIFFLAGS '' @ name)
                (syscall E (SetIfFlags name (flags OR (IFF_UP OR IFF_RUNNING)))))))
          (\<lambda>result. io_then (io_ignore (syscall E CloseSocket)) (io_lift result))))"

definition bring_up_interfaces :: "env \<Rightarrow> string list \<Rightarrow> unit cmd" where
  "bring_up_interfaces E names = io_for names (\<lambda>n. io_ignore (interface_up E n))"

lemma iff_bits: "bit IFF_UP k \<longleftrightarrow> k = 0" "bit IFF_RUNNING k \<longleftrightarrow> k = 6"
proof -
  have up: "IFF_UP = 2 ^ 0" and run: "IFF_RUNNING = 2 ^ 6" by (simp_all add: IFF_UP_def IFF_RUNNING_def)
  show "bit IFF_UP k \<longleftrightarrow> k = 0" unfolding up bit_exp_iff by auto
  show "bit IFF_RUNNING k \<longleftrightarrow> k = 6" unfolding run bit_exp_iff by auto
qed

section \<open>The boot\<close>

definition DEFAULT_CONFIG :: string where
  "DEFAULT_CONFIG = ''/etc/nodeos/initd.toml''"

text \<open>
  \<open>main\<close>, with the first argument if there is one and the number of supervision rounds. The
  PID check only logs.
\<close>

definition boot_setup :: "env \<Rightarrow> initd_config \<Rightarrow> unit cmd" where
  "boot_setup E c =
     io_then (create_required_dirs E (ic_required_dirs c))
     (io_then (apply_mounts E (ic_mounts c))
       (apply_disks E (ic_disks c)))"

definition boot_services :: "env \<Rightarrow> nat \<Rightarrow> initd_config \<Rightarrow> running_service list cmd" where
  "boot_services E n c =
     io_then (bring_up_interfaces E (ic_interfaces c))
     (io_bind (start_services E (ic_services c)) (supervise E n))"

definition initd_main :: "toml \<Rightarrow> env \<Rightarrow> string option \<Rightarrow> nat \<Rightarrow> running_service list cmd" where
  "initd_main toml E arg n =
     io_bind (load_initd_config toml E (path_of (case arg of None \<Rightarrow> DEFAULT_CONFIG | Some p \<Rightarrow> p)))
       (\<lambda>c. io_then (boot_setup E c)
         (io_then (remount_root_readonly E) (boot_services E n c)))"

section \<open>The order of effects\<close>

fun is_spawn :: "event \<Rightarrow> bool" where
  "is_spawn (Spawn p a, r) = True"
| "is_spawn _ = False"

text \<open>Once the root is read-only: no mount, no new directory, no formatting.\<close>

definition settled :: "event \<Rightarrow> bool" where
  "settled e \<longleftrightarrow> \<not> is_mount e \<and> \<not> is_mkdir e \<and> harmless e"

definition root_locked :: event where
  "root_locked = (Mount ''none'' [RootDir] ''none'' (MS_REMOUNT OR MS_RDONLY) None, Done)"

lemma emits_interface: "(\<And>o'. o' \<in> {OpenSocket, GetIfFlags n, CloseSocket} \<union> range (SetIfFlags n) \<Longrightarrow> \<forall>r. Q (o', r)) \<Longrightarrow>
  emits Q (interface_up E n)"
proof -
  assume Q: "\<And>o'. o' \<in> {OpenSocket, GetIfFlags n, CloseSocket} \<union> range (SetIfFlags n) \<Longrightarrow> \<forall>r. Q (o', r)"
  have "emits Q (get_if_flags E n)"
    by (rule emits_one [of _ "GetIfFlags n"]) (auto simp: get_if_flags_def prim_def Q split: option.splits)
  then show ?thesis
    unfolding interface_up_def syscall_def by (intro emits_rules) (use Q in auto)
qed

lemma emits_boot_services: "emits settled (boot_services E n c)"
proof -
  have "service_event e \<Longrightarrow> settled e" for e
    by (cases e rule: service_event.cases) (auto simp: settled_def)
  note services = emits_start_services [THEN emits_weaken, OF this] emits_supervise [THEN emits_weaken, OF this]
  have "emits settled (bring_up_interfaces E (ic_interfaces c))"
    unfolding bring_up_interfaces_def by (intro emits_rules emits_interface) (auto simp: settled_def)
  then show ?thesis unfolding boot_services_def by (intro emits_rules services)
qed

lemma emits_disks_no_spawn: "emits (\<lambda>e. \<not> is_spawn e) (apply_disks E ds)"
proof -
  have tpm: "tpm_event e \<Longrightarrow> \<not> is_spawn e" for e by (cases e rule: tpm_event.cases) auto
  note tpm = emits_tpm [THEN emits_weaken, OF tpm]
  have "emits (\<lambda>e. \<not> is_spawn e) (open_encrypted E d l)" for d l
    unfolding open_encrypted_def Let_def ensure_dm_control_def mknod_char_def mknod_def is_luks_def
      unlock_volume_def provision_volume_def provision_steps_def drop_keyfile_def luks_open_def luks_format_def
      format_target_def run_mkfs_def
    by (intro emits_rules tpm) simp_all
  moreover have "emits (\<lambda>e. \<not> is_spawn e) (is_formatted E dev)" for dev
    unfolding is_formatted_def prim_op_defs by (intro emits_rules) simp_all
  ultimately show ?thesis
    unfolding apply_disks_def apply_disk_def disk_source_def format_disk_def run_mkfs_def
    by (intro emits_rules) simp_all
qed

lemma emits_boot_setup: "emits (\<lambda>e. \<not> is_spawn e) (boot_setup E c)"
proof -
  have "is_mkdir e \<Longrightarrow> \<not> is_spawn e" "is_mount e \<or> is_mkdir e \<Longrightarrow> \<not> is_spawn e" for e
    by (cases e rule: is_spawn.cases; simp)+
  then show ?thesis
    unfolding boot_setup_def
    by (intro emits_rules emits_disks_no_spawn
        emits_required_dirs [THEN emits_weaken] emits_apply_mounts [THEN emits_weaken]) blast+
qed

lemma traces_remount:
  "traces (\<lambda>r es. if isl r then list_all (\<lambda>e. \<not> is_spawn e) es else es = [root_locked]) (remount_root_readonly E)"
  by (rule tracesI)
    (auto simp: remount_root_readonly_def mount_fs_def cstring_def mount_call_def prim_def io_defs root_locked_def
      split: option.splits)

section \<open>Properties\<close>

text \<open>
  C16. The order of the boot: in every run of \<open>main\<close>, successful or not and with any number of
  supervision rounds, no service is spawned before the root file system has been remounted
  read-only, and after that nothing is mounted, formatted or created as a directory. A failure
  in any earlier step therefore starts no service.
\<close>

theorem boot_order:
  assumes "initd_main toml E arg n w = (r, w')"
  shows "\<exists>pre post. w_trace w' = w_trace w @ pre @ post \<and> list_all (\<lambda>e. \<not> is_spawn e) pre \<and>
    (post = [] \<or> hd post = root_locked \<and> list_all settled (tl post))"
proof -
  let ?Q = "\<lambda>_ es. \<exists>pre post. es = pre @ post \<and> list_all (\<lambda>e. \<not> is_spawn e) pre \<and>
    (post = [] \<or> hd post = root_locked \<and> list_all settled (tl post))"
  have quiet: "list_all (\<lambda>e. \<not> is_spawn e) es \<Longrightarrow> ?Q r es" for es and r :: "err + running_service list"
    by (intro exI [of _ es] exI [of _ "[]"]) simp
  have more: "list_all (\<lambda>e. \<not> is_spawn e) es1 \<Longrightarrow> ?Q r es2 \<Longrightarrow> ?Q r (es1 @ es2)"
    for es1 es2 and r :: "err + running_service list"
  proof -
    assume "list_all (\<lambda>e. \<not> is_spawn e) es1" and "?Q r es2"
    then obtain pre post where "es2 = pre @ post" "list_all (\<lambda>e. \<not> is_spawn e) pre"
      "post = [] \<or> hd post = root_locked \<and> list_all settled (tl post)" by blast
    with \<open>list_all (\<lambda>e. \<not> is_spawn e) es1\<close> show ?thesis
      by (intro exI [of _ "es1 @ pre"] exI [of _ post]) simp
  qed
  have lock: "traces ?Q (io_then (remount_root_readonly E) (boot_services E n c))" for c
  proof (rule traces_then [OF traces_remount emits_boot_services [unfolded emits_traces]])
    show "\<exists>pre post. es = pre @ post \<and> list_all (\<lambda>e. \<not> is_spawn e) pre \<and>
        (post = [] \<or> hd post = root_locked \<and> list_all settled (tl post))"
      if "if isl (Inl e :: err + unit) then list_all (\<lambda>e. \<not> is_spawn e) es else es = [root_locked]" for e es
      using that by (intro exI [of _ es] exI [of _ "[]"]) simp
    show "\<exists>pre post. es1 @ es2 = pre @ post \<and> list_all (\<lambda>e. \<not> is_spawn e) pre \<and>
        (post = [] \<or> hd post = root_locked \<and> list_all settled (tl post))"
      if "if isl (Inr x :: err + unit) then list_all (\<lambda>e. \<not> is_spawn e) es1 else es1 = [root_locked]"
        "list_all settled es2" for x es1 es2
      using that by (intro exI [of _ "[]"] exI [of _ "root_locked # es2"]) simp
  qed
  have set: "traces ?Q (io_then (boot_setup E c) (io_then (remount_root_readonly E) (boot_services E n c)))" for c
    by (rule traces_then [OF emits_boot_setup [unfolded emits_traces] lock]) (rule quiet more; assumption)+
  have "emits (\<lambda>e. \<not> is_spawn e) (load_initd_config toml E p)" for p
    by (intro emits_rules) simp
  then have "traces ?Q (initd_main toml E arg n)"
    unfolding initd_main_def emits_traces by (rule traces_bind [OF _ set]) (rule quiet more; assumption)+
  from tracesD [OF this assms] obtain es where "w_trace w' = w_trace w @ es" "?Q r es" by metis
  then show ?thesis by auto
qed

text \<open>A boot with the built-in defaults: no mounts, no disks, and the one service \<open>noded\<close>.\<close>

definition default_toml :: toml where
  "default_toml data = Inr \<lparr>rc_required_dirs = Some [], rc_mounts = None, rc_disks = None,
     rc_interfaces = None, rc_services = None\<rparr>"

definition boot_world :: world where
  "boot_world = world_of (add_file (path_of ''/c'') ''x'' 0 empty_fs)"

lemma boot_data: "i_data (fs_inodes (add_file p d m s) (fs_next s)) = d"
  by (simp add: add_file_def)

lemma boot_run: "list_ex is_spawn (w_trace (snd (initd_main default_toml calm (Some ''/c'') 0 boot_world)))"
  by (simp add: initd_main_def load_initd_config_def default_toml_def boot_setup_def boot_services_def
      read_to_string_def prim_def calm_def fs_read_str_def fs_read_def boot_world_def world_of_def cur_def vers_add_file io_defs
      config_of_raw_def create_required_dirs_def apply_mounts_def apply_disks_def remount_root_readonly_def
      mount_fs_def cstring_def mount_call_def bring_up_interfaces_def start_services_def start_service_def
      default_services_def spawn_service_def spawn_def boot_data)

theorem boot_order_witness:
  "root_locked \<in> set (w_trace (snd (initd_main default_toml calm (Some ''/c'') 0 boot_world)))"
proof -
  let ?r = "initd_main default_toml calm (Some ''/c'') 0 boot_world"
  have "w_trace boot_world = []" by (simp add: boot_world_def world_of_def)
  with boot_order [of default_toml calm "Some ''/c''" 0 boot_world "fst ?r" "snd ?r"]
  obtain pre post where t: "w_trace (snd ?r) = pre @ post" "list_all (\<lambda>e. \<not> is_spawn e) pre"
    "post = [] \<or> hd post = root_locked \<and> list_all settled (tl post)" by auto
  with boot_run have "post \<noteq> []" by (auto simp: list_ex_iff list_all_iff)
  with t show ?thesis by (cases post) auto
qed

text \<open>
  \<open>interface_up\<close> turns on \<open>IFF_UP\<close> and \<open>IFF_RUNNING\<close> and keeps every other flag the kernel
  reported; it refuses a name that does not fit \<open>ifreq\<close> before touching anything; and once the
  socket is open, the last thing it does on every path is to close it.
\<close>

lemma interface_up_effect:
  assumes "interface_up E name w = (r, w')"
  shows "(if 16 \<le> length name then isl r \<and> w' = w
          else \<exists>es. w_trace w' = w_trace w @ es \<and>
            (fst (last es) = CloseSocket \<or> isl r \<and> (\<exists>e. es = [(OpenSocket, Failed e)])) \<and>
            (r = Inr () \<longleftrightarrow> (\<exists>fl. map fst es =
                [OpenSocket, GetIfFlags name, SetIfFlags name fl, CloseSocket] \<and>
                snd (es ! 2) = Done \<and> bit fl 0 \<and> bit fl 6 \<and>
                (\<forall>k. k \<noteq> 0 \<and> k \<noteq> 6 \<longrightarrow> bit fl k =
                   bit (env_flags E (w_trace w @ [(OpenSocket, Done)]) name) k))))"
proof (cases "16 \<le> length name")
  case True
  with assms show ?thesis by (auto simp: interface_up_def IFNAMSIZ_def)
next
  case False
  let ?fl = "env_flags E (w_trace w @ [(OpenSocket, Done)]) name"
  show ?thesis
    using assms False
    by (auto simp: interface_up_def IFNAMSIZ_def syscall_def get_if_flags_def prim_def io_defs
        bit_or_iff iff_bits split: option.splits)
qed

lemma interface_up_effect_example:
  "map fst (w_trace (snd (interface_up (calm\<lparr>env_flags := (\<lambda>_ _. 0x1002)\<rparr>) ''eth0'' (world_of empty_fs)))) =
    [OpenSocket, GetIfFlags ''eth0'', SetIfFlags ''eth0'' 0x1043, CloseSocket]"
proof -
  let ?E = "calm\<lparr>env_flags := (\<lambda>_ _. 0x1002)\<rparr>"
  let ?r = "interface_up ?E ''eth0'' (world_of empty_fs)"
  have ok: "fst ?r = Inr ()"
    by (simp add: interface_up_def IFNAMSIZ_def syscall_def get_if_flags_def prim_def io_defs calm_def)
  from interface_up_effect [of ?E "''eth0''" "world_of empty_fs" "fst ?r" "snd ?r"] ok
  obtain fl where ops: "map fst (w_trace (snd ?r)) = [OpenSocket, GetIfFlags ''eth0'', SetIfFlags ''eth0'' fl, CloseSocket]"
    and fl: "bit fl 0" "bit fl 6" "\<And>k. k \<noteq> 0 \<Longrightarrow> k \<noteq> 6 \<Longrightarrow> bit fl k = bit (0x1002 :: 16 word) k"
    by (auto simp: world_of_def)
  have "fl = 0x1002 OR (IFF_UP OR IFF_RUNNING)"
  proof (rule bit_word_eqI)
    fix k
    show "bit fl k = bit (0x1002 OR (IFF_UP OR IFF_RUNNING) :: 16 word) k" if "k < LENGTH(16)"
      using fl by (cases "k = 0 \<or> k = 6") (auto simp: bit_or_iff iff_bits)
  qed
  then have "fl = 0x1043" by (simp add: IFF_UP_def IFF_RUNNING_def)
  with ops show ?thesis by simp
qed

end
