(* ===== verification/Initd_Other.thy ===== *)
theory Initd_Other
  imports Initd_Boot
begin

text \<open>
  \<open>initd\<close> built for another system than Linux (crates/initd/src/main.rs, the second \<open>mod sys\<close>): the
  flags have bits of their own, and every call that needs the kernel is an error. The lemmas show
  that such a build never gets past the remount of the root.
\<close>

section \<open>The stubs\<close>

definition OTHER_NOEXEC :: mflags where "OTHER_NOEXEC = push_bit 0 1"
definition OTHER_NODEV :: mflags where "OTHER_NODEV = push_bit 1 1"
definition OTHER_NOSUID :: mflags where "OTHER_NOSUID = push_bit 2 1"
definition OTHER_RDONLY :: mflags where "OTHER_RDONLY = push_bit 3 1"
definition OTHER_RELATIME :: mflags where "OTHER_RELATIME = push_bit 4 1"
definition OTHER_REMOUNT :: mflags where "OTHER_REMOUNT = push_bit 5 1"

definition other_mount :: "string \<Rightarrow> string \<Rightarrow> string \<Rightarrow> mflags \<Rightarrow> string option \<Rightarrow> unit cmd" where
  "other_mount source target fstype flags data = io_err (Msg ''mount is only supported on Linux'')"

definition other_interface_up :: "string \<Rightarrow> unit cmd" where
  "other_interface_up name = io_err (Msg ''bringing interfaces up is only supported on Linux'')"

definition other_mknod_char :: "string \<Rightarrow> 32 word \<Rightarrow> 32 word \<Rightarrow> unit cmd" where
  "other_mknod_char path major minor = io_err (Msg ''mknod is only supported on Linux'')"

section \<open>Their callers\<close>

definition other_mount_fs :: "string \<Rightarrow> path \<Rightarrow> string \<Rightarrow> mflags \<Rightarrow> string option \<Rightarrow> unit cmd" where
  "other_mount_fs source target fstype flags data =
     io_bind (io_lift (cstring source)) (\<lambda>src.
     io_bind (io_lift (cstring (show_comps target))) (\<lambda>tgt.
     io_bind (io_lift (cstring fstype)) (\<lambda>ty.
     io_bind (case data of
                None \<Rightarrow> io_ret None
              | Some d \<Rightarrow> io_bind (io_lift (cstring d)) (\<lambda>x. io_ret (Some x))) (\<lambda>dt.
     other_mount src tgt ty flags dt))))"

definition other_remount_root_readonly :: "unit cmd" where
  "other_remount_root_readonly =
     io_ctx ''remount root read-only''
       (other_mount_fs ''none'' [RootDir] ''none'' (OTHER_REMOUNT OR OTHER_RDONLY) None)"

definition other_bring_up_interfaces :: "string list \<Rightarrow> unit cmd" where
  "other_bring_up_interfaces names = io_for names (\<lambda>n. io_ignore (other_interface_up n))"

text \<open>The flags are distinct single bits, as on Linux.\<close>

lemma other_flags_distinct:
  "distinct [OTHER_NOEXEC, OTHER_NODEV, OTHER_NOSUID, OTHER_RDONLY, OTHER_RELATIME, OTHER_REMOUNT]"
  by (simp add: OTHER_NOEXEC_def OTHER_NODEV_def OTHER_NOSUID_def OTHER_RDONLY_def OTHER_RELATIME_def OTHER_REMOUNT_def
      push_bit_eq_mult)

lemma other_remount_fails:
  "other_remount_root_readonly w =
     (Inl (Ctx ''remount root read-only'' (Msg ''mount is only supported on Linux'')), w)"
proof -
  have "cstring ''none'' = Inr ''none''" "cstring (show_comps [RootDir]) = Inr ''/''" by (simp_all add: cstring_def)
  then show ?thesis by (simp add: other_remount_root_readonly_def other_mount_fs_def other_mount_def io_defs)
qed

text \<open>
  Whatever precedes the remount, and whatever would follow it: the boot ends in an error, and the
  services are not reached.
\<close>

lemma other_boot_fails:
  "isl (fst (io_then setup (io_then other_remount_root_readonly rest) w)) \<and>
     snd (io_then setup (io_then other_remount_root_readonly rest) w) = snd (setup w)"
  by (cases "setup w"; cases "fst (setup w)") (simp_all add: io_defs other_remount_fails)

lemma other_interfaces_quiet: "other_bring_up_interfaces names w = (Inr (), w)"
  by (induction names) (simp_all add: other_bring_up_interfaces_def other_interface_up_def io_defs)

end
