(* ===== verification/Authorization.thy ===== *)
theory Authorization
  imports Host
begin

text \<open>
  Authorization of the management API (crates/noded/src/main.rs): \<open>Role\<close>,
  \<open>AuthorizationConfig::role_for\<close>, \<open>required_role\<close>, \<open>authorize\<close>, and the client identity taken
  from the peer certificate. Roles are a linear order by their level.
\<close>

section \<open>Roles\<close>

datatype role = Viewer | Operator | Maintainer | Breakglass

fun level :: "role \<Rightarrow> nat" where
  "level Viewer = 1"
| "level Operator = 2"
| "level Maintainer = 3"
| "level Breakglass = 4"

definition satisfies :: "role \<Rightarrow> role \<Rightarrow> bool" where
  "satisfies held required \<longleftrightarrow> level required \<le> level held"

lemma level_inject [simp]: "level r = level q \<longleftrightarrow> r = q"
  by (cases r; cases q) simp_all

instantiation role :: linorder
begin

definition less_eq_role :: "role \<Rightarrow> role \<Rightarrow> bool" where
  "less_eq_role r q \<longleftrightarrow> level r \<le> level q"

definition less_role :: "role \<Rightarrow> role \<Rightarrow> bool" where
  "less_role r q \<longleftrightarrow> level r < level q"

instance
  by standard (auto simp: less_eq_role_def less_role_def)

end

lemma satisfies_le: "satisfies held required \<longleftrightarrow> required \<le> held"
  by (simp add: satisfies_def less_eq_role_def)

record role_binding =
  rb_role :: role
  rb_subjects :: "string list"

type_synonym authorization_config = "role_binding list"

text \<open>\<open>max_by_key\<close>: the last of the elements with the greatest key.\<close>

fun max_by_key :: "('a \<Rightarrow> nat) \<Rightarrow> 'a list \<Rightarrow> 'a option" where
  "max_by_key k [] = None"
| "max_by_key k (x # xs) =
     (case max_by_key k xs of
        None \<Rightarrow> Some x
      | Some y \<Rightarrow> if k x \<le> k y then Some y else Some x)"

definition role_for :: "authorization_config \<Rightarrow> string \<Rightarrow> role option" where
  "role_for bindings common_name =
     max_by_key level
       (map rb_role (filter (\<lambda>b. list_ex (\<lambda>s. s = common_name) (rb_subjects b)) bindings))"

lemma max_by_key_level: "max_by_key level rs = (if rs = [] then None else Some (Max (set rs)))"
  by (induction rs) (auto simp: less_eq_role_def max_def)

section \<open>Requests\<close>

datatype http_method = GET | HEAD | POST | PUT | DELETE | OtherMethod string

record client_identity =
  ci_common_name :: "string option"

record request =
  rq_method :: http_method
  rq_path :: string
  rq_identity :: "client_identity option"
  rq_body :: string

text \<open>A response: its status code and its body, plain text or a value serialised as JSON.\<close>

datatype 'b body = Text string | Json 'b

type_synonym 'b response = "nat \<times> 'b body"

definition required_role :: "http_method \<Rightarrow> string \<Rightarrow> role option" where
  "required_role m p =
     (if m = GET \<and> p = ''/v1/healthz'' then None
      else if m = GET \<and> p = ''/v1/status'' then Some Viewer
      else if m = PUT \<and> p = ''/v1/config'' then Some Operator
      else Some Breakglass)"

text \<open>The subject of a certificate: its attributes as OID and value bytes, in order.\<close>

type_synonym subject = "(string \<times> string) list"

fun subject_common_name :: "subject \<Rightarrow> string option" where
  "subject_common_name [] = None"
| "subject_common_name ((oid, v) # atvs) =
     (if oid = ''2.5.4.3'' \<and> valid_utf8 v then Some v else subject_common_name atvs)"

text \<open>
  The identity of a connection: the chain the peer presented, and the X.509 parser as a
  parameter.
\<close>

definition peer_identity ::
  "(string \<Rightarrow> subject option) \<Rightarrow> string list option \<Rightarrow> client_identity" where
  "peer_identity from_der chain =
     \<lparr>ci_common_name =
        (case chain of
           None \<Rightarrow> None
         | Some [] \<Rightarrow> None
         | Some (der # _) \<Rightarrow>
             (case from_der der of None \<Rightarrow> None | Some s \<Rightarrow> subject_common_name s))\<rparr>"

section \<open>The middleware\<close>

record audit =
  au_id :: "64 word"
  au_subject :: "string option"
  au_method :: http_method
  au_resource :: string
  au_required :: "role option"
  au_granted :: "role option"
  au_allowed :: bool
  au_reason :: string

text \<open>The process: the world, the request counter and the audit log.\<close>

record server =
  sr_world :: world
  sr_next_id :: "64 word"
  sr_audit :: "audit list"

type_synonym 'b handler = "request \<Rightarrow> server \<Rightarrow> 'b response \<times> server"

definition decide :: "role option \<Rightarrow> role option \<Rightarrow> bool \<times> string" where
  "decide required granted =
     (case required of
        None \<Rightarrow> (True, ''no role required'')
      | Some req \<Rightarrow>
          (case granted of
             Some r \<Rightarrow> if satisfies r req then (True, ''authorized'') else (False, ''insufficient role'')
           | None \<Rightarrow> (False, ''no role assigned to subject'')))"

definition granted_role :: "authorization_config \<Rightarrow> request \<Rightarrow> role option" where
  "granted_role az rq =
     (case rq_identity rq of
        None \<Rightarrow> None
      | Some i \<Rightarrow> (case ci_common_name i of None \<Rightarrow> None | Some cn \<Rightarrow> role_for az cn))"

definition authorize :: "authorization_config \<Rightarrow> 'b handler \<Rightarrow> 'b handler" where
  "authorize az next rq s =
     (let granted = granted_role az rq;
          required = required_role (rq_method rq) (rq_path rq);
          (allowed, reason) = decide required granted;
          event = \<lparr>au_id = sr_next_id s,
                   au_subject = (case rq_identity rq of None \<Rightarrow> None | Some i \<Rightarrow> ci_common_name i),
                   au_method = rq_method rq, au_resource = rq_path rq, au_required = required,
                   au_granted = granted, au_allowed = allowed, au_reason = reason\<rparr>;
          s' = s\<lparr>sr_next_id := sr_next_id s + 1, sr_audit := sr_audit s @ [event]\<rparr>
      in if allowed then next rq s' else ((403, Text ''forbidden: insufficient authorization''), s'))"

lemma decide_allow:
  "fst (decide required granted) \<longleftrightarrow>
     (\<forall>req. required = Some req \<longrightarrow> (\<exists>r. granted = Some r \<and> req \<le> r))"
  by (auto simp: decide_def satisfies_le split: option.splits)

lemma authorize_run:
  "authorize az next rq s =
     (if fst (decide (required_role (rq_method rq) (rq_path rq)) (granted_role az rq))
      then next rq (snd (authorize az (\<lambda>_ s. ((403, Text ''forbidden: insufficient authorization''), s)) rq s))
      else ((403, Text ''forbidden: insufficient authorization''),
            snd (authorize az (\<lambda>_ s. ((403, Text ''forbidden: insufficient authorization''), s)) rq s)))"
  by (simp add: authorize_def Let_def split: prod.splits)

section \<open>Properties\<close>

text \<open>
  \<open>role_for\<close> returns the highest role whose binding lists the subject, by exact match, and
  none if no binding does.
\<close>

lemma role_for_highest:
  "(case role_for bindings cn of
      Some r \<Rightarrow> (\<exists>b. b \<in> set bindings \<and> cn \<in> set (rb_subjects b) \<and> rb_role b = r) \<and>
        (\<forall>b \<in> set bindings. cn \<in> set (rb_subjects b) \<longrightarrow> satisfies r (rb_role b))
    | None \<Rightarrow> (\<forall>b \<in> set bindings. cn \<notin> set (rb_subjects b)))"
proof -
  let ?bs = "filter (\<lambda>b. list_ex (\<lambda>s. s = cn) (rb_subjects b)) bindings"
  have in_bs: "b \<in> set ?bs \<longleftrightarrow> b \<in> set bindings \<and> cn \<in> set (rb_subjects b)" for b
    by (auto simp: list_ex_iff)
  show ?thesis
  proof (cases "?bs = []")
    case True
    then have "role_for bindings cn = None" by (simp add: role_for_def max_by_key_level)
    moreover have "cn \<notin> set (rb_subjects b)" if "b \<in> set bindings" for b
      using in_bs [of b] True that by simp
    ultimately show ?thesis by simp
  next
    case False
    let ?R = "rb_role ` set ?bs"
    have r: "role_for bindings cn = Some (Max ?R)"
      using False by (simp add: role_for_def max_by_key_level)
    have "?R \<noteq> {}" using False unfolding image_is_empty set_empty .
    then have "Max ?R \<in> ?R" by (intro Max_in finite_imageI finite_set)
    moreover have "rb_role b \<le> Max ?R" if "b \<in> set ?bs" for b using that by (intro Max_ge) auto
    ultimately show ?thesis using in_bs unfolding r option.case satisfies_le by (metis (no_types, lifting) imageE)
  qed
qed

lemma role_for_highest_example:
  "role_for [\<lparr>rb_role = Operator, rb_subjects = [''ops'']\<rparr>, \<lparr>rb_role = Viewer, rb_subjects = [''ops'', ''ro'']\<rparr>] ''ops''
     = Some Operator \<and> satisfies Operator Viewer"
proof -
  let ?bs = "[\<lparr>rb_role = Operator, rb_subjects = [''ops'']\<rparr>, \<lparr>rb_role = Viewer, rb_subjects = [''ops'', ''ro'']\<rparr>]"
  have r: "role_for ?bs ''ops'' = Some Operator" by code_simp
  with role_for_highest [of ?bs "''ops''"] show ?thesis by simp
qed

text \<open>
  C11. The middleware denies by default: the handler runs exactly if the request is the health
  check or the role bound to the certificate's name satisfies the one required; every other
  request gets 403 and changes nothing. Each request, allowed or not, leaves exactly one audit
  record with the decision, under the next request number.
\<close>

theorem authorize_decides:
  "(let allowed = (required_role (rq_method rq) (rq_path rq) = None \<or>
        (\<exists>i cn r. rq_identity rq = Some i \<and> ci_common_name i = Some cn \<and> role_for az cn = Some r \<and>
           satisfies r (the (required_role (rq_method rq) (rq_path rq)))));
        s' = snd (authorize az (\<lambda>_ s. ((200, Text []), s)) rq s)
    in authorize az next rq s =
         (if allowed then next rq s' else ((403, Text ''forbidden: insufficient authorization''), s')) \<and>
       sr_world s' = sr_world s \<and> sr_next_id s' = sr_next_id s + 1 \<and>
       (\<exists>a. sr_audit s' = sr_audit s @ [a] \<and> au_allowed a = allowed \<and> au_id a = sr_next_id s \<and>
          au_resource a = rq_path rq \<and> au_method a = rq_method rq))"
proof -
  let ?req = "required_role (rq_method rq) (rq_path rq)"
  let ?allowed = "?req = None \<or>
      (\<exists>i cn r. rq_identity rq = Some i \<and> ci_common_name i = Some cn \<and> role_for az cn = Some r \<and>
         satisfies r (the ?req))"
  obtain b reason where d: "decide ?req (granted_role az rq) = (b, reason)"
    by (cases "decide ?req (granted_role az rq)")
  then have "b = fst (decide ?req (granted_role az rq))" by simp
  then have b: "?allowed = b"
    by (cases ?req) (auto simp: decide_def granted_role_def split: option.splits)
  show ?thesis unfolding authorize_def Let_def d prod.case b by (cases b) simp_all
qed

text \<open>
  Only an operator or higher reaches \<open>PUT /v1/config\<close>, only the health check is open to
  every client, and a method or path the table does not know needs breakglass.
\<close>

lemma required_role_table:
  "(required_role m p = None \<longleftrightarrow> m = GET \<and> p = ''/v1/healthz'') \<and>
   (satisfies r (the (required_role PUT ''/v1/config'')) \<longleftrightarrow> r \<in> {Operator, Maintainer, Breakglass}) \<and>
   (required_role m p = Some Breakglass \<longleftrightarrow>
      (m, p) \<notin> {(GET, ''/v1/healthz''), (GET, ''/v1/status''), (PUT, ''/v1/config'')})"
proof -
  have "required_role m p = None \<longleftrightarrow> m = GET \<and> p = ''/v1/healthz''"
    by (simp add: required_role_def)
  moreover have "satisfies r (the (required_role PUT ''/v1/config'')) \<longleftrightarrow> r \<in> {Operator, Maintainer, Breakglass}"
    by (cases r) (simp_all add: required_role_def satisfies_def)
  moreover have "required_role m p = Some Breakglass \<longleftrightarrow>
      (m, p) \<notin> {(GET, ''/v1/healthz''), (GET, ''/v1/status''), (PUT, ''/v1/config'')}"
    by (simp add: required_role_def)
  ultimately show ?thesis by blast
qed

end
