(* ===== verification/Write_Atomic.thy ===== *)
theory Write_Atomic
  imports Host
begin

text \<open>
  \<open>est::write_atomic\<close> (crates/noded/src/est.rs), which every durable file of \<open>noded\<close> goes
  through: write a temporary file beside the target, sync it, rename it over the target, sync
  the directory. The theory gives its model, the facts about every file system state it
  passes through, the interface \<open>file_store\<close> that its callers rely on, and the
  interpretation of that interface by \<open>write_atomic\<close>.
\<close>

section \<open>The model\<close>

definition tmp_name :: "string \<Rightarrow> string" where
  "tmp_name n = ''.'' @ n @ ''.tmp''"

definition write_atomic :: "env \<Rightarrow> path \<Rightarrow> string \<Rightarrow> bool \<Rightarrow> unit cmd" where
  "write_atomic E p d priv =
     (case path_parent p of
        None \<Rightarrow> io_err (Msg (''path has no parent directory: '' @ show_comps p))
      | Some parent \<Rightarrow>
          io_then (io_ctx (''create directory '' @ show_comps parent) (create_dir_all E parent))
          (case path_file_name p of
             None \<Rightarrow> io_err (Msg (''path has no file name: '' @ show_comps p))
           | Some n \<Rightarrow>
               (let tmp = path_join parent (tmp_name n) in
                io_bind
                  (io_ctx (''open temp file '' @ show_comps tmp)
                     (open_trunc E tmp (if priv then 0x180 else 0x1A4)))
                  (\<lambda>file.
                     io_then (io_ctx (''write '' @ show_comps tmp) (write_all E file d))
                     (io_then (io_ctx (''fsync '' @ show_comps tmp) (sync_file E file))
                     (io_then (io_ctx (''rename '' @ show_comps tmp @ '' -> '' @ show_comps p)
                                 (rename E tmp p))
                     (io_bind (io_attempt (open_dir E parent))
                        (\<lambda>dir. case dir of
                                 Inl _ \<Rightarrow> io_ret ()
                               | Inr _ \<Rightarrow> io_ignore (sync_dir E parent)))))))))"

text \<open>The temporary file of a target, and the paths that are some target's temporary file.\<close>

definition tmp_of :: "path \<Rightarrow> path" where
  "tmp_of p = (case path_file_name p of None \<Rightarrow> p | Some n \<Rightarrow> path_join (butlast p) (tmp_name n))"

definition is_tmp :: "path \<Rightarrow> bool" where
  "is_tmp p \<longleftrightarrow>
     (case path_file_name p of None \<Rightarrow> False | Some n \<Rightarrow> starts_with ''.'' n \<and> ends_with ''.tmp'' n)"

lemma is_tmp_tmp_name [simp]: "is_tmp (path_join d (tmp_name n))"
  by (simp add: is_tmp_def tmp_name_def ends_with_def starts_with_iff)

section \<open>How one state relates to an earlier one at a path\<close>

text \<open>
  \<open>agree s t q\<close>: between \<open>s\<close> and \<open>t\<close> the path \<open>q\<close> was left alone. At most a missing
  directory was made there, or old entries became obsolete on disk.
\<close>

definition agree :: "fsys \<Rightarrow> fsys \<Rightarrow> path \<Rightarrow> bool" where
  "agree s t q \<longleftrightarrow>
     (cur t q = cur s q \<or> cur s q = Absent \<and> cur t q = Directory) \<and>
     set (vers t q) \<subseteq> set (vers s q) \<union> (if cur s q = Absent then {Directory} else {}) \<and>
     (\<forall>i. FileAt i \<in> set (vers t q) \<longrightarrow> fs_inodes t i = fs_inodes s i)"

lemma agree_refl [simp]: "agree s s q"
  by (simp add: agree_def)

lemma agree_trans: "agree s t q \<Longrightarrow> agree t u q \<Longrightarrow> agree s u q"
  unfolding agree_def by (auto split: if_splits)

lemma agree_content: "agree s t q \<Longrightarrow> content t q = content s q"
  using cur_in_vers [of t q] by (auto simp: agree_def content_def split: entry.splits)

lemma agree_absent: "agree s t q \<Longrightarrow> Absent \<in> set (vers t q) \<Longrightarrow> Absent \<in> set (vers s q)"
  by (auto simp: agree_def split: if_splits)

lemma entry_survives_cong:
  "(\<And>i. e = FileAt i \<Longrightarrow> fs_inodes t i = fs_inodes s i) \<Longrightarrow> entry_survives t v e = entry_survives s v e"
  by (cases e; cases v) auto

lemma agree_may_hold:
  assumes "agree s t q" and "may_hold t q v"
  shows "may_hold s q v"
proof -
  obtain e where e: "e \<in> set (vers t q)" "entry_survives t v e" using assms(2) by (auto simp: may_hold_def)
  show ?thesis
  proof (cases "e \<in> set (vers s q)")
    case True
    have "entry_survives t v e = entry_survives s v e"
      using e(1) assms(1) by (intro entry_survives_cong) (auto simp: agree_def)
    with True e(2) show ?thesis by (auto simp: may_hold_def)
  next
    case False
    with e assms(1) have "e = Directory" and abs: "cur s q = Absent"
      by (auto simp: agree_def split: if_splits)
    with e have "entry_survives s v Absent" by (cases v) auto
    with abs cur_in_vers [of s q] show ?thesis unfolding may_hold_def by metis
  qed
qed

lemma agree_anchored:
  "(\<And>r. r \<in> set (butlast (path_prefixes q)) \<Longrightarrow> agree s t r) \<Longrightarrow> anchored s q \<Longrightarrow> anchored t q"
  unfolding anchored_def using agree_absent by blast

lemma agree_survives:
  assumes "agree s t q" and "\<And>r. r \<in> set (butlast (path_prefixes q)) \<Longrightarrow> agree s t r"
    and "survives t q v"
  shows "survives s q v"
  using assms(3) agree_may_hold [OF assms(1)] agree_anchored [of q s t] assms(2) by (auto simp: survives_def)

lemma agree_mkdirs: "agree s (mkdirs qs s) q"
  using mkdirs_vers [of qs s q] cur_in_vers [of s q]
  by (auto simp: agree_def cur_def fs_simps)

lemma agree_upd_inode:
  "FileAt i \<notin> set (vers s q) \<Longrightarrow> agree s (upd_inode i f s) q"
  by (auto simp: agree_def fs_simps)

lemma agree_sync_dir: "agree s (fs_sync_dir d s) q"
  using cur_in_vers [of s q] by (auto simp: agree_def fs_simps)

section \<open>Well-formed file systems\<close>

text \<open>
  Every entry names an inode in use, and a temporary file shares its inode with no other
  path. \<open>write_atomic\<close> keeps both, whatever fails.
\<close>

definition refs_used :: "fsys \<Rightarrow> bool" where
  "refs_used s \<longleftrightarrow> (\<forall>p i. FileAt i \<in> set (vers s p) \<longrightarrow> i < fs_next s)"

definition unshared :: "fsys \<Rightarrow> path \<Rightarrow> bool" where
  "unshared s p \<longleftrightarrow> (\<forall>i. cur s p = FileAt i \<longrightarrow> (\<forall>q. q \<noteq> p \<longrightarrow> FileAt i \<notin> set (vers s q)))"

definition wf_fs :: "fsys \<Rightarrow> bool" where
  "wf_fs s \<longleftrightarrow> refs_used s \<and> (\<forall>p. is_tmp p \<longrightarrow> unshared s p)"

lemma wf_empty_fs: "wf_fs empty_fs"
  by (auto simp: wf_fs_def refs_used_def unshared_def empty_fs_def vers_def cur_def)

lemma wf_mkdirs:
  assumes "wf_fs s" shows "wf_fs (mkdirs qs s)"
proof -
  have refs: "FileAt i \<in> set (vers (mkdirs qs s) q) \<longleftrightarrow> FileAt i \<in> set (vers s q)" for i q
    using mkdirs_vers [of qs s q] by auto
  show ?thesis
    using assms by (auto simp: wf_fs_def refs_used_def unshared_def refs fs_simps mkdirs_cur_file)
qed

lemma wf_upd_inode: "wf_fs s \<Longrightarrow> wf_fs (upd_inode i f s)"
  by (simp add: wf_fs_def refs_used_def unshared_def fs_simps)

lemma wf_sync_dir:
  assumes "wf_fs s" shows "wf_fs (fs_sync_dir d s)"
proof -
  have sub: "set (vers (fs_sync_dir d s) q) \<subseteq> set (vers s q)" for q
    using cur_in_vers [of s q] by (auto simp: fs_simps)
  show ?thesis
    using assms subsetD [OF sub] unfolding wf_fs_def refs_used_def unshared_def
    by (simp add: cur_fs_sync_dir inodes_fs_sync_dir) blast
qed

text \<open>Opening the temporary file leaves every other path alone and gives it an inode of its own.\<close>

lemma open_tmp:
  assumes wf: "wf_fs s" and tmp: "is_tmp p" and op: "fs_open_trunc p m s = Inr (i, t)"
  shows "wf_fs t" and "cur t p = FileAt i" and "i_data (fs_inodes t i) = []"
    and "q \<noteq> p \<Longrightarrow> agree s t q" and "unshared t p"
    and "cur s p = Absent \<Longrightarrow> i_mode (fs_inodes t i) = m" and "is_dir s d \<Longrightarrow> is_dir t d"
    and "d \<noteq> p \<Longrightarrow> cur t d = cur s d"
proof -
  have used: "FileAt j \<in> set (vers s r) \<Longrightarrow> j < fs_next s" for j r
    using wf by (auto simp: wf_fs_def refs_used_def)
  have priv: "is_tmp r \<Longrightarrow> unshared s r" for r
    using wf by (simp add: wf_fs_def)
  consider (fresh) "cur s p = Absent" | (old) j where "cur s p = FileAt j"
    using op by (auto simp: fs_open_trunc_def split: option.splits if_splits entry.splits)
  then have "wf_fs t \<and> cur t p = FileAt i \<and> i_data (fs_inodes t i) = [] \<and>
     (q \<noteq> p \<longrightarrow> agree s t q) \<and> unshared t p \<and> (cur s p = Absent \<longrightarrow> i_mode (fs_inodes t i) = m)
     \<and> (is_dir s d \<longrightarrow> is_dir t d) \<and> (d \<noteq> p \<longrightarrow> cur t d = cur s d)"
  proof cases
    case fresh
    let ?n = "fs_next s"
    have i: "i = ?n" and t: "t = set_ent p (FileAt ?n)
        (s\<lparr>fs_inodes := (fs_inodes s)(?n := \<lparr>i_data = [], i_mode = m, i_synced = False\<rparr>), fs_next := Suc ?n\<rparr>)"
      using op fresh by (auto simp: fs_open_trunc_def split: option.splits if_splits)
    have new: "FileAt ?n \<notin> set (vers s r)" for r using used by blast
    have v: "vers t r = (if r = p then FileAt ?n # vers s p else vers s r)" for r
      by (simp add: t fs_simps)
    have c: "cur t r = (if r = p then FileAt ?n else cur s r)" for r
      by (simp add: t fs_simps)
    have "refs_used t"
      using used by (auto simp: refs_used_def v) (auto simp: t fs_simps less_Suc_eq)
    moreover have "unshared t r" if "is_tmp r" for r
      using priv [OF that] new cur_in_vers [of s r]
      by (auto simp: unshared_def v c split: if_splits)
    moreover have "q \<noteq> p \<longrightarrow> agree s t q"
      using new by (auto simp: agree_def v c) (auto simp: t fs_simps)
    moreover have "is_dir s d \<longrightarrow> is_dir t d"
      using fresh by (auto simp: is_dir_def c)
    ultimately show ?thesis
      using tmp i by (auto simp: wf_fs_def c) (auto simp: t fs_simps)
  next
    case old
    then have i: "i = j" and t: "t = upd_inode j (\<lambda>n. n\<lparr>i_data := [], i_synced := False\<rparr>) s"
      using op by (auto simp: fs_open_trunc_def split: option.splits if_splits)
    have "q \<noteq> p \<longrightarrow> agree s t q"
      using priv [OF tmp] old by (auto simp: t unshared_def intro!: agree_upd_inode)
    moreover have "unshared t p"
      using priv [OF tmp] by (simp add: t unshared_def fs_simps)
    ultimately show ?thesis
      using wf old by (auto simp: i t fs_simps is_dir_def intro: wf_upd_inode)
  qed
  then show "wf_fs t" and "cur t p = FileAt i" and "i_data (fs_inodes t i) = []"
    and "q \<noteq> p \<Longrightarrow> agree s t q" and "unshared t p"
    and "cur s p = Absent \<Longrightarrow> i_mode (fs_inodes t i) = m" and "is_dir s d \<Longrightarrow> is_dir t d"
    and "d \<noteq> p \<Longrightarrow> cur t d = cur s d"
    by blast+
qed

lemma rename_tmp:
  assumes wf: "wf_fs s" and tmp: "is_tmp a" and "\<not> is_tmp b" and a: "cur s a = FileAt i"
    and op: "fs_rename a b s = Inr (x, t)"
  shows "wf_fs t" and "vers t b = FileAt i # vers s b" and "fs_inodes t = fs_inodes s"
    and "q \<noteq> a \<Longrightarrow> q \<noteq> b \<Longrightarrow> agree s t q" and "cur t a = Absent"
    and "d \<noteq> a \<Longrightarrow> d \<noteq> b \<Longrightarrow> vers t d = vers s d"
proof -
  have t: "t = set_ent b (FileAt i) (set_ent a Absent s)" and ab: "a \<noteq> b"
    using op a assms(2,3) by (auto simp: fs_rename_def split: if_splits option.splits)
  have v: "vers t r = (if r = b then FileAt i # vers s b else if r = a then Absent # vers s a else vers s r)"
    for r using ab by (simp add: t fs_simps)
  have c: "cur t r = (if r = b then FileAt i else if r = a then Absent else cur s r)" for r
    using ab by (simp add: t fs_simps)
  have used: "FileAt j \<in> set (vers s r) \<Longrightarrow> j < fs_next s" for j r
    using wf by (auto simp: wf_fs_def refs_used_def)
  have priv: "is_tmp r \<Longrightarrow> unshared s r" for r
    using wf by (simp add: wf_fs_def)
  have i_used: "i < fs_next s" using used cur_in_vers [of s a] a by metis
  have next_t: "fs_next t = fs_next s" by (simp add: t fs_simps)
  have "refs_used t"
    unfolding refs_used_def next_t using used i_used by (auto simp: v)
  moreover have "unshared t r" if r: "is_tmp r" for r
    unfolding unshared_def
  proof (intro allI impI)
    fix j q assume cj: "cur t r = FileAt j" and "q \<noteq> r"
    from r assms(3) have "r \<noteq> b" by auto
    with cj have "r \<noteq> a" and rj: "cur s r = FileAt j" by (auto simp: c split: if_splits)
    with priv [OF r] \<open>q \<noteq> r\<close> have "FileAt j \<notin> set (vers s q)" by (auto simp: unshared_def)
    moreover have "j \<noteq> i"
      using priv [OF tmp] a rj \<open>r \<noteq> a\<close> cur_in_vers [of s r] by (auto simp: unshared_def)
    ultimately show "FileAt j \<notin> set (vers t q)" by (auto simp: v)
  qed
  ultimately show "wf_fs t" by (simp add: wf_fs_def)
  show "vers t b = FileAt i # vers s b" by (simp add: v)
  show "fs_inodes t = fs_inodes s" by (simp add: t fs_simps)
  show "q \<noteq> a \<Longrightarrow> q \<noteq> b \<Longrightarrow> agree s t q" by (simp add: agree_def v c t fs_simps)
  show "cur t a = Absent" using ab by (simp add: c)
  show "d \<noteq> a \<Longrightarrow> d \<noteq> b \<Longrightarrow> vers t d = vers s d" by (simp add: v)
qed

section \<open>Every state of a call\<close>

text \<open>
  \<open>installed s t p d\<close>: in \<open>t\<close> the target holds exactly \<open>d\<close>, synced, and the only older
  entries that may be on disk are those of \<open>s\<close>.
\<close>

definition installed :: "fsys \<Rightarrow> fsys \<Rightarrow> path \<Rightarrow> string \<Rightarrow> bool" where
  "installed s t p d \<longleftrightarrow>
     (\<exists>i. cur t p = FileAt i \<and> i_data (fs_inodes t i) = d \<and> i_synced (fs_inodes t i) \<and>
          set (vers t p) \<subseteq> insert (FileAt i) (set (vers s p) \<union> (if cur s p = Absent then {Directory} else {})) \<and>
          (\<forall>j. FileAt j \<in> set (vers t p) \<and> j \<noteq> i \<longrightarrow> fs_inodes t j = fs_inodes s j))"

definition wa_state :: "fsys \<Rightarrow> path \<Rightarrow> string \<Rightarrow> fsys \<Rightarrow> bool" where
  "wa_state s p d t \<longleftrightarrow>
     wf_fs t \<and> (\<forall>q. q \<noteq> p \<and> q \<noteq> tmp_of p \<longrightarrow> agree s t q) \<and> (agree s t p \<or> installed s t p d)"

definition wa_hist :: "world \<Rightarrow> path \<Rightarrow> string \<Rightarrow> world \<Rightarrow> bool" where
  "wa_hist w0 p d w \<longleftrightarrow>
     (\<exists>ts. w_snaps w = w_snaps w0 @ ts \<and> list_all (wa_state (w_fs w0) p d) ts)"

lemma wa_hist_refl: "wa_hist w p d w"
  by (simp add: wa_hist_def)

lemma wa_hist_log [simp]: "wa_hist w0 p d (log o' r w) \<longleftrightarrow> wa_hist w0 p d w"
  by (simp add: wa_hist_def)

lemma wa_hist_put:
  "wa_hist w0 p d w \<Longrightarrow> wa_state (w_fs w0) p d t \<Longrightarrow> wa_hist w0 p d (put_fs t w)"
  by (auto simp: wa_hist_def)

text \<open>The stages of a call: before the temporary file, while it is filled, after the rename.\<close>

definition wa_before :: "world \<Rightarrow> path \<Rightarrow> string \<Rightarrow> world \<Rightarrow> bool" where
  "wa_before w0 p d w \<longleftrightarrow>
     wf_fs (w_fs w) \<and> wa_hist w0 p d w \<and> (\<forall>q. q \<noteq> tmp_of p \<longrightarrow> agree (w_fs w0) (w_fs w) q)"

definition wa_tmp :: "world \<Rightarrow> path \<Rightarrow> string \<Rightarrow> nat \<Rightarrow> (inode \<Rightarrow> bool) \<Rightarrow> world \<Rightarrow> bool" where
  "wa_tmp w0 p d i C w \<longleftrightarrow>
     wa_before w0 p d w \<and> cur (w_fs w) (tmp_of p) = FileAt i \<and> C (fs_inodes (w_fs w) i)"

definition wa_after :: "world \<Rightarrow> path \<Rightarrow> string \<Rightarrow> world \<Rightarrow> bool" where
  "wa_after w0 p d w \<longleftrightarrow>
     wf_fs (w_fs w) \<and> wa_hist w0 p d w \<and> installed (w_fs w0) (w_fs w) p d \<and>
     (\<forall>q. q \<noteq> p \<and> q \<noteq> tmp_of p \<longrightarrow> agree (w_fs w0) (w_fs w) q)"

lemma wa_before_log [simp]: "wa_before w0 p d (log o' r w) \<longleftrightarrow> wa_before w0 p d w"
  by (simp add: wa_before_def)

lemma wa_after_log [simp]: "wa_after w0 p d (log o' r w) \<longleftrightarrow> wa_after w0 p d w"
  by (simp add: wa_after_def)

lemma wa_state_agree:
  "wf_fs t \<Longrightarrow> (\<And>q. q \<noteq> tmp_of p \<Longrightarrow> agree s t q) \<Longrightarrow> p \<noteq> tmp_of p \<Longrightarrow> wa_state s p d t"
  by (auto simp: wa_state_def)

lemma wa_before_put:
  assumes "wa_before w0 p d w" and "p \<noteq> tmp_of p" and "wf_fs t"
    and "\<And>q. q \<noteq> tmp_of p \<Longrightarrow> agree (w_fs w) t q"
  shows "wa_before w0 p d (put_fs t w)"
proof -
  have "q \<noteq> tmp_of p \<Longrightarrow> agree (w_fs w0) t q" for q
    using assms(1,4) by (auto simp: wa_before_def intro: agree_trans)
  with assms show ?thesis
    by (auto simp: wa_before_def intro!: wa_hist_put wa_state_agree)
qed

lemma wa_after_put:
  assumes "wa_after w0 p d w" and "wf_fs t" and "installed (w_fs w0) t p d"
    and "\<And>q. q \<noteq> p \<Longrightarrow> q \<noteq> tmp_of p \<Longrightarrow> agree (w_fs w) t q"
  shows "wa_after w0 p d (put_fs t w)"
proof -
  have "q \<noteq> p \<Longrightarrow> q \<noteq> tmp_of p \<Longrightarrow> agree (w_fs w0) t q" for q
    using assms(1,4) by (auto simp: wa_after_def intro: agree_trans)
  with assms show ?thesis
    by (auto simp: wa_after_def wa_state_def intro!: wa_hist_put)
qed

text \<open>
  A prim that fails leaves the files alone, so a stage that does not read the trace survives
  it; a prim that succeeds needs a look at the file system operation only.
\<close>

lemma triple_prim:
  assumes "\<And>w x s. P w \<Longrightarrow> f (w_fs w) = Inr (x, s) \<Longrightarrow> Q x (log o' Done (put_fs s w))"
    and "\<And>w k. P w \<Longrightarrow> R (Io k) (log o' (Failed k) w)"
  shows "triple P (prim E o' f) Q R"
  by (rule tripleI) (auto simp: prim_Inr assms(1) dest!: prim_Inl intro: assms(2))

lemma installed_sync_dir: "installed s t p d \<Longrightarrow> installed s (fs_sync_dir e t) p d"
  using cur_in_vers [of t p] by (auto simp: installed_def fs_simps)

lemma tmp_of_eq: "path_parent p = Some d \<Longrightarrow> path_file_name p = Some n \<Longrightarrow> tmp_of p = path_join d (tmp_name n)"
  by (auto simp: tmp_of_def dest: path_parent_Some)

lemma tmp_of_facts:
  assumes "path_file_name p = Some n" and "\<not> is_tmp p"
  shows "is_tmp (tmp_of p)" and "p \<noteq> tmp_of p"
proof -
  show "is_tmp (tmp_of p)" using assms(1) by (simp add: tmp_of_def)
  with assms(2) show "p \<noteq> tmp_of p" by metis
qed

text \<open>One triple per statement of \<open>write_atomic\<close>.\<close>

lemma wa_mkdir:
  assumes "p \<noteq> tmp_of p"
  shows "triple (wa_before w0 p d) (create_dir_all E q) (\<lambda>_. wa_before w0 p d) (\<lambda>_. wa_before w0 p d)"
  unfolding create_dir_all_def
proof (rule triple_prim)
  fix w x s
  assume w: "wa_before w0 p d w" and "fs_create_dir_all q (w_fs w) = Inr (x, s)"
  then have s: "s = mkdirs (path_prefixes q) (w_fs w)"
    by (auto simp: fs_create_dir_all_def split: if_splits)
  have "wf_fs s" using w by (simp add: s wa_before_def wf_mkdirs)
  then show "wa_before w0 p d (log (CreateDirAll q) Done (put_fs s w))"
    using wa_before_put [OF w assms] by (simp add: s agree_mkdirs)
qed simp

lemma wa_open:
  assumes "p \<noteq> tmp_of p" and "is_tmp (tmp_of p)"
  shows "triple (wa_before w0 p d) (open_trunc E (tmp_of p) m)
    (\<lambda>i. wa_tmp w0 p d i (\<lambda>n. i_data n = [])) (\<lambda>_. wa_before w0 p d)"
  unfolding open_trunc_def
proof (rule triple_prim)
  fix w i s
  assume w: "wa_before w0 p d w" and op: "fs_open_trunc (tmp_of p) m (w_fs w) = Inr (i, s)"
  have wf: "wf_fs (w_fs w)" using w by (simp add: wa_before_def)
  note o = open_tmp [OF wf assms(2) op]
  show "wa_tmp w0 p d i (\<lambda>n. i_data n = []) (log (OpenTrunc (tmp_of p) m) Done (put_fs s w))"
    using wa_before_put [OF w assms(1) o(1) o(4)] o(2,3) by (simp add: wa_tmp_def)
qed simp

lemma wa_tmp_upd:
  assumes w: "wa_tmp w0 p d i C w" and "p \<noteq> tmp_of p" and tmp: "is_tmp (tmp_of p)"
    and C': "C' (f (fs_inodes (w_fs w) i))"
  shows "wa_tmp w0 p d i C' (put_fs (upd_inode i f (w_fs w)) w)"
proof -
  have b: "wa_before w0 p d w" and c: "cur (w_fs w) (tmp_of p) = FileAt i"
    using w by (simp_all add: wa_tmp_def)
  then have wf: "wf_fs (w_fs w)" by (simp add: wa_before_def)
  then have "q \<noteq> tmp_of p \<Longrightarrow> FileAt i \<notin> set (vers (w_fs w) q)" for q
    using tmp c by (auto simp: wf_fs_def unshared_def)
  then have "wa_before w0 p d (put_fs (upd_inode i f (w_fs w)) w)"
    using wf by (intro wa_before_put [OF b assms(2)] wf_upd_inode agree_upd_inode)
  then show ?thesis using c C' by (simp add: wa_tmp_def fs_simps)
qed

lemma wa_write:
  assumes "p \<noteq> tmp_of p" and "is_tmp (tmp_of p)"
  shows "triple (wa_tmp w0 p d i (\<lambda>n. i_data n = [])) (write_all E i d)
    (\<lambda>_. wa_tmp w0 p d i (\<lambda>n. i_data n = d)) (\<lambda>_. wa_before w0 p d)"
proof (rule tripleI)
  fix w x w'
  assume w: "wa_tmp w0 p d i (\<lambda>n. i_data n = []) w" and "write_all E i d w = (Inr x, w')"
  then have w': "w' = log (WriteAll i d) Done (put_fs (fs_write i d (w_fs w)) w)"
    by (auto simp: write_all_def split: option.splits)
  show "wa_tmp w0 p d i (\<lambda>n. i_data n = d) w'"
    using wa_tmp_upd [OF w assms, where C' = "\<lambda>n. i_data n = d"] w
    unfolding w' by (simp add: fs_write_def wa_tmp_def)
next
  fix w e w'
  assume w: "wa_tmp w0 p d i (\<lambda>n. i_data n = []) w" and "write_all E i d w = (Inl e, w')"
  then obtain k c where w': "w' = log (WriteAll i d) (Failed k) (put_fs (fs_write i c (w_fs w)) w)"
    by (auto simp: write_all_def split: option.splits)
  show "wa_before w0 p d w'"
    using wa_tmp_upd [OF w assms, where C' = "\<lambda>_. True"] unfolding w' by (simp add: fs_write_def wa_tmp_def)
qed

lemma wa_sync:
  assumes "p \<noteq> tmp_of p" and "is_tmp (tmp_of p)"
  shows "triple (wa_tmp w0 p d i (\<lambda>n. i_data n = d)) (sync_file E i)
    (\<lambda>_. wa_tmp w0 p d i (\<lambda>n. i_data n = d \<and> i_synced n)) (\<lambda>_. wa_before w0 p d)"
  unfolding sync_file_def
proof (rule triple_prim)
  fix w x s
  assume w: "wa_tmp w0 p d i (\<lambda>n. i_data n = d) w" and "Inr ((), fs_sync i (w_fs w)) = Inr (x, s)"
  then show "wa_tmp w0 p d i (\<lambda>n. i_data n = d \<and> i_synced n) (log (SyncFile i) Done (put_fs s w))"
    using wa_tmp_upd [OF w assms, where C' = "\<lambda>n. i_data n = d \<and> i_synced n"]
    by (auto simp: fs_sync_def wa_tmp_def)
qed (simp add: wa_tmp_def)

lemma wa_rename:
  assumes "p \<noteq> tmp_of p" and "is_tmp (tmp_of p)" and "\<not> is_tmp p"
  shows "triple (wa_tmp w0 p d i (\<lambda>n. i_data n = d \<and> i_synced n)) (rename E (tmp_of p) p)
    (\<lambda>_. wa_after w0 p d) (\<lambda>_. wa_before w0 p d)"
  unfolding rename_def
proof (rule triple_prim)
  fix w x s
  assume w: "wa_tmp w0 p d i (\<lambda>n. i_data n = d \<and> i_synced n) w"
    and op: "fs_rename (tmp_of p) p (w_fs w) = Inr (x, s)"
  then have b: "wa_before w0 p d w" and wf: "wf_fs (w_fs w)"
    and c: "cur (w_fs w) (tmp_of p) = FileAt i" and ag: "agree (w_fs w0) (w_fs w) p"
    using assms(1) by (simp_all add: wa_tmp_def wa_before_def)
  note r = rename_tmp [OF wf assms(2,3) c op]
  have "cur s p = FileAt i" using r(2) by (simp add: cur_def)
  then have "installed (w_fs w0) s p d"
    using w ag unfolding installed_def by (intro exI [of _ i]) (auto simp: r(2,3) wa_tmp_def agree_def split: if_splits)
  moreover have "q \<noteq> p \<Longrightarrow> q \<noteq> tmp_of p \<Longrightarrow> agree (w_fs w0) s q" for q
    using b r(4) by (auto simp: wa_before_def intro: agree_trans)
  moreover have "wa_hist w0 p d w" using b by (simp add: wa_before_def)
  ultimately show "wa_after w0 p d (log (Rename (tmp_of p) p) Done (put_fs s w))"
    using r(1) by (auto simp: wa_after_def wa_state_def intro!: wa_hist_put)
qed (simp add: wa_tmp_def)

lemma wa_sync_dir:
  "triple (wa_after w0 p d) (sync_dir E q) (\<lambda>_. wa_after w0 p d) (\<lambda>_. wa_after w0 p d)"
  unfolding sync_dir_def
proof (rule triple_prim)
  fix w x s
  assume w: "wa_after w0 p d w" and "Inr ((), fs_sync_dir q (w_fs w)) = Inr (x, s)"
  then have s: "s = fs_sync_dir q (w_fs w)" by simp
  show "wa_after w0 p d (log (SyncDir q) Done (put_fs s w))"
    using w wa_after_put [OF w, of s]
    by (simp add: s wa_after_def wf_sync_dir installed_sync_dir agree_sync_dir)
qed simp

lemma wa_open_dir:
  "triple (wa_after w0 p d) (open_dir E q) (\<lambda>_. wa_after w0 p d) (\<lambda>_. wa_after w0 p d)"
  unfolding open_dir_def
proof (rule triple_prim)
  fix w x s
  assume w: "wa_after w0 p d w" and "(if q \<noteq> [] \<and> is_dir (w_fs w) q then Inr ((), w_fs w) else Inl NotFound) = Inr (x, s)"
  then have s: "s = w_fs w" by (auto split: if_splits)
  show "wa_after w0 p d (log (OpenDir q) Done (put_fs s w))"
    using w wa_after_put [OF w, of s] by (simp add: s wa_after_def)
qed simp

text \<open>The whole call: on success the target is installed, on any error it was left alone.\<close>

lemma triple_option:
  "(x = None \<Longrightarrow> triple P m Q R) \<Longrightarrow> (\<And>y. x = Some y \<Longrightarrow> triple P (f y) Q R) \<Longrightarrow>
     triple P (case x of None \<Rightarrow> m | Some y \<Rightarrow> f y) Q R"
  by (cases x) simp_all

lemma wa_triple:
  assumes "path_file_name p = Some n" and "\<not> is_tmp p"
  shows "triple (wa_before w0 p d) (write_atomic E p d priv)
    (\<lambda>_. wa_after w0 p d) (\<lambda>_. wa_before w0 p d)"
proof -
  obtain d' where d': "path_parent p = Some d'"
    using assms(1) by (auto simp: path_file_name_def path_parent_def split: if_splits component.splits)
  note t = tmp_of_facts [OF assms]
  have tmp: "path_join d' (tmp_name n) = tmp_of p" by (simp add: tmp_of_eq d' assms(1))
  have last: "triple (wa_after w0 p d)
      (io_bind (io_attempt (open_dir E d')) (\<lambda>r. case r of Inl _ \<Rightarrow> io_ret () | Inr _ \<Rightarrow> io_ignore (sync_dir E d')))
      (\<lambda>_. wa_after w0 p d) (\<lambda>_. wa_before w0 p d)"
    by (rule triple_bind [OF triple_attempt [OF wa_open_dir]])
      (auto split: sum.split intro!: triple_ignore wa_sync_dir triple_weaken [OF triple_ret])
  show ?thesis
    unfolding write_atomic_def d' assms(1) option.case Let_def tmp
    apply (rule triple_then, rule triple_ctx, rule wa_mkdir [OF t(2)])
    apply (rule triple_bind, rule triple_ctx, rule wa_open [OF t(2,1)])
    apply (rule triple_then, rule triple_ctx, rule wa_write [OF t(2,1)])
    apply (rule triple_then, rule triple_ctx, rule wa_sync [OF t(2,1)])
    apply (rule triple_then, rule triple_ctx, rule wa_rename [OF t(2,1) assms(2)])
    apply (rule last)
    done
qed

section \<open>What a caller may rely on\<close>

definition is_target :: "path \<Rightarrow> bool" where
  "is_target p \<longleftrightarrow> path_file_name p \<noteq> None \<and> \<not> is_tmp p"

lemma wa_before_start: "wf_fs (w_fs w) \<Longrightarrow> wa_before w p d w"
  by (simp add: wa_before_def wa_hist_refl)

lemma write_atomic_cases:
  assumes "is_target p" and "wf_fs (w_fs w)" and "write_atomic E p d priv w = (r, w')"
  shows "case r of Inl _ \<Rightarrow> wa_before w p d w' | Inr _ \<Rightarrow> wa_after w p d w'"
proof -
  obtain n where "path_file_name p = Some n" and "\<not> is_tmp p"
    using assms(1) by (auto simp: is_target_def)
  from wa_triple [OF this, of w d E priv] wa_before_start [OF assms(2), of p d] assms(3)
  show ?thesis by (auto simp: triple_def split: sum.splits)
qed

lemma is_target_not_tmp: "is_target q \<Longrightarrow> is_target p \<Longrightarrow> q \<noteq> tmp_of p"
  by (auto simp: is_target_def dest: tmp_of_facts)

lemma write_atomic_wf:
  assumes "is_target p" and "wf_fs (w_fs w)"
  shows "wf_fs (w_fs (snd (write_atomic E p d priv w)))"
  using write_atomic_cases [OF assms, of E d priv]
  by (cases "write_atomic E p d priv w") (auto simp: wa_before_def wa_after_def split: sum.splits)

lemma installed_content: "installed s t p d \<Longrightarrow> content t p = Some d"
  by (auto simp: installed_def content_def)

lemma installed_may_hold:
  assumes "installed s t p d" and "may_hold t p v"
  shows "v = Some d \<or> may_hold s p v"
proof -
  obtain i where i: "cur t p = FileAt i" "i_data (fs_inodes t i) = d" "i_synced (fs_inodes t i)"
    and sub: "set (vers t p) \<subseteq> insert (FileAt i) (set (vers s p) \<union> (if cur s p = Absent then {Directory} else {}))"
    and old: "\<And>j. FileAt j \<in> set (vers t p) \<Longrightarrow> j \<noteq> i \<Longrightarrow> fs_inodes t j = fs_inodes s j"
    using assms(1) unfolding installed_def by blast
  obtain e where e: "e \<in> set (vers t p)" "entry_survives t v e" using assms(2) by (auto simp: may_hold_def)
  show ?thesis
  proof (cases "e = FileAt i")
    case True
    with e(2) i show ?thesis by (cases v) auto
  next
    case False
    with e(1) sub consider "e \<in> set (vers s p)" | "e = Directory" "cur s p = Absent"
      by (auto split: if_splits)
    then show ?thesis
    proof cases
      case 1
      have "entry_survives t v e = entry_survives s v e"
        using e(1) False old by (intro entry_survives_cong) auto
      with e(2) 1 show ?thesis unfolding may_hold_def by blast
    next
      case 2
      with e(2) have "entry_survives s v Absent" by (cases v) auto
      with 2 cur_in_vers [of s p] show ?thesis unfolding may_hold_def by metis
    qed
  qed
qed

lemma installed_survives:
  assumes "installed s t p d" and "\<And>q. q \<in> set (butlast (path_prefixes p)) \<Longrightarrow> agree s t q"
    and "survives t p v"
  shows "v = Some d \<or> survives s p v"
  using assms(3) installed_may_hold [OF assms(1)] agree_anchored [of p s t] assms(2) by (auto simp: survives_def)

lemma wa_state_content:
  "wa_state s p d t \<Longrightarrow> content t p = content s p \<or> content t p = Some d"
  by (auto simp: wa_state_def dest: agree_content installed_content)

lemma tmp_of_not_prefix: "path_file_name p = Some n \<Longrightarrow> q \<in> set (butlast (path_prefixes p)) \<Longrightarrow> q \<noteq> tmp_of p \<and> q \<noteq> p"
proof -
  assume n: "path_file_name p = Some n" and q: "q \<in> set (butlast (path_prefixes p))"
  obtain d where p: "p = d @ [Normal n]" using n by (auto simp: path_file_name_Some)
  have "path_prefixes p = path_prefixes d @ [p]"
    by (simp add: p path_prefixes_def)
  with q have "q \<in> set (path_prefixes d)" by simp
  then have "length q \<le> length d" by (auto simp: set_path_prefixes)
  moreover have "length (tmp_of p) = Suc (length d)"
    using n by (simp add: tmp_of_def path_join_def p)
  ultimately show ?thesis by (auto simp: p)
qed

lemma wa_state_survives:
  assumes "is_target p" and "wa_state s p d t" and "survives t p v"
  shows "v = Some d \<or> survives s p v"
proof -
  obtain n where n: "path_file_name p = Some n" using assms(1) by (auto simp: is_target_def)
  have anc: "agree s t q" if "q \<in> set (butlast (path_prefixes p))" for q
    using tmp_of_not_prefix [OF n that] assms(2) by (simp add: wa_state_def)
  from assms(2) consider "agree s t p" | "installed s t p d" by (auto simp: wa_state_def)
  then show ?thesis
    using assms(3) anc agree_survives installed_survives by cases blast+
qed

section \<open>Well-formed file systems with given files\<close>

lemma wf_add_dir: "wf_fs s \<Longrightarrow> wf_fs (add_dir p s)"
  by (auto simp: wf_fs_def refs_used_def unshared_def vers_add_dir cur_def) (auto simp: add_dir_def)

lemma wf_add_dirs: "wf_fs s \<Longrightarrow> wf_fs (add_dirs ps s)"
  by (induction ps arbitrary: s) (simp_all add: wf_add_dir)

lemma wf_add_file:
  assumes "wf_fs s" shows "wf_fs (add_file p d m s)"
proof -
  have used: "FileAt j \<in> set (vers s r) \<Longrightarrow> j < fs_next s" for j r
    using assms by (auto simp: wf_fs_def refs_used_def)
  have next_add: "fs_next (add_file p d m s) = Suc (fs_next s)" by (simp add: add_file_def)
  have new: "FileAt (fs_next s) \<notin> set (vers s r)" for r using used by blast
  have new_cur: "hd (vers s r) \<noteq> FileAt (fs_next s)" for r
    using new [of r] hd_in_set [OF vers_nonempty, of s r] by metis
  have "refs_used (add_file p d m s)"
    unfolding refs_used_def next_add by (auto simp: vers_add_file less_Suc_eq dest: used)
  moreover have "is_tmp r \<longrightarrow> unshared (add_file p d m s) r" for r
    using assms new new_cur
    by (auto simp: wf_fs_def unshared_def vers_add_file cur_def split: if_splits)
  ultimately show ?thesis by (simp add: wf_fs_def)
qed

lemmas wf_samples = wf_empty_fs wf_add_dir wf_add_dirs wf_add_file

end
