(* ===== verification/Durable_Files.thy ===== *)
theory Durable_Files
  imports Write_Atomic
begin

text \<open>
  What the callers of \<open>est::write_atomic\<close> rely on: the interface \<open>file_store\<close>, facts about a
  sequence of writes proved once inside it, its interpretation by \<open>write_atomic\<close>, and the
  crash-safety and durability properties of a single call.
\<close>

section \<open>States passed through\<close>

definition passed :: "world \<Rightarrow> world \<Rightarrow> fsys list" where
  "passed w w' = drop (length (w_snaps w)) (w_snaps w')"

lemma passed_append: "w_snaps w' = w_snaps w @ ts \<Longrightarrow> passed w w' = ts"
  by (simp add: passed_def)

lemma passed_trans:
  "w_snaps w1 = w_snaps w @ ts \<Longrightarrow> w_snaps w2 = w_snaps w1 @ us \<Longrightarrow> passed w w2 = passed w w1 @ passed w1 w2"
  by (simp add: passed_def)

section \<open>The interface: a store of whole files\<close>

text \<open>
  \<open>put p d b\<close> replaces the file at \<open>p\<close> by \<open>d\<close>. It does so entirely or not at all, now and in
  every state on the way, and touches no other target.
\<close>

locale file_store =
  fixes put :: "path \<Rightarrow> string \<Rightarrow> bool \<Rightarrow> unit cmd"
    and target :: "path \<Rightarrow> bool"
    and ok :: "fsys \<Rightarrow> bool"
  assumes put_ok: "target p \<Longrightarrow> ok (w_fs w) \<Longrightarrow> ok (w_fs (snd (put p d b w)))"
    and put_done: "target p \<Longrightarrow> ok (w_fs w) \<Longrightarrow> put p d b w = (Inr x, w') \<Longrightarrow> content (w_fs w') p = Some d"
    and put_fail: "target p \<Longrightarrow> ok (w_fs w) \<Longrightarrow> put p d b w = (Inl e, w') \<Longrightarrow>
        content (w_fs w') p = content (w_fs w) p"
    and put_frame: "target p \<Longrightarrow> target q \<Longrightarrow> q \<noteq> p \<Longrightarrow> ok (w_fs w) \<Longrightarrow>
        content (w_fs (snd (put p d b w))) q = content (w_fs w) q"
    and put_hist: "target p \<Longrightarrow> ok (w_fs w) \<Longrightarrow>
        \<exists>ts. w_snaps (snd (put p d b w)) = w_snaps w @ ts \<and>
             (\<forall>t \<in> set ts. (content t p = content (w_fs w) p \<or> content t p = Some d) \<and>
                (\<forall>q. target q \<longrightarrow> q \<noteq> p \<longrightarrow> content t q = content (w_fs w) q))"

text \<open>Files written one after the other, each with its context message.\<close>

type_synonym put_item = "string \<times> path \<times> string \<times> bool"

fun item_path :: "put_item \<Rightarrow> path" where
  "item_path (c, p, d, b) = p"

fun item_data :: "put_item \<Rightarrow> string" where
  "item_data (c, p, d, b) = d"

fun put_items :: "(path \<Rightarrow> string \<Rightarrow> bool \<Rightarrow> unit cmd) \<Rightarrow> put_item list \<Rightarrow> unit cmd" where
  "put_items put [] = io_ret ()"
| "put_items put ((c, p, d, b) # its) = io_then (io_ctx c (put p d b)) (put_items put its)"

lemma put_items_append:
  "put_items put (xs @ ys) w =
     (case put_items put xs w of (Inl e, w') \<Rightarrow> (Inl e, w') | (Inr _, w') \<Rightarrow> put_items put ys w')"
proof (induction xs arbitrary: w)
  case Nil
  then show ?case by simp
next
  case (Cons x xs)
  obtain c p d b where "x = (c, p, d, b)" by (cases x)
  with Cons show ?case by (auto simp: io_then_def io_bind_def split: prod.splits sum.splits)
qed

text \<open>
  \<open>commit_prefix s its t\<close>: in \<open>t\<close> some first part of the files is new and the rest is as in
  \<open>s\<close>: the writes have happened in order.
\<close>

definition commit_prefix :: "fsys \<Rightarrow> put_item list \<Rightarrow> fsys \<Rightarrow> bool" where
  "commit_prefix s its t \<longleftrightarrow>
     (\<exists>k \<le> length its.
        (\<forall>it \<in> set (take k its). content t (item_path it) = Some (item_data it)) \<and>
        (\<forall>it \<in> set (drop k its). content t (item_path it) = content s (item_path it)))"

lemma commit_prefix_refl: "commit_prefix s its s"
  unfolding commit_prefix_def by (intro exI [of _ 0]) simp

text \<open>The last file changes only when all others are in place.\<close>

lemma commit_prefix_last:
  assumes "commit_prefix s (its @ [z]) t" and "content t (item_path z) \<noteq> content s (item_path z)"
    and "it \<in> set (its @ [z])"
  shows "content t (item_path it) = Some (item_data it)"
proof -
  obtain k where k: "k \<le> length (its @ [z])"
    and new: "\<forall>i \<in> set (take k (its @ [z])). content t (item_path i) = Some (item_data i)"
    and old: "\<forall>i \<in> set (drop k (its @ [z])). content t (item_path i) = content s (item_path i)"
    using assms(1) unfolding commit_prefix_def by blast
  have "k = length (its @ [z])"
  proof (rule ccontr)
    assume "k \<noteq> length (its @ [z])"
    with k have "k \<le> length its" by simp
    then have "z \<in> set (drop k (its @ [z]))" by simp
    with old assms(2) show False by blast
  qed
  with new assms(3) show ?thesis by auto
qed

context file_store
begin

lemma puts_ok:
  assumes "\<forall>it \<in> set its. target (item_path it)" and "ok (w_fs w)"
  shows "ok (w_fs (snd (put_items put its w)))"
  using assms
proof (induction its arbitrary: w)
  case Nil
  then show ?case by simp
next
  case (Cons it its)
  obtain c p d b where it: "it = (c, p, d, b)" by (cases it)
  obtain r w1 where r: "put p d b w = (r, w1)" by (cases "put p d b w")
  have p: "target p" using Cons.prems(1) by (simp add: it)
  then have "ok (w_fs w1)" using put_ok [OF _ Cons.prems(2), of p d b] r by simp
  then show ?case
    using Cons r by (cases r) (auto simp: it io_then_def io_bind_def io_ctx_def)
qed

lemma puts_frame:
  assumes "\<forall>it \<in> set its. target (item_path it)" and "ok (w_fs w)"
    and "target q" and "q \<notin> item_path ` set its"
  shows "content (w_fs (snd (put_items put its w))) q = content (w_fs w) q"
  using assms
proof (induction its arbitrary: w)
  case Nil
  then show ?case by simp
next
  case (Cons it its)
  obtain c p d b where it: "it = (c, p, d, b)" by (cases it)
  obtain r w1 where r: "put p d b w = (r, w1)" by (cases "put p d b w")
  have p: "target p" and q: "q \<noteq> p" using Cons.prems(1,4) by (auto simp: it)
  have "ok (w_fs w1)" using put_ok [OF p Cons.prems(2), of d b] r by simp
  moreover have "content (w_fs w1) q = content (w_fs w) q"
    using put_frame [OF p Cons.prems(3) q Cons.prems(2), of d b] r by simp
  ultimately show ?case
    using Cons r by (cases r) (auto simp: it io_then_def io_bind_def io_ctx_def)
qed

lemma puts_done:
  assumes "\<forall>it \<in> set its. target (item_path it)" and "distinct (map item_path its)"
    and "ok (w_fs w)" and "put_items put its w = (Inr x, w')" and "it \<in> set its"
  shows "content (w_fs w') (item_path it) = Some (item_data it)"
  using assms
proof (induction its arbitrary: w)
  case Nil
  then show ?case by simp
next
  case (Cons it0 its)
  obtain c p d b where it0: "it0 = (c, p, d, b)" by (cases it0)
  from Cons.prems(4) obtain y w1 where w1: "put p d b w = (Inr y, w1)"
    and rest: "put_items put its w1 = (Inr x, w')"
    by (auto simp: it0 elim!: io_then_InrE)
  have p: "target p" using Cons.prems(1) by (simp add: it0)
  have ok1: "ok (w_fs w1)" using put_ok [OF p Cons.prems(3), of d b] w1 by simp
  show ?case
  proof (cases "it \<in> set its")
    case True
    with Cons ok1 rest show ?thesis by simp
  next
    case False
    with Cons.prems(5) have it: "it = it0" by simp
    have "p \<notin> item_path ` set its" using Cons.prems(2) by (simp add: it0)
    moreover have "content (w_fs w1) p = Some d" by (rule put_done [OF p Cons.prems(3) w1])
    ultimately show ?thesis
      using puts_frame [OF _ ok1 p, of its] Cons.prems(1) rest
      by (simp add: it it0)
  qed
qed

lemma commit_prefix_first:
  assumes "content t (item_path it) = content s (item_path it) \<or> content t (item_path it) = Some (item_data it)"
    and "\<forall>i \<in> set its. content t (item_path i) = content s (item_path i)"
  shows "commit_prefix s (it # its) t"
  using assms(1)
proof
  assume "content t (item_path it) = content s (item_path it)"
  with assms(2) show ?thesis unfolding commit_prefix_def by (intro exI [of _ 0]) simp
next
  assume "content t (item_path it) = Some (item_data it)"
  with assms(2) show ?thesis unfolding commit_prefix_def by (intro exI [of _ "Suc 0"]) simp
qed

lemma commit_prefix_Cons:
  assumes "commit_prefix s1 its t" and "content t (item_path it) = Some (item_data it)"
    and "\<forall>i \<in> set its. content s1 (item_path i) = content s (item_path i)"
  shows "commit_prefix s (it # its) t"
proof -
  obtain k where "k \<le> length its"
    and "\<forall>i \<in> set (take k its). content t (item_path i) = Some (item_data i)"
    and "\<forall>i \<in> set (drop k its). content t (item_path i) = content s1 (item_path i)"
    using assms(1) unfolding commit_prefix_def by blast
  with assms(2,3) show ?thesis
    unfolding commit_prefix_def by (intro exI [of _ "Suc k"]) (auto dest: in_set_dropD)
qed

text \<open>Every state passed through is a prefix of the sequence, other targets untouched.\<close>

lemma puts_hist:
  assumes "\<forall>it \<in> set its. target (item_path it)" and "distinct (map item_path its)" and "ok (w_fs w)"
  shows "\<exists>ts. w_snaps (snd (put_items put its w)) = w_snaps w @ ts \<and>
      (\<forall>t \<in> set ts. commit_prefix (w_fs w) its t \<and>
         (\<forall>q. target q \<longrightarrow> q \<notin> item_path ` set its \<longrightarrow> content t q = content (w_fs w) q))"
  using assms
proof (induction its arbitrary: w)
  case Nil
  then show ?case by simp
next
  case (Cons it its)
  obtain c p d b where it: "it = (c, p, d, b)" by (cases it)
  obtain r w1 where r: "put p d b w = (r, w1)" by (cases "put p d b w")
  have p: "target p" and its: "\<forall>i \<in> set its. target (item_path i) \<and> item_path i \<noteq> p"
    and dist: "distinct (map item_path its)"
    using Cons.prems(1,2) by (auto simp: it image_iff)
  obtain ts where ts: "w_snaps w1 = w_snaps w @ ts"
    and tsp: "\<forall>t \<in> set ts. (content t p = content (w_fs w) p \<or> content t p = Some d) \<and>
        (\<forall>q. target q \<longrightarrow> q \<noteq> p \<longrightarrow> content t q = content (w_fs w) q)"
    using put_hist [OF p Cons.prems(3), of d b] r by auto
  have first: "commit_prefix (w_fs w) (it # its) t \<and>
      (\<forall>q. target q \<longrightarrow> q \<notin> item_path ` set (it # its) \<longrightarrow> content t q = content (w_fs w) q)"
    if "t \<in> set ts" for t
    using that tsp its by (intro conjI commit_prefix_first) (auto simp: it)
  show ?case
  proof (cases r)
    case (Inl e)
    then have "put_items put (it # its) w = (Inl (Ctx c e), w1)"
      using r by (simp add: it io_then_def io_bind_def io_ctx_def)
    with ts first show ?thesis by auto
  next
    case (Inr x)
    then have run: "put_items put (it # its) w = put_items put its w1"
      using r by (simp add: it io_then_def io_bind_def io_ctx_def)
    have ok1: "ok (w_fs w1)" using put_ok [OF p Cons.prems(3), of d b] r by simp
    have new: "content (w_fs w1) p = Some d" using put_done [OF p Cons.prems(3)] r Inr by simp
    have old: "target q \<Longrightarrow> q \<noteq> p \<Longrightarrow> content (w_fs w1) q = content (w_fs w) q" for q
      using put_frame [OF p _ _ Cons.prems(3), of q d b] r by simp
    obtain us where us: "w_snaps (snd (put_items put its w1)) = w_snaps w1 @ us"
      and usp: "\<forall>t \<in> set us. commit_prefix (w_fs w1) its t \<and>
         (\<forall>q. target q \<longrightarrow> q \<notin> item_path ` set its \<longrightarrow> content t q = content (w_fs w1) q)"
      using Cons.IH [of w1] its dist ok1 by blast
    have "commit_prefix (w_fs w) (it # its) t \<and>
        (\<forall>q. target q \<longrightarrow> q \<notin> item_path ` set (it # its) \<longrightarrow> content t q = content (w_fs w) q)"
      if t: "t \<in> set us" for t
    proof
      have "p \<notin> item_path ` set its" using its by auto
      then have "content t (item_path it) = Some (item_data it)"
        using usp t p new by (simp add: it)
      then show "commit_prefix (w_fs w) (it # its) t"
        using usp t its old by (intro commit_prefix_Cons [of "w_fs w1"]) auto
      show "\<forall>q. target q \<longrightarrow> q \<notin> item_path ` set (it # its) \<longrightarrow> content t q = content (w_fs w) q"
        using usp t old by (auto simp: it)
    qed
    with first ts us run show ?thesis by auto
  qed
qed

end

section \<open>The interpretation by \<open>write_atomic\<close>\<close>

interpretation wa: file_store "write_atomic E" is_target wf_fs for E
proof (unfold_locales, goal_cases)
  case (1 p w d b)
  then show ?case by (rule write_atomic_wf)
next
  case (2 p w d b x w')
  then show ?case
    using write_atomic_cases [OF 2] by (auto simp: wa_after_def installed_content)
next
  case (3 p w d b e w')
  then have "wa_before w p d w'" using write_atomic_cases [OF 3] by simp
  moreover have "p \<noteq> tmp_of p" using 3(1) by (auto simp: is_target_def dest: tmp_of_facts)
  ultimately show ?case by (simp add: wa_before_def agree_content)
next
  case (4 p q w d b)
  have q: "q \<noteq> tmp_of p" by (rule is_target_not_tmp [OF 4(2,1)])
  obtain r w' where r: "write_atomic E p d b w = (r, w')" by (cases "write_atomic E p d b w")
  from write_atomic_cases [OF 4(1,4) r] q 4(3) have "agree (w_fs w) (w_fs w') q"
    by (auto simp: wa_before_def wa_after_def split: sum.splits)
  with r show ?case by (simp add: agree_content)
next
  case (5 p w d b)
  obtain r w' where r: "write_atomic E p d b w = (r, w')" by (cases "write_atomic E p d b w")
  from write_atomic_cases [OF 5 r] have "wa_hist w p d w'"
    by (auto simp: wa_before_def wa_after_def split: sum.splits)
  then obtain ts where ts: "w_snaps w' = w_snaps w @ ts" "list_all (wa_state (w_fs w) p d) ts"
    by (auto simp: wa_hist_def)
  have "content t q = content (w_fs w) q" if "t \<in> set ts" "is_target q" "q \<noteq> p" for t q
    using ts(2) that is_target_not_tmp [OF that(2) 5(1)]
    by (auto simp: list_all_iff wa_state_def intro!: agree_content)
  with ts r show ?case
    by (auto simp: list_all_iff intro!: exI [of _ ts] dest!: wa_state_content)
qed

section \<open>Durability\<close>

text \<open>What the directory sync achieves, and the mode of a file the call creates.\<close>

lemma triple_true: "triple P m (\<lambda>_ _. True) (\<lambda>_ _. True)"
  by (rule tripleI) simp_all

lemma sync_dir_done:
  assumes "path_parent p = Some d"
  shows "triple P (io_ignore (sync_dir E d))
    (\<lambda>_ w. last (w_trace w) = (SyncDir d, Done) \<longrightarrow> vers (w_fs w) p = [cur (w_fs w) p]) (\<lambda>_ _. True)"
  by (rule triple_ignore, unfold sync_dir_def, rule triple_prim)
    (auto simp: assms fs_simps)

lemma open_dir_fails:
  "triple P (io_attempt (open_dir E d))
    (\<lambda>r w. (\<exists>x. r = Inl x) \<longrightarrow> last (w_trace w) \<noteq> (SyncDir d, Done)) (\<lambda>_ _. True)"
  by (rule triple_attempt, unfold open_dir_def, rule triple_prim) auto

lemma write_atomic_synced:
  assumes "path_file_name p = Some n" and "path_parent p = Some d"
  shows "triple P (write_atomic E p c priv)
    (\<lambda>_ w. last (w_trace w) = (SyncDir d, Done) \<longrightarrow> vers (w_fs w) p = [cur (w_fs w) p]) (\<lambda>_ _. True)"
proof -
  have end_of: "triple P
      (io_bind (io_attempt (open_dir E d)) (\<lambda>r. case r of Inl _ \<Rightarrow> io_ret () | Inr _ \<Rightarrow> io_ignore (sync_dir E d)))
      (\<lambda>_ w. last (w_trace w) = (SyncDir d, Done) \<longrightarrow> vers (w_fs w) p = [cur (w_fs w) p]) (\<lambda>_ _. True)" for P
    by (rule triple_bind [OF open_dir_fails])
      (auto split: sum.split intro!: sync_dir_done assms(2) triple_weaken [OF triple_ret])
  show ?thesis
    unfolding write_atomic_def assms option.case Let_def
    by (rule end_of | rule triple_then, rule triple_true | rule triple_bind, rule triple_true)+
qed

text \<open>An entry stays among those that may be on disk while no sync of its directory succeeds.\<close>

lemma write_atomic_keeps_entry:
  assumes "path_parent p = Some d" and "path_parent q \<noteq> Some d \<or> (\<forall>t. env_fault E t (SyncDir d) \<noteq> None)"
  shows "keeps (\<lambda>w. e \<in> set (vers (w_fs w) q)) (write_atomic E p c priv)"
proof -
  let ?I = "\<lambda>w. e \<in> set (vers (w_fs w) q)"
  have prim: "keeps ?I (prim E o' f)"
    if "\<And>s x t. f s = Inr (x, t) \<Longrightarrow> e \<in> set (vers s q) \<Longrightarrow> e \<in> set (vers t q)"
    for o' and f :: "fsys \<Rightarrow> io_error + 'b \<times> fsys"
    by (rule keepsI) (auto simp: prim_def split: option.splits sum.splits intro: that)
  have mk: "keeps ?I (create_dir_all E r)" for r
    unfolding create_dir_all_def
  proof (rule prim)
    fix s x t
    assume "fs_create_dir_all r s = Inr (x, t)" and "e \<in> set (vers s q)"
    then show "e \<in> set (vers t q)"
      using mkdirs_vers [of "path_prefixes r" s q] by (auto simp: fs_create_dir_all_def split: if_splits)
  qed
  have op: "keeps ?I (open_trunc E r m)" for r m
    unfolding open_trunc_def
    by (rule prim) (auto simp: fs_open_trunc_def fs_simps split: option.splits if_splits entry.splits)
  have rn: "keeps ?I (rename E a b)" for a b
    unfolding rename_def
    by (rule prim) (auto simp: fs_rename_def fs_simps split: option.splits if_splits entry.splits)
  have wr: "keeps ?I (write_all E i x)" for i x
    by (rule keepsI) (simp add: write_all_def fs_simps split: option.split)
  have sy: "keeps ?I (sync_file E i)" for i
    unfolding sync_file_def by (rule prim) (auto simp: fs_simps)
  have od: "keeps ?I (open_dir E r)" for r
    unfolding open_dir_def by (rule prim) (auto split: if_splits)
  have sd: "keeps ?I (sync_dir E d)"
    using assms(2)
  proof
    assume "path_parent q \<noteq> Some d"
    then show ?thesis unfolding sync_dir_def by (intro prim) (auto simp: fs_simps)
  next
    assume "\<forall>t. env_fault E t (SyncDir d) \<noteq> None"
    then have "w_fs (snd (sync_dir E d w)) = w_fs w" for w
      by (auto simp: sync_dir_def prim_def split: option.split dest: spec [of _ "w_trace w"])
    then show ?thesis by (simp add: keeps_def)
  qed
  show ?thesis
    unfolding write_atomic_def assms(1) option.case Let_def
    by (auto split: option.split sum.split intro!: keeps_rules mk op rn wr sy od sd)
qed

lemma write_atomic_file_mode:
  assumes "path_file_name p = Some n" and "path_parent p = Some d" and "\<not> is_tmp p"
  shows "triple (\<lambda>w. cur (w_fs w) (tmp_of p) = Absent) (write_atomic E p c priv)
    (\<lambda>_ w. file_mode (w_fs w) p = Some (if priv then 0x180 else 0x1A4)) (\<lambda>_ _. True)"
proof -
  let ?tmp = "path_join d (tmp_name n)" and ?m = "if priv then 0x180 else 0x1A4 :: nat"
  have tmp: "tmp_of p = ?tmp" by (rule tmp_of_eq [OF assms(2,1)])
  have ne: "p \<noteq> ?tmp" using tmp_of_facts(2) [OF assms(1,3)] tmp by simp
  let ?M = "\<lambda>i w. cur (w_fs w) ?tmp = FileAt i \<and> i_mode (fs_inodes (w_fs w) i) = ?m"
  let ?F = "\<lambda>_ w. file_mode (w_fs w) p = Some ?m"
  have "?tmp \<notin> set (path_prefixes d)"
    by (auto simp: set_path_prefixes path_join_def)
  then have mk: "triple (\<lambda>w. cur (w_fs w) ?tmp = Absent) (create_dir_all E d)
      (\<lambda>_ w. cur (w_fs w) ?tmp = Absent) (\<lambda>_ _. True)"
    unfolding create_dir_all_def
    by (intro triple_prim) (auto simp: fs_create_dir_all_def cur_def mkdirs_other split: if_splits)
  have op: "triple (\<lambda>w. cur (w_fs w) ?tmp = Absent) (open_trunc E ?tmp ?m) ?M (\<lambda>_ _. True)"
    unfolding open_trunc_def
    by (rule triple_prim) (auto simp: fs_open_trunc_def fs_simps split: if_splits)
  have wr: "triple (?M i) (write_all E i c) (\<lambda>_. ?M i) (\<lambda>_ _. True)" for i
    by (rule tripleI) (auto simp: write_all_def fs_simps split: option.splits)
  have sy: "triple (?M i) (sync_file E i) (\<lambda>_. ?M i) (\<lambda>_ _. True)" for i
    unfolding sync_file_def by (rule triple_prim) (auto simp: fs_simps)
  have rn: "triple (?M i) (rename E ?tmp p) ?F (\<lambda>_ _. True)" for i
    unfolding rename_def using ne
    by (intro triple_prim) (auto simp: fs_rename_def file_mode_def fs_simps split: if_splits option.splits)
  have od: "triple (?F ()) (open_dir E d) (\<lambda>_. ?F ()) (\<lambda>_. ?F ())"
    unfolding open_dir_def by (rule triple_prim) (auto split: if_splits)
  have sd: "triple (?F ()) (sync_dir E d) (\<lambda>_. ?F ()) (\<lambda>_. ?F ())"
    unfolding sync_dir_def by (rule triple_prim) (auto simp: file_mode_def fs_simps split: entry.splits)
  have last: "triple (?F ())
      (io_bind (io_attempt (open_dir E d)) (\<lambda>r. case r of Inl _ \<Rightarrow> io_ret () | Inr _ \<Rightarrow> io_ignore (sync_dir E d)))
      ?F (\<lambda>_ _. True)"
  proof (rule triple_bind [OF triple_attempt [OF od]])
    fix r :: "err + unit"
    have "triple (?F ()) (io_ret ()) ?F (\<lambda>_ _. True)" by (simp add: triple_def)
    moreover have "triple (?F ()) (io_ignore (sync_dir E d)) ?F (\<lambda>_ _. True)"
      by (rule triple_ignore, rule sd)
    ultimately show "triple (?F ()) (case r of Inl _ \<Rightarrow> io_ret () | Inr _ \<Rightarrow> io_ignore (sync_dir E d))
        ?F (\<lambda>_ _. True)" by (cases r) (simp_all only: sum.case)
  qed
  show ?thesis
    unfolding write_atomic_def assms(1,2) option.case Let_def tmp
    by (rule last | rule triple_then, rule triple_ctx, (rule mk | rule wr | rule sy | rule rn)
        | rule triple_bind, rule triple_ctx, rule op)+
qed

section \<open>Success\<close>

text \<open>The operations of one call whose failure is an error.\<close>

fun write_op :: "path \<Rightarrow> op \<Rightarrow> bool" where
  "write_op p (CreateDirAll q) \<longleftrightarrow> path_parent p = Some q"
| "write_op p (OpenTrunc q m) \<longleftrightarrow> q = tmp_of p"
| "write_op p (WriteAll i d) \<longleftrightarrow> True"
| "write_op p (SyncFile i) \<longleftrightarrow> True"
| "write_op p (Rename a b) \<longleftrightarrow> b = p"
| "write_op p _ \<longleftrightarrow> False"

text \<open>Nothing stands in the way of the target: no file above it, no directory at it.\<close>

definition clear_way :: "fsys \<Rightarrow> path \<Rightarrow> bool" where
  "clear_way s p \<longleftrightarrow>
     (case path_parent p of None \<Rightarrow> False | Some d \<Rightarrow> \<not> blocked s d) \<and> \<not> is_dir s p \<and>
     (case cur s (tmp_of p) of Absent \<Rightarrow> True | FileAt _ \<Rightarrow> True | _ \<Rightarrow> False)"

lemma triple_prim_sure:
  assumes "\<And>t. env_fault E t o' = None"
    and "\<And>w. P w \<Longrightarrow> \<exists>x s. f (w_fs w) = Inr (x, s) \<and> (\<forall>w'. w_fs w' = s \<longrightarrow> Q x w')"
  shows "triple P (prim E o' f) Q (\<lambda>_ _. False)"
  unfolding triple_def
proof (intro allI impI)
  fix w
  assume "P w"
  from assms(2) [OF this] obtain x s where "f (w_fs w) = Inr (x, s)" "\<forall>w'. w_fs w' = s \<longrightarrow> Q x w'" by blast
  then show "case prim E o' f w of (Inl e, w') \<Rightarrow> False | (Inr x, w') \<Rightarrow> Q x w'"
    by (simp add: prim_def assms(1))
qed

lemma is_dir_cong: "cur t q = cur s q \<Longrightarrow> is_dir t q = is_dir s q"
  by (simp add: is_dir_def)

lemma write_atomic_sure:
  assumes "is_target p" and "path_parent p = Some d" and "\<And>t o'. write_op p o' \<Longrightarrow> env_fault E t o' = None"
  shows "triple (\<lambda>w. clear_way (w_fs w) p) (write_atomic E p c priv) (\<lambda>_ _. True) (\<lambda>_ _. False)"
proof -
  obtain n where n: "path_file_name p = Some n" using assms(1) by (auto simp: is_target_def)
  have tmp: "path_join d (tmp_name n) = tmp_of p" by (simp add: tmp_of_eq [OF assms(2) n])
  have td: "path_parent (tmp_of p) = Some d" unfolding tmp [symmetric] by (simp add: path_parent_def path_join_def)
  have p: "p = path_join d n" by (rule path_split_name [OF n assms(2)])
  have ne: "p \<noteq> tmp_of p" "d \<noteq> tmp_of p"
    using is_target_not_tmp [OF assms(1,1)] by (simp_all add: tmp [symmetric] path_join_def)
  have len: "length (tmp_of p) = Suc (length d)" "length p = Suc (length d)"
    by (simp add: tmp [symmetric] path_join_def) (simp add: p path_join_def)
  let ?B = "\<lambda>s. is_dir s d \<and> \<not> is_dir s p"
  have out: "q \<notin> set (path_prefixes d)" if "length q = Suc (length d)" for q
    using that by (auto simp: set_path_prefixes)
  have mk: "triple (\<lambda>w. clear_way (w_fs w) p) (create_dir_all E d)
      (\<lambda>_ w. ?B (w_fs w) \<and> (case cur (w_fs w) (tmp_of p) of Absent \<Rightarrow> True | FileAt _ \<Rightarrow> True | _ \<Rightarrow> False)) (\<lambda>_ _. False)"
    unfolding create_dir_all_def
  proof (rule triple_prim_sure)
    fix w
    assume c: "clear_way (w_fs w) p"
    then have mk: "fs_create_dir_all d (w_fs w) = Inr ((), mkdirs (path_prefixes d) (w_fs w))"
      by (simp add: clear_way_def assms(2) fs_create_dir_all_def)
    have same: "cur (mkdirs (path_prefixes d) (w_fs w)) (tmp_of p) = cur (w_fs w) (tmp_of p)"
      "cur (mkdirs (path_prefixes d) (w_fs w)) p = cur (w_fs w) p"
      using mkdirs_other [OF out, of "tmp_of p" "w_fs w"] mkdirs_other [OF out, of p "w_fs w"] len
      by (simp_all add: cur_def)
    show "\<exists>x s. fs_create_dir_all d (w_fs w) = Inr (x, s) \<and> (\<forall>w'. w_fs w' = s \<longrightarrow>
        ?B (w_fs w') \<and> (case cur (w_fs w') (tmp_of p) of Absent \<Rightarrow> True | FileAt _ \<Rightarrow> True | _ \<Rightarrow> False))"
      using mk create_dir_all_is_dir [OF mk] c same is_dir_cong [OF same(2)] by (simp add: clear_way_def)
  qed (simp add: assms)
  have op: "triple (\<lambda>w. ?B (w_fs w) \<and> (case cur (w_fs w) (tmp_of p) of Absent \<Rightarrow> True | FileAt _ \<Rightarrow> True | _ \<Rightarrow> False))
      (open_trunc E (tmp_of p) m) (\<lambda>i w. ?B (w_fs w) \<and> cur (w_fs w) (tmp_of p) = FileAt i) (\<lambda>_ _. False)" for m
    unfolding open_trunc_def
    by (rule triple_prim_sure) (use ne td assms(3) in \<open>auto simp: fs_open_trunc_def is_dir_def fs_simps split: entry.splits\<close>)
  have wr: "triple (\<lambda>w. ?B (w_fs w) \<and> cur (w_fs w) (tmp_of p) = FileAt i) (write_all E i c)
      (\<lambda>_ w. ?B (w_fs w) \<and> cur (w_fs w) (tmp_of p) = FileAt i) (\<lambda>_ _. False)" for i
    by (simp add: triple_def write_all_def assms(3) is_dir_def fs_simps)
  have sy: "triple (\<lambda>w. ?B (w_fs w) \<and> cur (w_fs w) (tmp_of p) = FileAt i) (sync_file E i)
      (\<lambda>_ w. ?B (w_fs w) \<and> cur (w_fs w) (tmp_of p) = FileAt i) (\<lambda>_ _. False)" for i
    unfolding sync_file_def by (rule triple_prim_sure) (auto simp: assms(3) is_dir_def fs_simps)
  have rn: "triple (\<lambda>w. ?B (w_fs w) \<and> cur (w_fs w) (tmp_of p) = FileAt i) (rename E (tmp_of p) p)
      (\<lambda>_ _. True) (\<lambda>_ _. False)" for i
    unfolding rename_def by (rule triple_prim_sure) (auto simp: assms(2,3) fs_rename_def)
  have last: "triple (\<lambda>_. True)
      (io_bind (io_attempt (open_dir E d)) (\<lambda>r. case r of Inl _ \<Rightarrow> io_ret () | Inr _ \<Rightarrow> io_ignore (sync_dir E d)))
      (\<lambda>_ _. True) (\<lambda>_ _. False)"
    by (auto simp: triple_def io_bind_def io_attempt_run io_ignore_run split: sum.splits)
  show ?thesis
    unfolding write_atomic_def assms(2) n option.case Let_def tmp
    by (rule last | rule triple_then, rule triple_ctx, (rule mk | rule wr | rule sy | rule rn)
        | rule triple_bind, rule triple_ctx, rule op)+
qed

lemma write_atomic_succeeds:
  assumes "is_target p" and "clear_way (w_fs w) p" and "\<And>t o'. write_op p o' \<Longrightarrow> env_fault E t o' = None"
  shows "fst (write_atomic E p c priv w) = Inr ()"
proof -
  obtain d where "path_parent p = Some d"
    using assms(2) by (auto simp: clear_way_def split: option.splits)
  then have "triple (\<lambda>w. clear_way (w_fs w) p) (write_atomic E p c priv) (\<lambda>_ _. True) (\<lambda>_ _. False)"
    using assms(1,3) by (intro write_atomic_sure)
  with assms(2) show ?thesis
    by (cases "write_atomic E p c priv w"; cases "fst (write_atomic E p c priv w)") (auto simp: triple_def)
qed

section \<open>Properties of one call\<close>

text \<open>A machine with the state directory on disk and one file in it, for the examples.\<close>

definition sample_path :: path where
  "sample_path = path_of ''/pki/server.crt''"

definition sample_fs :: fsys where
  "sample_fs = add_file sample_path ''old'' 0x1A4 (add_dirs (butlast (path_prefixes sample_path)) empty_fs)"

lemma wf_sample_fs: "wf_fs sample_fs"
  by (simp add: sample_fs_def wf_samples)

lemma sample_target: "is_target sample_path"
  by code_simp

text \<open>One call on that machine, run once.\<close>

definition sample_after :: world where
  "sample_after = snd (write_atomic calm sample_path ''new'' True (world_of sample_fs))"

lemma sample_run:
  "case write_atomic calm sample_path ''new'' True (world_of sample_fs) of (r, w') \<Rightarrow>
     r = Inr () \<and> last (w_trace w') = (SyncDir (path_of ''/pki''), Done) \<and>
     anchored (w_fs w') sample_path \<and> 4 < length (passed (world_of sample_fs) w') \<and>
     survives (passed (world_of sample_fs) w' ! 4) sample_path (Some ''old'')"
  by code_simp

lemma sample_facts:
  shows "write_atomic calm sample_path ''new'' True (world_of sample_fs) = (Inr (), sample_after)"
    and "last (w_trace sample_after) = (SyncDir (path_of ''/pki''), Done)"
    and "anchored (w_fs sample_after) sample_path"
    and "4 < length (passed (world_of sample_fs) sample_after)"
    and "survives (passed (world_of sample_fs) sample_after ! 4) sample_path (Some ''old'')"
  using sample_run by (simp_all add: sample_after_def split: prod.splits)

lemma sample_start:
  "wf_fs (w_fs (world_of sample_fs))"
  "content (w_fs (world_of sample_fs)) sample_path = Some ''old''"
  "path_parent sample_path = Some (path_of ''/pki'')"
  "cur (w_fs (world_of sample_fs)) (tmp_of sample_path) = Absent"
  by (simp add: world_of_def wf_sample_fs) code_simp+

text \<open>
  C1. Whatever fails during \<open>write_atomic\<close> and whenever the power goes: in every file system
  state it passes through, the target reads as the old contents or as exactly the new ones,
  and after a crash there it holds the new contents or something it could already have held
  before the call. No partly written file is ever visible or left on disk.
\<close>

theorem write_atomic_crash_safe:
  assumes "is_target p" and "wf_fs (w_fs w)" and "write_atomic E p d priv w = (r, w')"
    and "t \<in> set (passed w w')" and "survives t p v"
  shows "(content t p = content (w_fs w) p \<or> content t p = Some d) \<and>
         (v = Some d \<or> survives (w_fs w) p v)"
proof -
  have "wa_hist w p d w'"
    using write_atomic_cases [OF assms(1-3)] by (auto simp: wa_before_def wa_after_def split: sum.splits)
  then have "wa_state (w_fs w) p d t"
    using assms(4) by (auto simp: wa_hist_def passed_def list_all_iff)
  then show ?thesis
    using wa_state_content wa_state_survives [OF assms(1) _ assms(5)] by blast
qed

theorem write_atomic_crash_safe_witness:
  "(let t = passed (world_of sample_fs) sample_after ! 4
    in survives t sample_path (Some ''old'') \<and>
       (content t sample_path = Some ''old'' \<or> content t sample_path = Some ''new''))"
  using write_atomic_crash_safe [OF sample_target sample_start(1) sample_facts(1)
      nth_mem [OF sample_facts(4)] sample_facts(5)] sample_facts(5) sample_start(2)
  by (simp add: Let_def)

text \<open>
  The outcome of \<open>write_atomic\<close>: on success the target holds exactly the new contents, on
  any error it still holds the old ones; no other target changes, and the temporary files
  stay usable for the next call.
\<close>

lemma write_atomic_outcome:
  assumes "is_target p" and "wf_fs (w_fs w)" and "write_atomic E p d priv w = (r, w')"
    and "is_target q" and "q \<noteq> p"
  shows "content (w_fs w') p = (case r of Inr _ \<Rightarrow> Some d | Inl _ \<Rightarrow> content (w_fs w) p) \<and>
         content (w_fs w') q = content (w_fs w) q \<and> wf_fs (w_fs w')"
  using wa.put_done [OF assms(1,2)] wa.put_fail [OF assms(1,2)] assms(3)
    wa.put_frame [OF assms(1,4,5,2), of E d priv] write_atomic_wf [OF assms(1,2), of E d priv]
  by (cases r) auto

lemma write_atomic_outcome_example:
  "content (w_fs sample_after) sample_path = Some ''new''"
proof -
  have q: "is_target (path_of ''/etc/hosts'')" "path_of ''/etc/hosts'' \<noteq> sample_path"
    by code_simp+
  show ?thesis
    using write_atomic_outcome [OF sample_target sample_start(1) sample_facts(1) q] by simp
qed

text \<open>
  C31. Once \<open>write_atomic\<close> has returned \<open>Ok\<close> with its directory sync done, and the directories
  above the target are themselves on disk, a crash leaves exactly the new contents.
\<close>

theorem write_atomic_durable:
  assumes "is_target p" and "wf_fs (w_fs w)" and "write_atomic E p d priv w = (Inr (), w')"
    and "path_parent p = Some dir" and "last (w_trace w') = (SyncDir dir, Done)"
    and "anchored (w_fs w') p"
  shows "survives (w_fs w') p v \<longleftrightarrow> v = Some d"
proof -
  obtain n where n: "path_file_name p = Some n" using assms(1) by (auto simp: is_target_def)
  have "triple (\<lambda>_. True) (write_atomic E p d priv)
      (\<lambda>_ w. last (w_trace w) = (SyncDir dir, Done) \<longrightarrow> vers (w_fs w) p = [cur (w_fs w) p]) (\<lambda>_ _. True)"
    by (rule write_atomic_synced [OF n assms(4)])
  from tripleD_Inr [OF this _ assms(3)] assms(5) have v: "vers (w_fs w') p = [cur (w_fs w') p]"
    by simp
  have "installed (w_fs w) (w_fs w') p d"
    using write_atomic_cases [OF assms(1-3)] by (simp add: wa_after_def)
  with v assms(6) show ?thesis
    by (cases v) (auto simp: survives_def may_hold_def installed_def)
qed

theorem write_atomic_durable_witness:
  "survives (w_fs sample_after) sample_path (Some ''new'')"
  using write_atomic_durable [OF sample_target sample_start(1) sample_facts(1) sample_start(3)
      sample_facts(2,3)] by simp

text \<open>
  A limit of the durability claim: where \<open>write_atomic\<close> itself creates the target's
  directory, that directory's own entry is never synced, so even after \<open>Ok\<close> with the
  directory sync done a crash may leave no file at all (the first enrollment creates
  \<open>/var/lib/nodeos/pki\<close> this way).
\<close>

lemma write_atomic_new_dir_lost:
  assumes "is_target p" and "path_parent p = Some d" and "d \<noteq> [RootDir]" and "d \<noteq> []"
    and "cur (w_fs w) d = Absent" and "write_atomic E p c priv w = (Inr (), w')"
  shows "survives (w_fs w') p None"
proof -
  obtain n where n: "path_file_name p = Some n" using assms(1) by (auto simp: is_target_def)
  have p: "p = path_join d n" by (rule path_split_name [OF n assms(2)])
  have "path_parent d \<noteq> Some d" using path_parent_shorter by blast
  then have "keeps (\<lambda>w. Absent \<in> set (vers (w_fs w) d)) (write_atomic E p c priv)"
    by (intro write_atomic_keeps_entry [OF assms(2)]) simp
  moreover have "Absent \<in> set (vers (w_fs w) d)" using cur_in_vers [of "w_fs w" d] assms(5) by simp
  ultimately have gap: "Absent \<in> set (vers (w_fs w') d)" using assms(6) by (rule keepsD)
  have "path_prefixes p = path_prefixes d @ [p]" by (simp add: p path_prefixes_def path_join_def)
  then have "d \<in> set (butlast (path_prefixes p))" using assms(4) by (simp add: set_path_prefixes)
  with gap assms(3) show ?thesis by (auto simp: survives_def anchored_def)
qed

lemma write_atomic_new_dir_lost_example:
  "(let r = write_atomic calm sample_path ''cert'' False (world_of empty_fs)
    in last (w_trace (snd r)) = (SyncDir (path_of ''/pki''), Done) \<and>
       content (w_fs (snd r)) sample_path = Some ''cert'' \<and> survives (w_fs (snd r)) sample_path None)"
proof -
  let ?r = "write_atomic calm sample_path ''cert'' False (world_of empty_fs)"
  let ?d = "path_of ''/pki''"
  have run: "case ?r of (r, w') \<Rightarrow> r = Inr () \<and> last (w_trace w') = (SyncDir ?d, Done) \<and>
      content (w_fs w') sample_path = Some ''cert''"
    by code_simp
  then have r: "?r = (Inr (), snd ?r)" by (auto split: prod.splits)
  have ne: "?d \<noteq> [RootDir]" "?d \<noteq> []" "cur (w_fs (world_of empty_fs)) ?d = Absent"
    by code_simp+
  show ?thesis
    using write_atomic_new_dir_lost [OF sample_target sample_start(3) ne r] run
    by (simp add: Let_def split: prod.splits)
qed

text \<open>
  A file that \<open>write_atomic\<close> creates as private (key material) has mode 0600, any other
  0644, provided no temporary file was left over from an earlier call.
\<close>

lemma write_atomic_mode:
  assumes "is_target p" and "path_parent p = Some dir" and "cur (w_fs w) (tmp_of p) = Absent"
    and "write_atomic E p d priv w = (Inr (), w')"
  shows "file_mode (w_fs w') p = Some (if priv then 0x180 else 0x1A4)"
proof -
  obtain n where "path_file_name p = Some n" and "\<not> is_tmp p"
    using assms(1) by (auto simp: is_target_def)
  then show ?thesis
    using tripleD_Inr [OF write_atomic_file_mode, OF _ assms(2) _ _ assms(4)] assms(3) by blast
qed

lemma write_atomic_mode_example:
  "file_mode (w_fs sample_after) sample_path = Some 0x180"
  using write_atomic_mode [OF sample_target sample_start(3,4) sample_facts(1)] by simp

end
