(* ===== verification/Rust_Net.thy ===== *)
theory Rust_Net
  imports Rust_Str
begin

text \<open>
  The IP address parser of \<open>core::net\<close> (\<open>FromStr\<close> of \<open>Ipv6Addr\<close> and \<open>IpAddr\<close>), which the
  validation of a node intent calls. A reader takes the bytes left and returns a value and
  the bytes left after it; \<open>None\<close> leaves the caller where it was (\<open>read_atomically\<close>).
  An address parses when the reader consumes the whole string.
\<close>

section \<open>Readers\<close>

definition to_digit :: "nat \<Rightarrow> char \<Rightarrow> nat option" where
  "to_digit radix c =
     (let v = (if is_digit c then Some (byte c - 48)
               else if is_lower c then Some (byte c - 87)
               else if is_upper c then Some (byte c - 55) else None)
      in case v of None \<Rightarrow> None | Some d \<Rightarrow> if d < radix then Some d else None)"

fun read_given :: "char \<Rightarrow> string \<Rightarrow> string option" where
  "read_given t [] = None"
| "read_given t (c # cs) = (if c = t then Some cs else None)"

text \<open>The digit loop of \<open>read_number\<close>: the value, the number of digits, the rest.\<close>

fun read_digits :: "nat \<Rightarrow> nat \<Rightarrow> nat \<Rightarrow> nat \<Rightarrow> string \<Rightarrow> (nat \<times> nat \<times> string) option" where
  "read_digits radix limit n acc [] = Some (acc, n, [])"
| "read_digits radix limit n acc (c # cs) =
     (case to_digit radix c of
        None \<Rightarrow> Some (acc, n, c # cs)
      | Some d \<Rightarrow>
          if limit < Suc n then None else read_digits radix limit (Suc n) (acc * radix + d) cs)"

definition read_number :: "nat \<Rightarrow> nat \<Rightarrow> bool \<Rightarrow> nat \<Rightarrow> string \<Rightarrow> (nat \<times> string) option" where
  "read_number radix limit zero_prefix bound s =
     (case read_digits radix limit 0 0 s of
        None \<Rightarrow> None
      | Some (v, n, r) \<Rightarrow>
          if n = 0 then None
          else if \<not> zero_prefix \<and> (case s of c # _ \<Rightarrow> c = CHR ''0'' | [] \<Rightarrow> False) \<and> 1 < n then None
          else if v \<le> bound then Some (v, r) else None)"

definition read_separator ::
  "char \<Rightarrow> nat \<Rightarrow> (string \<Rightarrow> ('a \<times> string) option) \<Rightarrow> string \<Rightarrow> ('a \<times> string) option" where
  "read_separator sep i inner s =
     (if 0 < i then (case read_given sep s of None \<Rightarrow> None | Some r \<Rightarrow> inner r) else inner s)"

text \<open>Four decimal octets; \<open>read_octets\<close> reads octets \<open>i\<close> to \<open>3\<close>.\<close>

fun read_octets :: "nat \<Rightarrow> nat \<Rightarrow> string \<Rightarrow> (nat list \<times> string) option" where
  "read_octets i 0 s = Some ([], s)"
| "read_octets i (Suc k) s =
     (case read_separator (CHR ''.'') i (read_number 10 3 False 255) s of
        None \<Rightarrow> None
      | Some (v, r) \<Rightarrow>
          (case read_octets (Suc i) k r of None \<Rightarrow> None | Some (vs, r') \<Rightarrow> Some (v # vs, r')))"

definition read_ipv4 :: "string \<Rightarrow> (nat list \<times> string) option" where
  "read_ipv4 s = read_octets 0 4 s"

text \<open>
  \<open>read_groups\<close>: the 16-bit groups from index \<open>i\<close> up to \<open>limit\<close>, whether they end in an
  embedded IPv4 address, and the rest. \<open>k\<close> is \<open>limit - i\<close>, the slots left.
\<close>

fun read_groups :: "nat \<Rightarrow> nat \<Rightarrow> string \<Rightarrow> nat list \<times> bool \<times> string" where
  "read_groups i 0 s = ([], False, s)"
| "read_groups i (Suc k) s =
     (case (if 0 < k then read_separator (CHR '':'') i read_ipv4 s else None) of
        Some (vs, r) \<Rightarrow> ([vs ! 0 * 256 + vs ! 1, vs ! 2 * 256 + vs ! 3], True, r)
      | None \<Rightarrow>
          (case read_separator (CHR '':'') i (read_number 16 4 True 65535) s of
             None \<Rightarrow> ([], False, s)
           | Some (g, r) \<Rightarrow> (case read_groups (Suc i) k r of (gs, v4, r') \<Rightarrow> (g # gs, v4, r'))))"

definition read_ipv6 :: "string \<Rightarrow> (nat list \<times> string) option" where
  "read_ipv6 s =
     (case read_groups 0 8 s of (h, v4, r) \<Rightarrow>
        if length h = 8 then Some (h, r)
        else if v4 then None
        else case read_given (CHR '':'') r of
               None \<Rightarrow> None
             | Some r1 \<Rightarrow>
                 (case read_given (CHR '':'') r1 of
                    None \<Rightarrow> None
                  | Some r2 \<Rightarrow>
                      (case read_groups 0 (8 - (length h + 1)) r2 of (t, _, r3) \<Rightarrow>
                         Some (h @ replicate (8 - length h - length t) 0 @ t, r3))))"

datatype ip_addr = V4 "nat list" | V6 "nat list"

definition parse_ipv6 :: "string \<Rightarrow> nat list option" where
  "parse_ipv6 s = (case read_ipv6 s of Some (g, []) \<Rightarrow> Some g | _ \<Rightarrow> None)"

definition parse_ip :: "string \<Rightarrow> ip_addr option" where
  "parse_ip s =
     (case read_ipv4 s of
        Some (a, r) \<Rightarrow> if r = [] then Some (V4 a) else None
      | None \<Rightarrow> map_option V6 (parse_ipv6 s))"

section \<open>What a reader consumes\<close>

text \<open>The characters an address may hold.\<close>

definition addr_char :: "char \<Rightarrow> bool" where
  "addr_char c \<longleftrightarrow> is_digit c \<or> is_lower c \<or> is_upper c \<or> c = CHR ''.'' \<or> c = CHR '':''"

definition consumes :: "string \<Rightarrow> string \<Rightarrow> bool" where
  "consumes s r \<longleftrightarrow> (\<exists>u. s = u @ r \<and> (\<forall>c \<in> set u. addr_char c))"

lemma consumes_refl [simp]: "consumes s s"
  by (auto simp: consumes_def)

lemma consumes_trans: "consumes s r \<Longrightarrow> consumes r q \<Longrightarrow> consumes s q"
  by (fastforce simp: consumes_def)

lemma consumes_Cons: "addr_char c \<Longrightarrow> consumes s r \<Longrightarrow> consumes (c # s) r"
  unfolding consumes_def by (metis append_Cons set_ConsD)

lemma to_digit_addr_char: "to_digit radix c = Some d \<Longrightarrow> addr_char c"
  by (auto simp: to_digit_def addr_char_def Let_def split: if_splits)

lemma to_digit_less: "to_digit radix c = Some d \<Longrightarrow> d < radix"
  by (auto simp: to_digit_def Let_def split: if_splits option.splits)

lemma read_given_consumes: "read_given t s = Some r \<Longrightarrow> addr_char t \<Longrightarrow> consumes s r"
  by (cases s) (auto split: if_splits intro: consumes_Cons)

lemma read_digits_consumes:
  "read_digits radix limit n acc s = Some (v, m, r) \<Longrightarrow> consumes s r"
  by (induction s arbitrary: n acc)
    (auto split: option.splits if_splits intro: consumes_Cons to_digit_addr_char)

lemma read_number_consumes: "read_number a b z m s = Some (v, r) \<Longrightarrow> consumes s r"
  by (auto simp: read_number_def split: option.splits if_splits dest: read_digits_consumes)

lemma read_number_le: "read_number a b z m s = Some (v, r) \<Longrightarrow> v \<le> m"
  by (auto simp: read_number_def split: option.splits if_splits)

lemma read_separator_consumes:
  assumes "read_separator sep i inner s = Some (v, r)" and "addr_char sep"
    and "\<And>s v r. inner s = Some (v, r) \<Longrightarrow> consumes s r"
  shows "consumes s r"
  using assms(1) assms(3)
  by (auto simp: read_separator_def split: if_splits option.splits
      intro: consumes_trans dest!: read_given_consumes [OF _ assms(2)])

lemma read_separator_inner:
  assumes "read_separator sep i inner s = Some (v, r)"
  obtains s' where "inner s' = Some (v, r)"
  using assms by (auto simp: read_separator_def split: if_splits option.splits)

lemma addr_char_seps [simp]: "addr_char (CHR ''.'')" "addr_char (CHR '':'')"
  by (simp_all add: addr_char_def)

lemma read_sep_number_consumes:
  assumes "read_separator sep i (read_number a b z m) s = Some (v, r)" and "addr_char sep"
  shows "consumes s r"
  using assms by (rule read_separator_consumes) (rule read_number_consumes)

lemma read_octets_consumes: "read_octets i k s = Some (vs, r) \<Longrightarrow> consumes s r"
proof (induction k arbitrary: i s vs r)
  case 0
  then show ?case by simp
next
  case (Suc k)
  then obtain v r1 vs' where
      v: "read_separator (CHR ''.'') i (read_number 10 3 False 255) s = Some (v, r1)"
    and vs': "read_octets (Suc i) k r1 = Some (vs', r)"
    by (auto split: option.splits)
  from v have "consumes s r1" by (rule read_sep_number_consumes) simp
  with Suc.IH [OF vs'] show ?case by (rule consumes_trans [rotated])
qed

lemma read_octets_shape:
  "read_octets i k s = Some (vs, r) \<Longrightarrow> length vs = k \<and> (\<forall>v \<in> set vs. v \<le> 255)"
proof (induction k arbitrary: i s vs r)
  case 0
  then show ?case by simp
next
  case (Suc k)
  then obtain v r1 vs' where
      v: "read_separator (CHR ''.'') i (read_number 10 3 False 255) s = Some (v, r1)"
    and vs': "read_octets (Suc i) k r1 = Some (vs', r)" and "vs = v # vs'"
    by (auto split: option.splits)
  from v have "v \<le> 255" by (rule read_separator_inner) (rule read_number_le)
  with Suc.IH [OF vs'] \<open>vs = v # vs'\<close> show ?case by simp
qed

lemma read_ipv4_consumes: "read_ipv4 s = Some (vs, r) \<Longrightarrow> consumes s r"
  by (simp add: read_ipv4_def read_octets_consumes)

lemma read_ipv4_shape: "read_ipv4 s = Some (vs, r) \<Longrightarrow> length vs = 4 \<and> (\<forall>v \<in> set vs. v \<le> 255)"
  using read_octets_shape by (simp add: read_ipv4_def)

lemma read_groups_consumes: "read_groups i k s = (gs, v4, r) \<Longrightarrow> consumes s r"
proof (induction k arbitrary: i s gs v4 r)
  case 0
  then show ?case by simp
next
  case (Suc k)
  show ?case
  proof (cases "if 0 < k then read_separator (CHR '':'') i read_ipv4 s else None")
    case (Some a)
    then have "read_separator (CHR '':'') i read_ipv4 s = Some (fst a, snd a)"
      by (auto split: if_splits)
    then have "consumes s (snd a)"
      by (rule read_separator_consumes) (auto intro: read_ipv4_consumes)
    with Some Suc.prems show ?thesis by (auto split: prod.splits)
  next
    case no_v4: None
    show ?thesis
    proof (cases "read_separator (CHR '':'') i (read_number 16 4 True 65535) s")
      case None
      with no_v4 Suc.prems show ?thesis by auto
    next
      case (Some a)
      obtain g r1 where a: "a = (g, r1)" by (cases a)
      with Some have "consumes s r1"
        by (auto intro: read_sep_number_consumes)
      moreover obtain gs' v4' r' where gs': "read_groups (Suc i) k r1 = (gs', v4', r')"
        by (cases "read_groups (Suc i) k r1")
      moreover have "r' = r" using Suc.prems no_v4 Some a gs' by auto
      ultimately show ?thesis
        using Suc.IH [OF gs'] by (auto intro: consumes_trans)
    qed
  qed
qed

text \<open>Every group is a 16-bit value and the groups fit the slots.\<close>

lemma read_groups_shape:
  "read_groups i k s = (gs, v4, r) \<Longrightarrow> length gs \<le> k \<and> (\<forall>g \<in> set gs. g \<le> 65535)"
proof (induction k arbitrary: i s gs v4 r)
  case 0
  then show ?case by simp
next
  case (Suc k)
  show ?case
  proof (cases "if 0 < k then read_separator (CHR '':'') i read_ipv4 s else None")
    case (Some a)
    then have k: "0 < k" and "read_separator (CHR '':'') i read_ipv4 s = Some (fst a, snd a)"
      by (auto split: if_splits)
    then obtain s' where "read_ipv4 s' = Some (fst a, snd a)" by (blast elim: read_separator_inner)
    then have "length (fst a) = 4 \<and> (\<forall>v \<in> set (fst a). v \<le> 255)" by (rule read_ipv4_shape)
    moreover from this have "fst a ! j \<le> 255" if "j < 4" for j using that by simp
    ultimately have "fst a ! 0 \<le> 255" "fst a ! 1 \<le> 255" "fst a ! 2 \<le> 255" "fst a ! 3 \<le> 255"
      by simp_all
    with Some Suc.prems k show ?thesis by (auto split: prod.splits)
  next
    case no_v4: None
    show ?thesis
    proof (cases "read_separator (CHR '':'') i (read_number 16 4 True 65535) s")
      case None
      with no_v4 Suc.prems show ?thesis by auto
    next
      case (Some a)
      obtain g r1 where a: "a = (g, r1)" by (cases a)
      with Some have "g \<le> 65535" by (auto elim: read_separator_inner dest: read_number_le)
      moreover obtain gs' v4' r' where gs': "read_groups (Suc i) k r1 = (gs', v4', r')"
        by (cases "read_groups (Suc i) k r1")
      moreover have "gs = g # gs'" using Suc.prems no_v4 Some a gs' by auto
      ultimately show ?thesis using Suc.IH [OF gs'] by auto
    qed
  qed
qed

lemma read_ipv6_consumes: "read_ipv6 s = Some (g, r) \<Longrightarrow> consumes s r"
  by (auto simp: read_ipv6_def split: prod.splits if_splits option.splits
      dest!: read_groups_consumes dest: read_given_consumes [OF _ addr_char_seps(2)]
      intro: consumes_trans)

lemma consumes_all: "consumes s [] \<Longrightarrow> \<forall>c \<in> set s. addr_char c"
  by (auto simp: consumes_def)

lemma parse_ipv6_chars: "parse_ipv6 s = Some g \<Longrightarrow> \<forall>c \<in> set s. addr_char c"
  by (rule consumes_all, rule read_ipv6_consumes)
    (auto simp: parse_ipv6_def split: option.splits list.splits)

lemma parse_ip_chars: "parse_ip s = Some a \<Longrightarrow> \<forall>c \<in> set s. addr_char c"
  using consumes_all [OF read_ipv4_consumes]
  by (fastforce simp: parse_ip_def split: option.splits if_splits dest: parse_ipv6_chars)

lemma parse_ipv6_shape:
  assumes "parse_ipv6 s = Some g"
  shows "length g = 8 \<and> (\<forall>x \<in> set g. x \<le> 65535)"
proof -
  obtain h v4 r where h: "read_groups 0 8 s = (h, v4, r)" by (cases "read_groups 0 8 s")
  have hs: "length h \<le> 8 \<and> (\<forall>x \<in> set h. x \<le> 65535)" by (rule read_groups_shape [OF h])
  from assms have "read_ipv6 s = Some (g, [])"
    by (auto simp: parse_ipv6_def split: option.splits list.splits)
  then show ?thesis
    using hs by (auto simp: read_ipv6_def h split: if_splits option.splits prod.splits
        dest!: read_groups_shape)
qed

lemma addr_char_not_newline: "addr_char c \<Longrightarrow> c \<noteq> newline"
  by (auto simp: addr_char_def char_class_defs newline_def)

text \<open>The empty string and a string with any other character are no addresses.\<close>

text \<open>The reader on addresses of each form, and on strings that are none.\<close>

lemma parse_ipv6_samples:
  "parse_ipv6 ''2001:db8::1'' = Some [0x2001, 0xdb8, 0, 0, 0, 0, 0, 1]"
  "parse_ipv6 ''::ffff:192.0.2.1'' = Some [0, 0, 0, 0, 0, 0xffff, 0xc000, 0x0201]"
  "parse_ipv6 ''1:2:3:4:5:6:7:8'' = Some [1, 2, 3, 4, 5, 6, 7, 8]"
  "parse_ipv6 ''1:2:3:4:5:6:7'' = None"
  "parse_ipv6 ''::1::'' = None"
  "parse_ipv6 [] = None"
  by code_simp+

lemma parse_ip_samples:
  "parse_ip ''192.0.2.1'' = Some (V4 [192, 0, 2, 1])"
  "parse_ip ''192.0.02.1'' = None"
  "parse_ip ''fd00::a'' = Some (V6 [0xfd00, 0, 0, 0, 0, 0, 0, 10])"
  by code_simp+

end
