(* ===== verification/Intent.thy ===== *)
theory Intent
  imports Rust_Net
begin

text \<open>
  The declarative node intent (crates/noded/src/workload/mod.rs): \<open>NodeIntent\<close>, \<open>validate\<close>,
  \<open>validate_api_server\<close> and \<open>valid_bootstrap_token\<close>. The X.509 parser is a parameter.
\<close>

section \<open>The intent and its checks\<close>

record node_intent =
  ni_api_server :: string
  ni_cluster_ca :: string
  ni_bootstrap_token :: string
  ni_cluster_dns :: "string list"
  ni_cluster_domain :: string
  ni_node_labels :: "string list"
  ni_node_taints :: "string list"

definition default_cluster_domain :: string where
  "default_cluster_domain = ''cluster.local''"

text \<open>What the parser delivers, and the defaults of the \<open>serde\<close> attributes.\<close>

record raw_intent =
  ri_api_server :: string
  ri_cluster_ca :: string
  ri_bootstrap_token :: string
  ri_cluster_dns :: "string list option"
  ri_cluster_domain :: "string option"
  ri_node_labels :: "string list option"
  ri_node_taints :: "string list option"

definition intent_of_raw :: "raw_intent \<Rightarrow> node_intent" where
  "intent_of_raw r =
     \<lparr>ni_api_server = ri_api_server r, ni_cluster_ca = ri_cluster_ca r, ni_bootstrap_token = ri_bootstrap_token r,
      ni_cluster_dns = or_default [] (ri_cluster_dns r),
      ni_cluster_domain = or_default default_cluster_domain (ri_cluster_domain r),
      ni_node_labels = or_default [] (ri_node_labels r), ni_node_taints = or_default [] (ri_node_taints r)\<rparr>"

definition validate_api_server :: "string \<Rightarrow> err + unit" where
  "validate_api_server url =
     (case strip_prefix ''https://'' url of
        None \<Rightarrow> Inl (Msg ''apiServer must use https'')
      | Some rest \<Rightarrow>
          if \<not> starts_with ''['' rest
          then Inl (Msg ''apiServer host must be a bracketed IPv6 literal, e.g. https://[2001:db8::1]:6443'')
          else
            case find_char (CHR '']'') rest of
              None \<Rightarrow> Inl (Msg (''apiServer IPv6 literal is missing its closing '' @ [CHR 0x27] @ '']'' @ [CHR 0x27]))
            | Some close \<Rightarrow>
                (let host = take (close - 1) (drop 1 rest) in
                 case parse_ipv6 host of
                   None \<Rightarrow> Inl (Msg (''apiServer host is not a valid IPv6 address: '' @ host))
                 | Some _ \<Rightarrow>
                     (let tail = drop (close + 1) rest in
                      if tail \<noteq> [] \<and> \<not> starts_with '':'' tail
                      then Inl (Msg ''apiServer has unexpected data after the IPv6 host'')
                      else Inr ())))"

definition token_alnum :: "string \<Rightarrow> nat \<Rightarrow> bool" where
  "token_alnum s n \<longleftrightarrow> length s = n \<and> list_all (\<lambda>b. is_lower b \<or> is_digit b) s"

definition valid_bootstrap_token :: "string \<Rightarrow> bool" where
  "valid_bootstrap_token token =
     (case split_once (CHR ''.'') token of
        Some (i, secret) \<Rightarrow> token_alnum i 6 \<and> token_alnum secret 16
      | None \<Rightarrow> False)"

definition domain_char :: "char \<Rightarrow> bool" where
  "domain_char b \<longleftrightarrow> is_alnum b \<or> b = CHR ''.'' \<or> b = CHR ''-''"

fun check_dns :: "string list \<Rightarrow> err + unit" where
  "check_dns [] = Inr ()"
| "check_dns (addr # addrs) =
     (case parse_ip addr of
        None \<Rightarrow> Inl (Msg (''clusterDNS entry is not an IP address: '' @ addr))
      | Some _ \<Rightarrow> check_dns addrs)"

text \<open>\<open>from_pem\<close> is the certificate parser; only whether it succeeds matters here.\<close>

definition validate :: "(string \<Rightarrow> err + 'cert) \<Rightarrow> node_intent \<Rightarrow> err + unit" where
  "validate from_pem i =
     (case validate_api_server (ni_api_server i) of
        Inl e \<Rightarrow> Inl e
      | Inr _ \<Rightarrow>
          if \<not> valid_bootstrap_token (ni_bootstrap_token i)
          then Inl (Msg ''bootstrapToken must match [a-z0-9]{6}.[a-z0-9]{16}'')
          else
            case from_pem (ni_cluster_ca i) of
              Inl e \<Rightarrow> Inl (Ctx ''clusterCa is not a valid PEM certificate'' e)
            | Inr _ \<Rightarrow>
                if ni_cluster_dns i = [] then Inl (Msg ''clusterDNS must list at least one DNS address'')
                else
                  case check_dns (ni_cluster_dns i) of
                    Inl e \<Rightarrow> Inl e
                  | Inr _ \<Rightarrow>
                      if ni_cluster_domain i = [] \<or> \<not> list_all domain_char (ni_cluster_domain i)
                      then Inl (Msg ''clusterDomain must be a DNS name'')
                      else Inr ())"

section \<open>What the checks accept\<close>

lemma validate_api_server_iff:
  "validate_api_server url = Inr () \<longleftrightarrow>
     (\<exists>host tail. url = ''https://['' @ host @ '']'' @ tail \<and> parse_ipv6 host \<noteq> None \<and>
        (tail = [] \<or> hd tail = CHR '':''))"
proof
  assume ok: "validate_api_server url = Inr ()"
  then obtain rest where url: "url = ''https://'' @ rest" and br: "starts_with ''['' rest"
    by (auto simp: validate_api_server_def strip_prefix_Some split: option.splits if_splits)
  from br obtain r where r: "rest = ''['' @ r" by (auto simp: starts_with_iff)
  from ok url r obtain close where c: "find_char (CHR '']'') rest = Some close"
    and host: "parse_ipv6 (take (close - 1) (drop 1 rest)) \<noteq> None"
    and tail: "drop (close + 1) rest = [] \<or> starts_with '':'' (drop (close + 1) rest)"
    by (auto simp: validate_api_server_def Let_def split: option.splits if_splits)
  from find_char_SomeD [OF c] have close: "close < length rest" "rest ! close = CHR '']''" by auto
  have "close \<noteq> 0" using close(2) r by (cases close) auto
  then obtain k where k: "close = Suc k" by (cases close) auto
  have "r = take k r @ r ! k # drop (Suc k) r" using close r k by (intro id_take_nth_drop) simp
  moreover have "r ! k = CHR '']''" using close r k by simp
  ultimately have "url = ''https://['' @ take k r @ '']'' @ drop (Suc k) r" using url r by simp
  moreover have "parse_ipv6 (take k r) \<noteq> None" using host r k by simp
  moreover have "drop (Suc k) r = [] \<or> hd (drop (Suc k) r) = CHR '':''"
    using tail r k by (auto simp: starts_with_iff)
  ultimately show "\<exists>host tail. url = ''https://['' @ host @ '']'' @ tail \<and> parse_ipv6 host \<noteq> None \<and>
      (tail = [] \<or> hd tail = CHR '':'')" by blast
next
  assume "\<exists>host tail. url = ''https://['' @ host @ '']'' @ tail \<and> parse_ipv6 host \<noteq> None \<and>
      (tail = [] \<or> hd tail = CHR '':'')"
  then obtain host tail where url: "url = ''https://'' @ ''['' @ host @ '']'' @ tail"
    and h: "parse_ipv6 host \<noteq> None" and t: "tail = [] \<or> hd tail = CHR '':''" by auto
  have "strip_prefix ''https://'' url = Some (''['' @ host @ '']'' @ tail)"
    unfolding strip_prefix_Some url ..
  moreover have "CHR '']'' \<notin> set (CHR ''['' # host)"
  proof -
    from h obtain g where "parse_ipv6 host = Some g" by auto
    then have "\<forall>c \<in> set host. addr_char c" by (rule parse_ipv6_chars)
    moreover have "\<not> addr_char (CHR '']'')" by (simp add: addr_char_def char_class_defs)
    ultimately show ?thesis by auto
  qed
  then have "find_char (CHR '']'') ((CHR ''['' # host) @ CHR '']'' # tail) = Some (length (CHR ''['' # host))"
    by (rule find_char_append)
  ultimately show "validate_api_server url = Inr ()"
    using h t by (cases tail) (auto simp: validate_api_server_def Let_def starts_with_iff)
qed

lemma valid_bootstrap_token_iff:
  "valid_bootstrap_token t \<longleftrightarrow>
     (\<exists>i s. t = i @ ''.'' @ s \<and> length i = 6 \<and> length s = 16 \<and>
        list_all (\<lambda>c. is_lower c \<or> is_digit c) (i @ s))"
proof -
  have "CHR ''.'' \<notin> set i" if "list_all (\<lambda>c. is_lower c \<or> is_digit c) i" for i
    using that by (auto simp: list_all_iff char_class_defs)
  then show ?thesis
    by (auto simp: valid_bootstrap_token_def token_alnum_def split_once_Some split_once_None
        split: option.splits) (metis split_once_Some option.distinct(1) option.inject prod.inject)+
qed

lemma check_dns_iff: "check_dns as = Inr () \<longleftrightarrow> (\<forall>a \<in> set as. parse_ip a \<noteq> None)"
  by (induction as) (auto split: option.splits)

lemma validate_iff:
  "validate from_pem i = Inr () \<longleftrightarrow>
     validate_api_server (ni_api_server i) = Inr () \<and> valid_bootstrap_token (ni_bootstrap_token i) \<and>
     \<not> isl (from_pem (ni_cluster_ca i)) \<and> ni_cluster_dns i \<noteq> [] \<and>
     (\<forall>a \<in> set (ni_cluster_dns i). parse_ip a \<noteq> None) \<and>
     ni_cluster_domain i \<noteq> [] \<and> (\<forall>c \<in> set (ni_cluster_domain i). domain_char c)"
proof -
  have unit: "(x :: err + unit) = Inr () \<longleftrightarrow> \<not> isl x" for x by (cases x) auto
  show ?thesis
    unfolding check_dns_iff [symmetric]
    by (auto simp: validate_def list_all_iff unit split: sum.splits)
qed

end
