(* ===== verification/Workload.thy ===== *)
theory Workload
  imports Durable_Files Intent
begin

text \<open>
  Workload profiles (crates/noded/src/workload/): the trait \<open>WorkloadProfile\<close> as an interface,
  the Kubernetes profile (k8s.rs) with its rendered files, the KVM profile (kvm.rs), and
  \<open>new_profile\<close>.
\<close>

section \<open>Health\<close>

record component_health =
  ch_name :: string
  ch_present :: bool
  ch_running :: bool

record workload_health =
  wh_profile :: string
  wh_ready :: bool
  wh_components :: "component_health list"

definition from_binary :: "env \<Rightarrow> string \<Rightarrow> string \<Rightarrow> component_health cmd" where
  "from_binary E name binary =
     io_bind (path_exists E (path_of binary))
       (\<lambda>b. io_ret \<lparr>ch_name = name, ch_present = b, ch_running = False\<rparr>)"

section \<open>The Kubernetes profile\<close>

definition CLUSTER_CA_PATH :: string where
  "CLUSTER_CA_PATH = ''/var/lib/nodeos/k8s/kubelet/cluster-ca.pem''"
definition BOOTSTRAP_KUBECONFIG_PATH :: string where
  "BOOTSTRAP_KUBECONFIG_PATH = ''/var/lib/nodeos/k8s/kubelet/bootstrap-kubeconfig''"
definition KUBELET_CONFIG_PATH :: string where
  "KUBELET_CONFIG_PATH = ''/var/lib/nodeos/k8s/kubelet/config.yaml''"
definition KUBELET_CLIENT_CERT :: string where
  "KUBELET_CLIENT_CERT = ''/var/lib/kubelet/pki/kubelet-client-current.pem''"

definition render_bootstrap_kubeconfig :: "node_intent \<Rightarrow> string" where
  "render_bootstrap_kubeconfig i = unlines
     [''apiVersion: v1'',
      ''kind: Config'',
      ''clusters:'',
      ''- name: default'',
      ''  cluster:'',
      ''    certificate-authority: '' @ CLUSTER_CA_PATH,
      ''    server: '' @ ni_api_server i,
      ''contexts:'',
      ''- name: default'',
      ''  context:'',
      ''    cluster: default'',
      ''    user: kubelet-bootstrap'',
      ''current-context: default'',
      ''users:'',
      ''- name: kubelet-bootstrap'',
      ''  user:'',
      ''    token: '' @ ni_bootstrap_token i]"

definition render_kubelet_config :: "node_intent \<Rightarrow> string" where
  "render_kubelet_config i =
     (let dns = concat (map (\<lambda>addr. ''  - '' @ addr @ [newline]) (ni_cluster_dns i)) in
      unlines
        [''apiVersion: kubelet.config.k8s.io/v1beta1'',
         ''kind: KubeletConfiguration'',
         ''cgroupDriver: cgroupfs'',
         ''containerRuntimeEndpoint: unix:///run/containerd/containerd.sock'',
         ''clusterDomain: '' @ ni_cluster_domain i,
         ''clusterDNS:''] @
      dns @
      unlines
        [''rotateCertificates: true'',
         ''authentication:'',
         ''  anonymous:'',
         ''    enabled: false'',
         ''  webhook:'',
         ''    enabled: true'',
         ''  x509:'',
         ''    clientCAFile: '' @ CLUSTER_CA_PATH,
         ''authorization:'',
         ''  mode: Webhook''])"

definition k8s_reconcile :: "(string \<Rightarrow> err + 'cert) \<Rightarrow> env \<Rightarrow> node_intent option \<Rightarrow> unit cmd" where
  "k8s_reconcile from_pem E desired =
     (case desired of
        None \<Rightarrow> io_ret ()
      | Some i \<Rightarrow>
          io_then (io_ctx ''invalid node intent'' (io_lift (validate from_pem i)))
          (io_then (io_ctx ''write cluster CA''
             (write_atomic E (path_of CLUSTER_CA_PATH) (ni_cluster_ca i) False))
          (io_then (io_ctx ''write kubelet config.yaml''
             (write_atomic E (path_of KUBELET_CONFIG_PATH) (render_kubelet_config i) False))
          (io_then (io_ctx ''write bootstrap-kubeconfig''
             (write_atomic E (path_of BOOTSTRAP_KUBECONFIG_PATH) (render_bootstrap_kubeconfig i) True))
          (io_ret ())))))"

definition k8s_health :: "env \<Rightarrow> workload_health cmd" where
  "k8s_health E =
     io_bind (from_binary E ''containerd'' ''/usr/bin/containerd'') (\<lambda>containerd.
     io_bind (path_exists E (path_of ''/run/containerd/containerd.sock'')) (\<lambda>c_run.
     io_bind (from_binary E ''kubelet'' ''/usr/bin/kubelet'') (\<lambda>kubelet.
     io_bind (path_exists E (path_of KUBELET_CLIENT_CERT)) (\<lambda>k_run.
     io_ret \<lparr>wh_profile = ''k8s'', wh_ready = (c_run \<and> k_run),
             wh_components = [containerd\<lparr>ch_running := c_run\<rparr>, kubelet\<lparr>ch_running := k_run\<rparr>]\<rparr>))))"

section \<open>The KVM profile\<close>

definition kvm_reconcile :: "node_intent option \<Rightarrow> unit cmd" where
  "kvm_reconcile desired = io_ret ()"

definition kvm_health :: "env \<Rightarrow> workload_health cmd" where
  "kvm_health E =
     io_bind (from_binary E ''libvirtd'' ''/usr/sbin/libvirtd'')
       (\<lambda>c. io_ret \<lparr>wh_profile = ''kvm'', wh_ready = False, wh_components = [c]\<rparr>)"

section \<open>Choosing a profile\<close>

datatype profile = K8s | Kvm

record workload =
  wl_name :: string
  wl_reconcile :: "node_intent option \<Rightarrow> unit cmd"
  wl_health :: "workload_health cmd"

definition new_profile :: "(string \<Rightarrow> err + 'cert) \<Rightarrow> env \<Rightarrow> profile \<Rightarrow> workload" where
  "new_profile from_pem E p =
     (case p of
        K8s \<Rightarrow> \<lparr>wl_name = ''k8s'', wl_reconcile = k8s_reconcile from_pem E, wl_health = k8s_health E\<rparr>
      | Kvm \<Rightarrow> \<lparr>wl_name = ''kvm'', wl_reconcile = kvm_reconcile, wl_health = kvm_health E\<rparr>)"

section \<open>The three files\<close>

definition k8s_items :: "node_intent \<Rightarrow> put_item list" where
  "k8s_items i =
     [(''write cluster CA'', path_of CLUSTER_CA_PATH, ni_cluster_ca i, False),
      (''write kubelet config.yaml'', path_of KUBELET_CONFIG_PATH, render_kubelet_config i, False),
      (''write bootstrap-kubeconfig'', path_of BOOTSTRAP_KUBECONFIG_PATH, render_bootstrap_kubeconfig i, True)]"

definition k8s_owned :: "path set" where
  "k8s_owned = {path_of CLUSTER_CA_PATH, path_of KUBELET_CONFIG_PATH, path_of BOOTSTRAP_KUBECONFIG_PATH}"

lemma k8s_paths_target:
  "is_target (path_of CLUSTER_CA_PATH)" "is_target (path_of KUBELET_CONFIG_PATH)"
  "is_target (path_of BOOTSTRAP_KUBECONFIG_PATH)"
  by code_simp+

lemma k8s_paths_distinct:
  "path_of CLUSTER_CA_PATH \<noteq> path_of KUBELET_CONFIG_PATH"
  "path_of CLUSTER_CA_PATH \<noteq> path_of BOOTSTRAP_KUBECONFIG_PATH"
  "path_of KUBELET_CONFIG_PATH \<noteq> path_of BOOTSTRAP_KUBECONFIG_PATH"
  by code_simp+

lemma k8s_items_facts:
  "\<forall>it \<in> set (k8s_items i). is_target (item_path it)" "distinct (map item_path (k8s_items i))"
  "item_path ` set (k8s_items i) = k8s_owned"
  using k8s_paths_target k8s_paths_distinct by (auto simp: k8s_items_def k8s_owned_def)

lemma k8s_reconcile_puts:
  "k8s_reconcile from_pem E (Some i) =
     (case validate from_pem i of
        Inl e \<Rightarrow> io_err (Ctx ''invalid node intent'' e)
      | Inr _ \<Rightarrow> put_items (write_atomic E) (k8s_items i))"
proof (rule ext)
  fix w
  show "k8s_reconcile from_pem E (Some i) w = (case validate from_pem i of
      Inl e \<Rightarrow> io_err (Ctx ''invalid node intent'' e)
    | Inr _ \<Rightarrow> put_items (write_atomic E) (k8s_items i)) w"
    by (simp add: k8s_reconcile_def k8s_items_def io_then_def io_bind_def io_ctx_def io_lift_def io_err_def
        split: sum.split)
qed

section \<open>The interface\<close>

text \<open>
  What the rest of \<open>noded\<close> relies on: without an intent nothing happens, only the profile's own
  files change, and reconciling the same intent again changes no file any more.
\<close>

locale workload_profile =
  fixes reconcile :: "node_intent option \<Rightarrow> unit cmd"
    and owned :: "path set"
  assumes idle: "reconcile None w = (Inr (), w)"
    and keeps_wf: "wf_fs (w_fs w) \<Longrightarrow> wf_fs (w_fs (snd (reconcile d w)))"
    and frame: "wf_fs (w_fs w) \<Longrightarrow> is_target q \<Longrightarrow> q \<notin> owned \<Longrightarrow>
        content (w_fs (snd (reconcile d w))) q = content (w_fs w) q"
    and settles: "wf_fs (w_fs w) \<Longrightarrow> reconcile d w = (Inr x, w1) \<Longrightarrow> reconcile d w1 = (Inr y, w2) \<Longrightarrow>
        q \<in> owned \<Longrightarrow> content (w_fs w2) q = content (w_fs w1) q"
begin

text \<open>The trait's demand that \<open>reconcile\<close> be idempotent, for every target.\<close>

lemma idempotent:
  assumes "wf_fs (w_fs w)" and "reconcile d w = (Inr x, w1)" and "reconcile d w1 = (Inr y, w2)" and "is_target q"
  shows "content (w_fs w2) q = content (w_fs w1) q"
proof (cases "q \<in> owned")
  case True
  with assms settles show ?thesis by blast
next
  case False
  have "wf_fs (w_fs w1)" using keeps_wf [OF assms(1), of d] assms(2) by simp
  from frame [OF this assms(4) False, of d] assms(3) show ?thesis by simp
qed

text \<open>A file outside the profile survives any number of reconciliations.\<close>

fun reconciles :: "node_intent option list \<Rightarrow> world \<Rightarrow> world" where
  "reconciles [] w = w"
| "reconciles (d # ds) w = reconciles ds (snd (reconcile d w))"

lemma reconciles_frame:
  "wf_fs (w_fs w) \<Longrightarrow> is_target q \<Longrightarrow> q \<notin> owned \<Longrightarrow> content (w_fs (reconciles ds w)) q = content (w_fs w) q"
  by (induction ds arbitrary: w) (simp_all add: frame keeps_wf)

end

lemma k8s_done:
  assumes "wf_fs (w_fs w)" and "k8s_reconcile from_pem E (Some i) w = (Inr x, w')" and "it \<in> set (k8s_items i)"
  shows "content (w_fs w') (item_path it) = Some (item_data it)"
proof -
  have "put_items (write_atomic E) (k8s_items i) w = (Inr x, w')"
    using assms(2) by (simp add: k8s_reconcile_puts split: sum.splits)
  from wa.puts_done [OF k8s_items_facts(1,2) assms(1) this assms(3)] show ?thesis .
qed

interpretation k8s: workload_profile "k8s_reconcile from_pem E" k8s_owned for from_pem E
proof (unfold_locales, goal_cases)
  case (1 w)
  show ?case by (simp add: k8s_reconcile_def)
next
  case (2 w d)
  show ?case
  proof (cases d)
    case None
    with 2 show ?thesis by (simp add: k8s_reconcile_def)
  next
    case (Some i)
    with 2 wa.puts_ok [OF k8s_items_facts(1) 2, of E i] show ?thesis
      by (simp add: k8s_reconcile_puts split: sum.split)
  qed
next
  case (3 w q d)
  show ?case
  proof (cases d)
    case None
    then show ?thesis by (simp add: k8s_reconcile_def)
  next
    case (Some i)
    with wa.puts_frame [OF k8s_items_facts(1) 3(1,2), of i E] 3(3) show ?thesis
      by (simp add: k8s_reconcile_puts k8s_items_facts(3) split: sum.split)
  qed
next
  case (4 w d x w1 y w2 q)
  show ?case
  proof (cases d)
    case None
    with 4 show ?thesis by (simp add: k8s_reconcile_def)
  next
    case (Some i)
    from 4(4) obtain it where it: "it \<in> set (k8s_items i)" "q = item_path it"
      using k8s_items_facts(3) [of i] by blast
    have run: "put_items (write_atomic E) (k8s_items i) w = (Inr x, w1)"
      using 4(2) Some by (simp add: k8s_reconcile_puts split: sum.splits)
    have "wf_fs (w_fs w1)" using wa.puts_ok [OF k8s_items_facts(1) 4(1), of E i] run by simp
    then show ?thesis
      using k8s_done [OF 4(1) _ it(1)] k8s_done [OF _ _ it(1)] 4(2,3) Some it(2) by metis
  qed
qed

interpretation kvm: workload_profile kvm_reconcile "{}"
  by unfold_locales (simp_all add: kvm_reconcile_def)

end
