(* ===== verification/Noded_Config.thy ===== *)
theory Noded_Config
  imports Authorization Workload
begin

text \<open>
  The configuration of \<open>noded\<close> (crates/noded/src/main.rs, \<open>Config\<close> to \<open>EstConfig\<close>; the \<open>tpm\<close>
  block from pkcs11.rs), the defaults of its \<open>serde\<close> attributes, \<open>parse_config\<close> with its checks,
  \<open>load_config\<close> and \<open>node_pki_present\<close>. The YAML and TOML parsers are parameters.
\<close>

section \<open>The configuration\<close>

record sock_addr =
  sa_ip :: ip_addr
  sa_port :: nat

definition is_ipv6 :: "sock_addr \<Rightarrow> bool" where
  "is_ipv6 a = (case sa_ip a of V6 _ \<Rightarrow> True | V4 _ \<Rightarrow> False)"

record est_config =
  ec_server_url :: string
  ec_bearer_token :: string
  ec_ca_cert_file :: path
  ec_label :: "string option"

record tpm_config =
  tc_library :: path
  tc_store :: path
  tc_token_label :: string
  tc_key_label :: string
  tc_pin_file :: path
  tc_tcti :: string

record noded_config =
  nc_listen_addr :: sock_addr
  nc_node_id :: string
  nc_profile :: profile
  nc_cert_file :: path
  nc_key_file :: path
  nc_client_ca :: path
  nc_est :: est_config
  nc_renew_check_interval_secs :: nat
  nc_authorization :: authorization_config
  nc_tpm :: "tpm_config option"

section \<open>Defaults\<close>

definition default_listen_addr :: sock_addr where
  "default_listen_addr = \<lparr>sa_ip = V6 [0, 0, 0, 0, 0, 0, 0, 1], sa_port = 9443\<rparr>"

definition default_renew_check_interval_secs :: nat where
  "default_renew_check_interval_secs = 3600"

definition default_library :: path where "default_library = path_of ''/usr/lib/libtpm2_pkcs11.so''"
definition default_store :: path where "default_store = path_of ''/var/lib/nodeos/pkcs11''"
definition default_token_label :: string where "default_token_label = ''nodeos''"
definition default_key_label :: string where "default_key_label = ''nodeos-est-key''"
definition default_pin_file :: path where "default_pin_file = path_of ''/var/lib/nodeos/pki/pkcs11.pin''"
definition default_tcti :: string where "default_tcti = ''device:/dev/tpmrm0''"

record raw_tpm =
  rt_library :: "string option"
  rt_store :: "string option"
  rt_token_label :: "string option"
  rt_key_label :: "string option"
  rt_pin_file :: "string option"
  rt_tcti :: "string option"

record raw_binding =
  rbd_role :: role
  rbd_subjects :: "string list option"

record raw_noded =
  rn_listen_addr :: "sock_addr option"
  rn_node_id :: string
  rn_profile :: "profile option"
  rn_cert_file :: string
  rn_key_file :: string
  rn_client_ca :: string
  rn_server_url :: string
  rn_bearer_token :: string
  rn_ca_cert_file :: string
  rn_label :: "string option"
  rn_renew_check_interval_secs :: "nat option"
  rn_roles :: "raw_binding list option"
  rn_tpm :: "raw_tpm option"

definition tpm_of_raw :: "raw_tpm \<Rightarrow> tpm_config" where
  "tpm_of_raw r =
     \<lparr>tc_library = or_default default_library (map_option path_of (rt_library r)),
      tc_store = or_default default_store (map_option path_of (rt_store r)),
      tc_token_label = or_default default_token_label (rt_token_label r),
      tc_key_label = or_default default_key_label (rt_key_label r),
      tc_pin_file = or_default default_pin_file (map_option path_of (rt_pin_file r)),
      tc_tcti = or_default default_tcti (rt_tcti r)\<rparr>"

definition noded_of_raw :: "raw_noded \<Rightarrow> noded_config" where
  "noded_of_raw r =
     \<lparr>nc_listen_addr = or_default default_listen_addr (rn_listen_addr r),
      nc_node_id = rn_node_id r,
      nc_profile = or_default K8s (rn_profile r),
      nc_cert_file = path_of (rn_cert_file r),
      nc_key_file = path_of (rn_key_file r),
      nc_client_ca = path_of (rn_client_ca r),
      nc_est = \<lparr>ec_server_url = rn_server_url r, ec_bearer_token = rn_bearer_token r,
                ec_ca_cert_file = path_of (rn_ca_cert_file r), ec_label = rn_label r\<rparr>,
      nc_renew_check_interval_secs = or_default default_renew_check_interval_secs (rn_renew_check_interval_secs r),
      nc_authorization =
        map (\<lambda>b. \<lparr>rb_role = rbd_role b, rb_subjects = or_default [] (rbd_subjects b)\<rparr>) (or_default [] (rn_roles r)),
      nc_tpm = map_option tpm_of_raw (rn_tpm r)\<rparr>"

section \<open>Parsing and checking\<close>

definition validate_est_config :: "est_config \<Rightarrow> err + unit" where
  "validate_est_config c =
     (if \<not> starts_with ''https://'' (ec_server_url c) then Inl (Msg ''enrollment.est.serverUrl must use https'')
      else if trim (ec_bearer_token c) = [] then Inl (Msg ''enrollment.est.bearerToken is required'')
      else if ec_ca_cert_file c = [] then Inl (Msg ''enrollment.est.caCertFile is required'')
      else Inr ())"

type_synonym config_parser = "string \<Rightarrow> err + raw_noded"

definition parse_config :: "config_parser \<Rightarrow> config_parser \<Rightarrow> string \<Rightarrow> bool \<Rightarrow> err + noded_config" where
  "parse_config yaml toml data is_yaml =
     (case (if is_yaml then (case yaml data of Inl e \<Rightarrow> Inl (Ctx ''parse YAML config'' e) | Inr r \<Rightarrow> Inr r)
            else (case toml data of Inl e \<Rightarrow> Inl (Ctx ''parse TOML config'' e) | Inr r \<Rightarrow> Inr r)) of
        Inl e \<Rightarrow> Inl e
      | Inr raw \<Rightarrow>
          (let c = noded_of_raw raw in
           if \<not> is_ipv6 (nc_listen_addr c)
           then Inl (Msg ''listenAddr must be IPv6-only; use an IPv6 literal such as [::1]:9443'')
           else if trim (nc_node_id c) = [] then Inl (Msg ''nodeId is required'')
           else case validate_est_config (nc_est c) of Inl e \<Rightarrow> Inl e | Inr _ \<Rightarrow> Inr c))"

definition load_noded_config :: "config_parser \<Rightarrow> config_parser \<Rightarrow> env \<Rightarrow> path \<Rightarrow> noded_config cmd" where
  "load_noded_config yaml toml E p =
     io_bind (io_ctx (''read config '' @ show_comps p) (read_to_string E p)) (\<lambda>data.
       let is_yaml = (path_extension p = Some ''yaml'' \<or> path_extension p = Some ''yml'')
       in io_lift (parse_config yaml toml data is_yaml))"

section \<open>Is there a PKI?\<close>

definition node_pki_present :: "env \<Rightarrow> noded_config \<Rightarrow> bool cmd" where
  "node_pki_present E c =
     io_bind (if nc_tpm c \<noteq> None then io_ret True else path_exists E (nc_key_file c)) (\<lambda>key_present.
     io_bind (path_exists E (nc_cert_file c)) (\<lambda>cert.
       if cert \<and> key_present then path_exists E (nc_client_ca c) else io_ret False))"

text \<open>What the answer says about the files, where the lookups do not fail.\<close>

definition pki_files :: "noded_config \<Rightarrow> fsys \<Rightarrow> bool" where
  "pki_files c s \<longleftrightarrow>
     (nc_tpm c \<noteq> None \<or> cur s (nc_key_file c) \<noteq> Absent) \<and>
     cur s (nc_cert_file c) \<noteq> Absent \<and> cur s (nc_client_ca c) \<noteq> Absent"

lemma node_pki_present_files:
  assumes "\<And>t p. env_fault E t (Exists p) = None"
  shows "fst (node_pki_present E c w) = Inr (pki_files c (w_fs w)) \<and> w_fs (snd (node_pki_present E c w)) = w_fs w"
  using assms by (auto simp: node_pki_present_def path_exists_def pki_files_def io_defs Let_def)

lemma node_pki_present_sound:
  assumes "node_pki_present E c w = (Inr True, w')"
  shows "pki_files c (w_fs w) \<and> w_fs w' = w_fs w"
  using assms by (auto simp: node_pki_present_def path_exists_def pki_files_def io_defs Let_def split: if_splits)

section \<open>Properties\<close>

text \<open>Only the empty text is the empty path.\<close>

lemma path_of_empty: "path_of s = [] \<longleftrightarrow> s = []"
proof (cases s)
  case (Cons c r)
  obtain p ps where p: "split_on (CHR ''/'') r = p # ps"
    using split_on_nonempty [of "CHR ''/''" r] by (cases "split_on (CHR ''/'') r") auto
  show ?thesis using Cons p by (auto simp: path_of_def)
qed (simp add: path_of_def)

text \<open>\<open>parse_config\<close> and \<open>load_config\<close> succeed on the tables that pass the checks.\<close>

lemma validate_est_config_ok:
  "validate_est_config e = Inr () \<longleftrightarrow>
     starts_with ''https://'' (ec_server_url e) \<and> trim (ec_bearer_token e) \<noteq> [] \<and> ec_ca_cert_file e \<noteq> []"
  by (simp add: validate_est_config_def)

lemma parse_config_ok:
  "parse_config yaml toml data is_yaml = Inr c \<longleftrightarrow>
     (\<exists>raw. (if is_yaml then yaml data else toml data) = Inr raw \<and> c = noded_of_raw raw) \<and>
     is_ipv6 (nc_listen_addr c) \<and> trim (nc_node_id c) \<noteq> [] \<and> validate_est_config (nc_est c) = Inr ()"
proof -
  have u: "(x :: err + unit) = Inr () \<or> isl x" for x by (cases x) auto
  show ?thesis
    using u [of "validate_est_config (nc_est c)"]
    by (auto simp: parse_config_def Let_def split: sum.splits if_splits)
qed

lemma load_noded_config_ok:
  "fst (load_noded_config yaml toml E p w) = Inr c \<longleftrightarrow>
     env_fault E (w_trace w) (ReadFile p) = None \<and>
     (\<exists>data. content (w_fs w) p = Some data \<and> valid_utf8 data \<and>
       parse_config yaml toml data (path_extension p = Some ''yaml'' \<or> path_extension p = Some ''yml'') = Inr c)"
  by (auto simp: load_noded_config_def read_to_string_def prim_def fs_read_str_def fs_read_def content_def io_defs Let_def
      split: option.splits entry.splits)

text \<open>The fields of the result of \<open>noded_of_raw\<close>, with the defaults as they are documented.\<close>

lemma tpm_of_raw_fields:
  "tpm_of_raw t =
     \<lparr>tc_library = path_of (case rt_library t of None \<Rightarrow> ''/usr/lib/libtpm2_pkcs11.so'' | Some x \<Rightarrow> x),
      tc_store = path_of (case rt_store t of None \<Rightarrow> ''/var/lib/nodeos/pkcs11'' | Some x \<Rightarrow> x),
      tc_token_label = (case rt_token_label t of None \<Rightarrow> ''nodeos'' | Some x \<Rightarrow> x),
      tc_key_label = (case rt_key_label t of None \<Rightarrow> ''nodeos-est-key'' | Some x \<Rightarrow> x),
      tc_pin_file = path_of (case rt_pin_file t of None \<Rightarrow> ''/var/lib/nodeos/pki/pkcs11.pin'' | Some x \<Rightarrow> x),
      tc_tcti = (case rt_tcti t of None \<Rightarrow> ''device:/dev/tpmrm0'' | Some x \<Rightarrow> x)\<rparr>"
  by (simp add: tpm_of_raw_def or_default_def default_library_def default_store_def default_token_label_def
      default_key_label_def default_pin_file_def default_tcti_def split: option.split)

lemma noded_of_raw_sel:
  "nc_listen_addr (noded_of_raw raw) = (case rn_listen_addr raw of None \<Rightarrow> \<lparr>sa_ip = V6 [0, 0, 0, 0, 0, 0, 0, 1], sa_port = 9443\<rparr> | Some a \<Rightarrow> a)"
  "nc_node_id (noded_of_raw raw) = rn_node_id raw"
  "nc_profile (noded_of_raw raw) = (case rn_profile raw of None \<Rightarrow> K8s | Some k \<Rightarrow> k)"
  "nc_cert_file (noded_of_raw raw) = path_of (rn_cert_file raw)" "nc_key_file (noded_of_raw raw) = path_of (rn_key_file raw)"
  "nc_client_ca (noded_of_raw raw) = path_of (rn_client_ca raw)"
  "nc_est (noded_of_raw raw) = \<lparr>ec_server_url = rn_server_url raw, ec_bearer_token = rn_bearer_token raw,
     ec_ca_cert_file = path_of (rn_ca_cert_file raw), ec_label = rn_label raw\<rparr>"
  "nc_renew_check_interval_secs (noded_of_raw raw) = (case rn_renew_check_interval_secs raw of None \<Rightarrow> 3600 | Some n \<Rightarrow> n)"
  "nc_authorization (noded_of_raw raw) =
     map (\<lambda>b. \<lparr>rb_role = rbd_role b, rb_subjects = (case rbd_subjects b of None \<Rightarrow> [] | Some ss \<Rightarrow> ss)\<rparr>)
       (case rn_roles raw of None \<Rightarrow> [] | Some bs \<Rightarrow> bs)"
  "nc_tpm (noded_of_raw raw) = (case rn_tpm raw of None \<Rightarrow> None | Some t \<Rightarrow> Some (tpm_of_raw t))"
  by (simp_all add: noded_of_raw_def or_default_def default_listen_addr_def default_renew_check_interval_secs_def
      split: option.split)

lemma bindings_eq:
  "bs = map (\<lambda>b. \<lparr>rb_role = f b, rb_subjects = g b\<rparr>) xs \<longleftrightarrow> map rb_role bs = map f xs \<and> map rb_subjects bs = map g xs"
proof (induction xs arbitrary: bs)
  case (Cons x xs)
  show ?case by (cases bs; cases "hd bs") (auto simp: Cons.IH)
qed auto

lemma noded_config_eq_iff:
  fixes a b :: noded_config
  shows "a = b \<longleftrightarrow> nc_listen_addr a = nc_listen_addr b \<and> nc_node_id a = nc_node_id b \<and> nc_profile a = nc_profile b \<and>
    nc_cert_file a = nc_cert_file b \<and> nc_key_file a = nc_key_file b \<and> nc_client_ca a = nc_client_ca b \<and>
    nc_est a = nc_est b \<and> nc_renew_check_interval_secs a = nc_renew_check_interval_secs b \<and>
    nc_authorization a = nc_authorization b \<and> nc_tpm a = nc_tpm b"
  by (cases a; cases b) auto

text \<open>
  C22. The configuration \<open>noded\<close> runs with, field by field. \<open>load_config\<close> succeeds exactly where the
  file can be read as UTF-8 text, its text parses (as YAML where the extension is \<open>yaml\<close> or \<open>yml\<close>, else as TOML), an
  explicit \<open>listenAddr\<close> is IPv6, node id and bearer token are more than white space, the EST server is
  reached by \<open>https\<close> and its CA file is named. Each field of the result is the table's own or the
  documented default: \<open>[::1]:9443\<close>, the \<open>k8s\<close> profile, a check per hour, no roles, no TPM, and in a \<open>tpm\<close>
  block the library, store, labels, PIN file and TCTI that are left out.
\<close>

theorem load_config_checked:
  "fst (load_noded_config yaml toml E p w) = Inr c \<longleftrightarrow>
     env_fault E (w_trace w) (ReadFile p) = None \<and>
     (\<exists>data raw. content (w_fs w) p = Some data \<and> valid_utf8 data \<and>
       (if path_extension p \<in> {Some ''yaml'', Some ''yml''} then yaml data else toml data) = Inr raw \<and>
       (case rn_listen_addr raw of None \<Rightarrow> True | Some a \<Rightarrow> is_ipv6 a) \<and> trim (rn_node_id raw) \<noteq> [] \<and>
       starts_with ''https://'' (rn_server_url raw) \<and> trim (rn_bearer_token raw) \<noteq> [] \<and> rn_ca_cert_file raw \<noteq> [] \<and>
       nc_listen_addr c = (case rn_listen_addr raw of None \<Rightarrow> \<lparr>sa_ip = V6 [0, 0, 0, 0, 0, 0, 0, 1], sa_port = 9443\<rparr> | Some a \<Rightarrow> a) \<and>
       nc_node_id c = rn_node_id raw \<and>
       nc_profile c = (case rn_profile raw of None \<Rightarrow> K8s | Some k \<Rightarrow> k) \<and>
       nc_cert_file c = path_of (rn_cert_file raw) \<and> nc_key_file c = path_of (rn_key_file raw) \<and>
       nc_client_ca c = path_of (rn_client_ca raw) \<and>
       nc_est c = \<lparr>ec_server_url = rn_server_url raw, ec_bearer_token = rn_bearer_token raw,
         ec_ca_cert_file = path_of (rn_ca_cert_file raw), ec_label = rn_label raw\<rparr> \<and>
       nc_renew_check_interval_secs c = (case rn_renew_check_interval_secs raw of None \<Rightarrow> 3600 | Some n \<Rightarrow> n) \<and>
       map rb_role (nc_authorization c) = map rbd_role (case rn_roles raw of None \<Rightarrow> [] | Some bs \<Rightarrow> bs) \<and>
       map rb_subjects (nc_authorization c) =
         map (\<lambda>b. case rbd_subjects b of None \<Rightarrow> [] | Some ss \<Rightarrow> ss) (case rn_roles raw of None \<Rightarrow> [] | Some bs \<Rightarrow> bs) \<and>
       nc_tpm c = (case rn_tpm raw of None \<Rightarrow> None | Some t \<Rightarrow> Some
         \<lparr>tc_library = path_of (case rt_library t of None \<Rightarrow> ''/usr/lib/libtpm2_pkcs11.so'' | Some x \<Rightarrow> x),
          tc_store = path_of (case rt_store t of None \<Rightarrow> ''/var/lib/nodeos/pkcs11'' | Some x \<Rightarrow> x),
          tc_token_label = (case rt_token_label t of None \<Rightarrow> ''nodeos'' | Some x \<Rightarrow> x),
          tc_key_label = (case rt_key_label t of None \<Rightarrow> ''nodeos-est-key'' | Some x \<Rightarrow> x),
          tc_pin_file = path_of (case rt_pin_file t of None \<Rightarrow> ''/var/lib/nodeos/pki/pkcs11.pin'' | Some x \<Rightarrow> x),
          tc_tcti = (case rt_tcti t of None \<Rightarrow> ''device:/dev/tpmrm0'' | Some x \<Rightarrow> x)\<rparr>))"
    (is "?L \<longleftrightarrow> ?ok \<and> (\<exists>data raw. ?file data \<and> ?utf data \<and> ?parsed data raw \<and> ?ip raw \<and> ?id raw \<and> ?url raw \<and>
      ?tok raw \<and> ?ca raw \<and> ?fields raw)")
proof -
  have f: "?fields raw \<longleftrightarrow> c = noded_of_raw raw" for raw
  proof -
    have "?fields raw \<longleftrightarrow> nc_listen_addr c = nc_listen_addr (noded_of_raw raw) \<and> nc_node_id c = nc_node_id (noded_of_raw raw) \<and>
        nc_profile c = nc_profile (noded_of_raw raw) \<and> nc_cert_file c = nc_cert_file (noded_of_raw raw) \<and>
        nc_key_file c = nc_key_file (noded_of_raw raw) \<and> nc_client_ca c = nc_client_ca (noded_of_raw raw) \<and>
        nc_est c = nc_est (noded_of_raw raw) \<and>
        nc_renew_check_interval_secs c = nc_renew_check_interval_secs (noded_of_raw raw) \<and>
        nc_authorization c = nc_authorization (noded_of_raw raw) \<and> nc_tpm c = nc_tpm (noded_of_raw raw)"
      by (simp only: noded_of_raw_sel bindings_eq conj_assoc tpm_of_raw_fields)
    then show ?thesis by (simp add: noded_config_eq_iff)
  qed
  have c: "?ip raw \<longleftrightarrow> is_ipv6 (nc_listen_addr (noded_of_raw raw))" "?id raw \<longleftrightarrow> trim (nc_node_id (noded_of_raw raw)) \<noteq> []"
    "?url raw \<and> ?tok raw \<and> ?ca raw \<longleftrightarrow> validate_est_config (nc_est (noded_of_raw raw)) = Inr ()" for raw
    by (simp_all add: noded_of_raw_sel validate_est_config_ok path_of_empty is_ipv6_def split: option.split)
  have step: "?ip raw \<and> ?id raw \<and> ?url raw \<and> ?tok raw \<and> ?ca raw \<and> ?fields raw \<longleftrightarrow>
      c = noded_of_raw raw \<and> is_ipv6 (nc_listen_addr c) \<and> trim (nc_node_id c) \<noteq> [] \<and> validate_est_config (nc_est c) = Inr ()" for raw
    unfolding f using c [of raw] by blast
  show ?thesis
    unfolding load_noded_config_ok parse_config_ok step insert_iff empty_iff simp_thms by blast
qed

end
