(* ===== verification/Est.thy ===== *)
theory Est
  imports Noded_Config
begin

text \<open>
  EST enrollment and renewal (crates/noded/src/est.rs): \<open>build_est_config\<close>, the CSRs,
  \<open>issued_cert\<close>, \<open>write_identity\<close>, \<open>write_cert_only\<close>, \<open>bootstrap_enroll\<close>, \<open>reenroll\<close>,
  \<open>needs_renewal\<close> and \<open>cert_needs_renewal\<close>.

  The EST client, the CSR builders and the certificate codec are other crates: they are the
  parameter \<open>est_lib\<close>, whose answers may depend on everything that happened before. Each call
  to them is an event of the trace, so that it can be said what was sent and when. An error that
  the code wraps as \<open>anyhow!("what: {err}")\<close> is a \<open>Ctx\<close> like one with a context: both read alike
  where they are shown, which is with \<open>{:#}\<close>.
\<close>

section \<open>The libraries\<close>

text \<open>Certificates are their DER bytes.\<close>

type_synonym der = string

text \<open>
  \<open>TpmIdentity\<close> of pkcs11.rs: the key provider, by the module and the PIN it was opened with, and
  the handle of the key in it. What is made of it, the signing key of the server and the resolver of
  the EST client, carries both along.
\<close>

record key_provider =
  kp_library :: path
  kp_pin :: string

record tpm_identity =
  ti_provider :: key_provider
  ti_handle :: string

datatype signing_key = LoadedKey string | Pkcs11SigningKey key_provider string

definition signing_key_of :: "tpm_identity \<Rightarrow> signing_key" where
  "signing_key_of i = Pkcs11SigningKey (ti_provider i) (ti_handle i)"

datatype client_cert_resolver = Pkcs11ClientCertResolver key_provider string "der list"

definition client_resolver :: "tpm_identity \<Rightarrow> der list \<Rightarrow> client_cert_resolver" where
  "client_resolver i cert_chain = Pkcs11ClientCertResolver (ti_provider i) (ti_handle i) cert_chain"

datatype est_auth =
    Bearer string
  | ClientCert string string
  | ClientResolver client_cert_resolver

datatype enrollment_response = Issued der | Pending nat

record est_client_config =
  cc_server_url :: string
  cc_trust :: "string list"
  cc_auth :: est_auth
  cc_ca_label :: "string option"

record est_lib =
  el_server_url :: "string \<Rightarrow> err + unit"
  el_build :: "est_client_config \<Rightarrow> err + unit"
  el_connect :: "event list \<Rightarrow> est_client_config \<Rightarrow> err + unit"
  el_ca_certs :: "event list \<Rightarrow> est_client_config \<Rightarrow> err + der list"
  el_enroll :: "event list \<Rightarrow> est_client_config \<Rightarrow> string \<Rightarrow> err + enrollment_response"
  el_reenroll :: "event list \<Rightarrow> est_client_config \<Rightarrow> string \<Rightarrow> err + enrollment_response"
  el_csr :: "event list \<Rightarrow> string \<Rightarrow> err + string \<times> string"
  el_csr_tpm :: "event list \<Rightarrow> key_provider \<Rightarrow> string \<Rightarrow> string \<Rightarrow> err + string"
  el_to_pem :: "der \<Rightarrow> err + string"
  el_pem_chain :: "string \<Rightarrow> err + der list"
  el_validity :: "string \<Rightarrow> err + nat \<times> nat"

fun show_auth :: "est_auth \<Rightarrow> string" where
  "show_auth (Bearer t) = ''Bearer '' @ t"
| "show_auth (ClientCert c k) = ''client-cert''"
| "show_auth (ClientResolver ch) = ''client-resolver''"

definition lib_call :: "string \<Rightarrow> string list \<Rightarrow> (event list \<Rightarrow> err + 'a) \<Rightarrow> 'a cmd" where
  "lib_call name args f = (\<lambda>w.
     case f (w_trace w) of
       Inl e \<Rightarrow> (Inl e, log (LibCall name args) (Answer False) w)
     | Inr x \<Rightarrow> (Inr x, log (LibCall name args) Done w))"

section \<open>The client configuration\<close>

definition build_est_config :: "est_lib \<Rightarrow> env \<Rightarrow> noded_config \<Rightarrow> est_auth \<Rightarrow> est_client_config cmd" where
  "build_est_config L E c auth =
     (let est = nc_est c in
      io_bind (io_ctx (''read EST CA '' @ show_comps (ec_ca_cert_file est)) (read_file E (ec_ca_cert_file est)))
        (\<lambda>ca_pem.
          io_then (io_ctx (''parse EST serverUrl '' @ ec_server_url est) (io_lift (el_server_url L (ec_server_url est))))
          (let cfg = \<lparr>cc_server_url = ec_server_url est, cc_trust = [ca_pem], cc_auth = auth,
                      cc_ca_label = (case ec_label est of None \<Rightarrow> None | Some l \<Rightarrow> if l = [] then None else Some l)\<rparr>
           in io_then (io_ctx ''build EST client config'' (io_lift (el_build L cfg))) (io_ret cfg))))"

definition est_client_new :: "est_lib \<Rightarrow> est_client_config \<Rightarrow> est_client_config cmd" where
  "est_client_new L cfg =
     io_then (io_ctx ''create EST client'' (lib_call ''EstClient::new'' [cc_server_url cfg, show_auth (cc_auth cfg)]
       (\<lambda>t. el_connect L t cfg)))
       (io_ret cfg)"

definition generate_node_csr :: "est_lib \<Rightarrow> string \<Rightarrow> (string \<times> string) cmd" where
  "generate_node_csr L node_id =
     io_ctx ''generate CSR'' (lib_call ''CsrBuilder'' [node_id] (\<lambda>t. el_csr L t node_id))"

definition generate_node_csr_tpm :: "est_lib \<Rightarrow> string \<Rightarrow> tpm_identity \<Rightarrow> string cmd" where
  "generate_node_csr_tpm L node_id tpm =
     io_ctx ''generate TPM CSR'' (lib_call ''HsmCsrBuilder'' [node_id]
       (\<lambda>t. el_csr_tpm L t (ti_provider tpm) (ti_handle tpm) node_id))"

fun issued_cert :: "enrollment_response \<Rightarrow> string \<Rightarrow> err + der" where
  "issued_cert (Issued cert) what = Inr cert"
| "issued_cert (Pending retry) what =
     Inl (Msg (''EST '' @ what @ '' pending manual approval; retry after '' @ show_nat retry @ ''s''))"

section \<open>Writing the identity\<close>

definition write_cert_only :: "est_lib \<Rightarrow> env \<Rightarrow> noded_config \<Rightarrow> der \<Rightarrow> unit cmd" where
  "write_cert_only L E c cert =
     io_bind (io_ctx ''encode node certificate PEM'' (io_lift (el_to_pem L cert)))
       (\<lambda>pem. io_ctx ''write node certificate'' (write_atomic E (nc_cert_file c) pem False))"

definition write_identity :: "est_lib \<Rightarrow> env \<Rightarrow> noded_config \<Rightarrow> der \<Rightarrow> string \<Rightarrow> unit cmd" where
  "write_identity L E c cert key_pem =
     io_bind (io_ctx ''encode node certificate PEM'' (io_lift (el_to_pem L cert)))
       (\<lambda>pem. io_then (io_ctx ''write node certificate'' (write_atomic E (nc_cert_file c) pem False))
               (io_ctx ''write node key'' (write_atomic E (nc_key_file c) key_pem True)))"

section \<open>Enrollment\<close>

definition enroll_identity :: "est_lib \<Rightarrow> env \<Rightarrow> noded_config \<Rightarrow> tpm_identity option \<Rightarrow> est_client_config \<Rightarrow> unit cmd" where
  "enroll_identity L E c tpm client =
     (case tpm of
        Some i \<Rightarrow>
           io_bind (generate_node_csr_tpm L (nc_node_id c) i) (\<lambda>csr.
           io_bind (io_ctx ''EST simpleenroll failed''
             (lib_call ''simple_enroll'' [csr] (\<lambda>t. el_enroll L t client csr))) (\<lambda>resp.
           io_bind (io_lift (issued_cert resp ''enrollment'')) (\<lambda>cert.
             write_cert_only L E c cert)))
      | None \<Rightarrow>
           io_bind (generate_node_csr L (nc_node_id c)) (\<lambda>(csr, key_pem).
           io_bind (io_ctx ''EST simpleenroll failed''
             (lib_call ''simple_enroll'' [csr] (\<lambda>t. el_enroll L t client csr))) (\<lambda>resp.
           io_bind (io_lift (issued_cert resp ''enrollment'')) (\<lambda>cert.
             write_identity L E c cert key_pem))))"

definition ca_bundle :: "est_lib \<Rightarrow> der list \<Rightarrow> string cmd" where
  "ca_bundle L certs =
     io_bind (io_map certs (\<lambda>cert. io_ctx ''encode CA certificate PEM'' (io_lift (el_to_pem L cert))))
       (\<lambda>pems. io_ret (concat pems))"

definition bootstrap_enroll :: "est_lib \<Rightarrow> env \<Rightarrow> noded_config \<Rightarrow> tpm_identity option \<Rightarrow> unit cmd" where
  "bootstrap_enroll L E c tpm =
     io_bind (build_est_config L E c (Bearer (ec_bearer_token (nc_est c)))) (\<lambda>est_config.
     io_bind (est_client_new L est_config) (\<lambda>client.
     io_bind (io_ctx ''EST cacerts failed'' (lib_call ''get_ca_certs'' [] (\<lambda>t. el_ca_certs L t client))) (\<lambda>ca_certs.
       if ca_certs = [] then io_err (Msg ''EST cacerts returned no certificates'')
       else io_then (enroll_identity L E c tpm client)
         (io_bind (ca_bundle L ca_certs) (\<lambda>pem.
            io_ctx ''write client CA bundle'' (write_atomic E (nc_client_ca c) pem False))))))"

section \<open>Renewal\<close>

definition cert_chain_from_pem :: "est_lib \<Rightarrow> env \<Rightarrow> path \<Rightarrow> der list cmd" where
  "cert_chain_from_pem L E p =
     io_bind (io_ctx (''open certificate '' @ show_comps p) (read_file E p)) (\<lambda>pem.
     io_bind (io_ctx (''parse certificates '' @ show_comps p) (io_lift (el_pem_chain L pem))) (\<lambda>chain.
       if chain = [] then io_err (Msg (''no certificates in '' @ show_comps p)) else io_ret chain))"

definition reenroll :: "est_lib \<Rightarrow> env \<Rightarrow> noded_config \<Rightarrow> tpm_identity option \<Rightarrow> unit cmd" where
  "reenroll L E c tpm =
     (case tpm of
        Some i \<Rightarrow>
        io_bind (cert_chain_from_pem L E (nc_cert_file c)) (\<lambda>chain.
        io_bind (build_est_config L E c (ClientResolver (client_resolver i chain))) (\<lambda>est_config.
        io_bind (est_client_new L est_config) (\<lambda>client.
        io_bind (generate_node_csr_tpm L (nc_node_id c) i) (\<lambda>csr.
        io_bind (io_ctx ''EST simplereenroll failed''
          (lib_call ''simple_reenroll'' [csr] (\<lambda>t. el_reenroll L t client csr))) (\<lambda>resp.
        io_bind (io_lift (issued_cert resp ''re-enrollment'')) (\<lambda>cert.
          write_cert_only L E c cert))))))
      | None \<Rightarrow>
        io_bind (io_ctx (''read node certificate '' @ show_comps (nc_cert_file c)) (read_file E (nc_cert_file c))) (\<lambda>cert_pem.
        io_bind (io_ctx (''read node key '' @ show_comps (nc_key_file c)) (read_file E (nc_key_file c))) (\<lambda>key_pem.
        io_bind (build_est_config L E c (ClientCert cert_pem key_pem)) (\<lambda>est_config.
        io_bind (est_client_new L est_config) (\<lambda>client.
        io_bind (generate_node_csr L (nc_node_id c)) (\<lambda>(csr, new_key).
        io_bind (io_ctx ''EST simplereenroll failed''
          (lib_call ''simple_reenroll'' [csr] (\<lambda>t. el_reenroll L t client csr))) (\<lambda>resp.
        io_bind (io_lift (issued_cert resp ''re-enrollment'')) (\<lambda>cert.
          write_identity L E c cert new_key))))))))"

section \<open>When to renew\<close>

text \<open>
  Durations since the Unix epoch in nanoseconds. \<open>saturating_sub\<close> is subtraction on naturals
  and \<open>Duration / 3\<close> rounds down.
\<close>

definition needs_renewal :: "nat \<Rightarrow> nat \<Rightarrow> nat \<Rightarrow> bool" where
  "needs_renewal not_before not_after now =
     (if not_after \<le> now then True
      else (let lifetime = not_after - not_before; remaining = not_after - now
            in remaining < lifetime div 3))"

text \<open>The wall clock is a parameter: the time since the epoch, or none if it is before.\<close>

definition cert_needs_renewal :: "est_lib \<Rightarrow> (event list \<Rightarrow> nat option) \<Rightarrow> env \<Rightarrow> path \<Rightarrow> bool cmd" where
  "cert_needs_renewal L clock E p =
     io_bind (io_ctx (''read node certificate '' @ show_comps p) (read_file E p)) (\<lambda>pem.
     io_bind (io_ctx (''parse node certificate '' @ show_comps p) (io_lift (el_validity L pem))) (\<lambda>(nb, na).
     (\<lambda>w. case clock (w_trace w) of
            None \<Rightarrow> (Inl (Ctx ''system clock before Unix epoch'' (Lib ''second time provided was later than self'')), w)
          | Some now \<Rightarrow> (Inr (needs_renewal nb na now), w))))"

end
