(* ===== verification/Put_Success.thy ===== *)
theory Put_Success
  imports Durable_Files
begin

text \<open>
  When a sequence of \<open>write_atomic\<close> calls into one directory succeeds: the directory can be
  made, holds only files, and no operation fails. Callers use it to show that their runs exist.
\<close>

definition flat :: "path \<Rightarrow> fsys \<Rightarrow> bool" where
  "flat d s \<longleftrightarrow> \<not> blocked s d \<and>
     (\<forall>q. path_parent q = Some d \<longrightarrow> (case cur s q of Absent \<Rightarrow> True | FileAt _ \<Rightarrow> True | _ \<Rightarrow> False))"

lemma blocked_iff:
  "blocked s d \<longleftrightarrow> (\<exists>q \<in> set (path_prefixes d). (\<exists>i. cur s q = FileAt i) \<or> (\<exists>a b c. cur s q = CharDev a b c))"
proof -
  have "(case e of FileAt _ \<Rightarrow> True | CharDev _ _ _ \<Rightarrow> True | _ \<Rightarrow> False) \<longleftrightarrow>
      (\<exists>i. e = FileAt i) \<or> (\<exists>a b c. e = CharDev a b c)" for e
    by (cases e) auto
  then show ?thesis by (simp add: blocked_def list_ex_iff)
qed

lemma child_not_prefix: "path_parent p = Some d \<Longrightarrow> p \<notin> set (path_prefixes d)"
  using path_parent_shorter [of p d] by (auto simp: set_path_prefixes)

lemma flat_set_ent:
  assumes "flat d s" and "p \<notin> set (path_prefixes d)" and "e = Absent \<or> (\<exists>i. e = FileAt i)"
  shows "flat d (set_ent p e s)"
proof -
  have "cur (set_ent p e s) q = cur s q" if "q \<in> set (path_prefixes d)" for q
    using that assms(2) by (auto simp: fs_simps)
  with assms show ?thesis by (auto simp: flat_def blocked_iff fs_simps split: entry.splits)
qed

lemma flat_cong: "(\<And>q. cur t q = cur s q) \<Longrightarrow> flat d t = flat d s"
  by (simp add: flat_def blocked_iff)

lemma flat_upd [simp]:
  "flat d (upd_inode i f s) = flat d s" "flat d (s\<lparr>fs_inodes := g\<rparr>) = flat d s"
  "flat d (s\<lparr>fs_next := n\<rparr>) = flat d s" "flat d (fs_sync_dir e s) = flat d s"
  by (intro flat_cong; simp add: fs_simps)+

lemma flat_mkdirs:
  assumes "flat d s" and "\<And>q. q \<in> set qs \<Longrightarrow> path_parent q \<noteq> Some d"
  shows "flat d (mkdirs qs s)"
proof -
  have "cur (mkdirs qs s) q = cur s q" if "path_parent q = Some d" for q
  proof -
    have "q \<notin> set qs" using that assms(2) by blast
    then show ?thesis using mkdirs_other [of q qs s] by (simp add: cur_def)
  qed
  moreover have "\<not> blocked (mkdirs qs s) d"
    using assms(1) mkdirs_cur [of qs s] by (auto simp: flat_def blocked_iff) (metis entry.distinct)+
  ultimately show ?thesis using assms(1) by (simp add: flat_def)
qed

text \<open>A write into a directory \<open>d'\<close> leaves \<open>d\<close> as flat as it was, unless it goes through \<open>d\<close>.\<close>

lemma flat_keeps_other:
  assumes "path_parent p = Some d'" and "path_file_name p = Some n"
    and "p \<notin> set (path_prefixes d)" and "tmp_of p \<notin> set (path_prefixes d)"
    and "\<And>q. q \<in> set (path_prefixes d') \<Longrightarrow> path_parent q \<noteq> Some d"
  shows "keeps (\<lambda>w. flat d (w_fs w)) (write_atomic E p c priv)"
proof -
  let ?I = "\<lambda>w. flat d (w_fs w)"
  have tmp: "path_join d' (tmp_name n) = tmp_of p" by (simp add: tmp_of_eq [OF assms(1,2)])
  have prim: "keeps ?I (prim E o' f)" if "\<And>s x s'. flat d s \<Longrightarrow> f s = Inr (x, s') \<Longrightarrow> flat d s'"
    for o' and f :: "fsys \<Rightarrow> io_error + 'x \<times> fsys"
    using that by (intro keepsI) (auto simp: prim_def split: option.splits sum.splits)
  have mk: "keeps ?I (create_dir_all E d')"
    unfolding create_dir_all_def
    by (rule prim) (auto simp: fs_create_dir_all_def intro!: flat_mkdirs assms(5) split: if_splits)
  have tp: "path_parent (tmp_of p) = Some d'" by (simp add: tmp_of_eq [OF assms(1,2)] path_parent_def path_join_def)
  have op: "keeps ?I (open_trunc E (tmp_of p) m)" for m
    unfolding open_trunc_def
    by (rule prim) (auto simp: fs_open_trunc_def tp intro!: flat_set_ent assms(4) split: if_splits entry.splits)
  have wr: "keeps ?I (write_all E i c)" for i
    by (rule keepsI) (simp add: write_all_def fs_write_def split: option.split)
  have sy: "keeps ?I (sync_file E i)" for i
    unfolding sync_file_def by (rule prim) (auto simp: fs_sync_def)
  have rn: "keeps ?I (rename E (tmp_of p) p)"
    unfolding rename_def
    by (rule prim) (auto simp: fs_rename_def intro!: flat_set_ent assms(3,4) split: if_splits entry.splits option.splits)
  have od: "keeps ?I (open_dir E d')"
    unfolding open_dir_def by (rule prim) (auto split: if_splits)
  have sd: "keeps ?I (sync_dir E d')"
    unfolding sync_dir_def by (rule prim) auto
  show ?thesis
    unfolding write_atomic_def assms(1,2) option.case Let_def tmp
    by (intro keeps_rules mk op wr sy rn od sd)
qed

lemma flat_keeps:
  assumes "path_parent p = Some d" and "path_file_name p = Some n"
  shows "keeps (\<lambda>w. flat d (w_fs w)) (write_atomic E p c priv)"
proof (rule flat_keeps_other [OF assms])
  have "path_parent (tmp_of p) = Some d" by (simp add: tmp_of_eq [OF assms] path_parent_def path_join_def)
  then show "tmp_of p \<notin> set (path_prefixes d)" by (rule child_not_prefix)
  show "p \<notin> set (path_prefixes d)" by (rule child_not_prefix [OF assms(1)])
  show "path_parent q \<noteq> Some d" if "q \<in> set (path_prefixes d)" for q
    using that child_not_prefix [of q d] by blast
qed

text \<open>Files written elsewhere leave a directory flat.\<close>

definition elsewhere :: "path \<Rightarrow> path \<Rightarrow> bool" where
  "elsewhere d p \<longleftrightarrow>
     path_file_name p \<noteq> None \<and> p \<notin> set (path_prefixes d) \<and> tmp_of p \<notin> set (path_prefixes d) \<and>
     (case path_parent p of
        None \<Rightarrow> False
      | Some d' \<Rightarrow> list_all (\<lambda>q. path_parent q \<noteq> Some d) (path_prefixes d'))"

lemma flat_elsewhere:
  assumes "elsewhere d p"
  shows "keeps (\<lambda>w. flat d (w_fs w)) (write_atomic E p c priv)"
proof -
  obtain d' n where "path_parent p = Some d'" "path_file_name p = Some n" "list_all (\<lambda>q. path_parent q \<noteq> Some d) (path_prefixes d')"
    using assms by (auto simp: elsewhere_def split: option.splits)
  then show ?thesis using assms by (intro flat_keeps_other) (auto simp: elsewhere_def list_all_iff)
qed

lemma flat_puts:
  assumes "list_all (\<lambda>it. elsewhere d (item_path it)) its"
  shows "keeps (\<lambda>w. flat d (w_fs w)) (put_items (write_atomic E) its)"
  using assms
proof (induction its)
  case Nil
  show ?case unfolding put_items.simps by (rule keeps_ret)
next
  case (Cons it its)
  obtain c p x b where it: "it = (c, p, x, b)" by (cases it)
  show ?case unfolding it put_items.simps using Cons by (intro keeps_rules flat_elsewhere) (simp_all add: it)
qed

lemma flat_clear:
  assumes "flat d s" and "path_parent p = Some d" and "is_target p"
  shows "clear_way s p"
proof -
  obtain n where n: "path_file_name p = Some n" using assms(3) by (auto simp: is_target_def)
  have "path_parent (tmp_of p) = Some d"
    by (simp add: tmp_of_eq [OF assms(2) n] path_parent_def path_join_def)
  moreover have "\<not> is_dir s p"
    using assms(1,2) n by (auto simp: flat_def is_dir_def path_file_name_def split: if_splits entry.splits)
  ultimately show ?thesis using assms(1,2) by (auto simp: clear_way_def flat_def)
qed

lemma puts_succeed:
  assumes "\<forall>it \<in> set its. is_target (item_path it) \<and> path_parent (item_path it) = Some d"
    and "\<And>t it o'. it \<in> set its \<Longrightarrow> write_op (item_path it) o' \<Longrightarrow> env_fault E t o' = None"
    and "flat d (w_fs w)"
  shows "fst (put_items (write_atomic E) its w) = Inr () \<and> flat d (w_fs (snd (put_items (write_atomic E) its w)))"
  using assms
proof (induction its arbitrary: w)
  case Nil
  then show ?case by simp
next
  case (Cons it its)
  obtain c p x b where it: "it = (c, p, x, b)" by (cases it)
  have p: "is_target p" "path_parent p = Some d" using Cons.prems(1) by (auto simp: it)
  then obtain n where n: "path_file_name p = Some n" by (auto simp: is_target_def)
  obtain r w1 where r: "write_atomic E p x b w = (r, w1)" by (cases "write_atomic E p x b w")
  have "r = Inr ()"
    using write_atomic_succeeds [OF p(1) flat_clear [OF Cons.prems(3) p(2,1)], of E x b] Cons.prems(2) [of it] r
    by (simp add: it)
  moreover have "flat d (w_fs w1)" using keepsD [OF flat_keeps [OF p(2) n] Cons.prems(3) r] .
  moreover have "fst (put_items (write_atomic E) its w1) = Inr () \<and>
      flat d (w_fs (snd (put_items (write_atomic E) its w1)))" if "flat d (w_fs w1)"
  proof (rule Cons.IH [OF _ _ that])
    show "\<forall>i \<in> set its. is_target (item_path i) \<and> path_parent (item_path i) = Some d"
      using Cons.prems(1) by simp
    show "env_fault E t o' = None" if "i \<in> set its" and "write_op (item_path i) o'" for t i o'
      by (rule Cons.prems(2) [OF _ that(2)]) (simp add: that(1))
  qed
  ultimately show ?case
    using r by (simp add: it io_then_def io_bind_def io_ctx_def)
qed

text \<open>A machine with no room for one temporary file.\<close>

definition full_at :: "path \<Rightarrow> nat \<Rightarrow> env" where
  "full_at p m = calm\<lparr>env_fault := (\<lambda>_ o'. if o' = OpenTrunc (tmp_of p) m then Some (OsError 28) else None)\<rparr>"

lemma full_at_fault:
  "env_fault (full_at p m) t o' = (if o' = OpenTrunc (tmp_of p) m then Some (OsError 28) else None)"
  by (simp add: full_at_def)

lemma full_at_other:
  assumes "is_target q" and "path_parent q = Some d" and "flat d (w_fs w)" and "tmp_of q \<noteq> tmp_of p"
  obtains w' where "write_atomic (full_at p m) q x b w = (Inr (), w')" and "flat d (w_fs w')"
proof -
  obtain r w' where r: "write_atomic (full_at p m) q x b w = (r, w')" by (cases "write_atomic (full_at p m) q x b w")
  have "env_fault (full_at p m) t o' = None" if "write_op q o'" for t o'
    using that assms(4) by (cases o') (auto simp: full_at_fault)
  then have "r = Inr ()"
    using write_atomic_succeeds [OF assms(1) flat_clear [OF assms(3,2,1)], of "full_at p m" x b] r by simp
  moreover obtain n where "path_file_name q = Some n" using assms(1) by (auto simp: is_target_def)
  with r have "flat d (w_fs w')" using keepsD [OF flat_keeps [OF assms(2)] assms(3) r] by blast
  ultimately show thesis using r that by blast
qed

lemma full_at_fails:
  assumes "is_target p" and "path_parent p = Some d" and "flat d (w_fs w)" and "m = (if b then 0x180 else 0x1A4)"
  obtains e w' where "write_atomic (full_at p m) p x b w = (Inl e, w')"
proof -
  obtain n where n: "path_file_name p = Some n" using assms(1) by (auto simp: is_target_def)
  have tmp: "path_join d (tmp_name n) = tmp_of p" by (simp add: tmp_of_eq [OF assms(2) n])
  have "isl (fst (write_atomic (full_at p m) p x b w))"
    using assms(3,4)
    by (simp add: write_atomic_def assms(2) n tmp create_dir_all_def open_trunc_def prim_def full_at_fault
        fs_create_dir_all_def flat_def io_defs Let_def)
  then show thesis
    using that by (cases "write_atomic (full_at p m) p x b w") (auto simp: isl_def)
qed

lemma flat_empty: "flat d empty_fs"
  by (simp add: flat_def blocked_iff cur_def vers_def empty_fs_def)

lemma flat_add_file:
  assumes "flat d s" and "p \<notin> set (path_prefixes d)"
  shows "flat d (add_file p x m s)"
proof -
  have "cur (add_file p x m s) q = cur s q" if "q \<in> set (path_prefixes d)" for q
    using that assms(2) by (auto simp: cur_def vers_add_file)
  with assms(1) show ?thesis
    by (auto simp: flat_def blocked_iff cur_def vers_add_file split: entry.splits)
qed

text \<open>The state a run ends in is among those it passed through, unless it changed nothing.\<close>

definition tracked :: "fsys \<Rightarrow> world \<Rightarrow> bool" where
  "tracked s w \<longleftrightarrow> (if w_snaps w = [] then w_fs w = s else last (w_snaps w) = w_fs w)"

lemma tracked_prim: "keeps (tracked s) (prim E o' f)"
  by (rule keepsI) (auto simp: prim_def tracked_def split: option.splits sum.splits)

lemma tracked_write_all: "keeps (tracked s) (write_all E i d)"
  by (rule keepsI) (auto simp: write_all_def tracked_def split: option.splits)

lemma tracked_write_atomic: "keeps (tracked s) (write_atomic E p c priv)"
  unfolding write_atomic_def Let_def prim_op_defs by (intro keeps_rules tracked_prim tracked_write_all)

lemma tracked_puts: "keeps (tracked s) (put_items (write_atomic E) its)"
proof (induction its)
  case Nil
  show ?case unfolding put_items.simps by (rule keeps_ret)
next
  case (Cons it its)
  obtain c p x b where it: "it = (c, p, x, b)" by (cases it)
  show ?case unfolding it put_items.simps by (intro keeps_rules tracked_write_atomic Cons)
qed

lemma tracked_last:
  assumes "tracked s w'" and "w_fs w' \<noteq> s" and "w_snaps w = []"
  shows "w_fs w' \<in> set (passed w w')"
  using assms last_in_set [of "w_snaps w'"] by (auto simp: tracked_def passed_def split: if_splits)

end
