(* ===== verification/Power_Loss.thy ===== *)
theory Power_Loss
  imports Put_Success
begin

text \<open>
  Power loss, for the whole file system at once: which states the machine may come up with, what
  \<open>write_atomic\<close> (crates/noded/src/est.rs) promises about them where directory syncs work, as the
  interface \<open>durable_store\<close>, and what a sequence of writes leaves when the power goes in the middle.
\<close>

section \<open>The file system after a power loss\<close>

text \<open>A directory above the path is gone.\<close>

definition lost_above :: "fsys \<Rightarrow> path \<Rightarrow> bool" where
  "lost_above t p \<longleftrightarrow>
     (\<exists>q \<in> set (butlast (path_prefixes p)). q \<noteq> [RootDir] \<and> q \<noteq> [CurDir] \<and> cur t q = Absent)"

text \<open>
  Each entry that is left is one of those not yet superseded on disk, and what lay below a lost
  directory is lost too. Synced contents are kept. A file has two names afterwards only if it had
  them before: a rename that is half on disk is completed or undone, as journaling file systems do.
\<close>

definition after_crash :: "fsys \<Rightarrow> fsys \<Rightarrow> bool" where
  "after_crash s t \<longleftrightarrow>
     (\<forall>p. vers t p = [cur t p] \<and> (if lost_above t p then cur t p = Absent else cur t p \<in> set (vers s p))) \<and>
     (\<forall>p q i. p \<noteq> q \<and> cur t p = FileAt i \<and> cur t q = FileAt i \<longrightarrow> cur s p = FileAt i \<and> cur s q = FileAt i) \<and>
     (\<forall>i. i_synced (fs_inodes t i) \<and> (i_synced (fs_inodes s i) \<longrightarrow> fs_inodes t i = fs_inodes s i)) \<and>
     fs_next t = fs_next s"

lemma after_crash_ent:
  assumes "after_crash s t"
  shows "vers t p = [cur t p]" and "lost_above t p \<Longrightarrow> cur t p = Absent"
    and "\<not> lost_above t p \<Longrightarrow> cur t p \<in> set (vers s p)"
  using assms by (auto simp: after_crash_def split: if_splits)

lemma crash_lost: "after_crash s t \<Longrightarrow> lost_above t p \<Longrightarrow> content t p = None"
  by (simp add: content_def after_crash_ent)

lemma crash_may_hold:
  assumes "after_crash s t" and "\<not> lost_above t p"
  shows "may_hold s p (content t p)"
proof -
  have "i_synced (fs_inodes s i) \<Longrightarrow> fs_inodes t i = fs_inodes s i" for i
    using assms(1) by (simp add: after_crash_def)
  then have "entry_survives s (content t p) (cur t p)" by (cases "cur t p") (auto simp: content_def)
  with after_crash_ent(3) [OF assms] show ?thesis by (auto simp: may_hold_def)
qed

text \<open>A path prefix, seen from the path.\<close>

lemma proper_prefix_iff: "q \<in> set (butlast (path_prefixes p)) \<longleftrightarrow> q \<noteq> [] \<and> (\<exists>r. r \<noteq> [] \<and> p = q @ r)"
proof (cases p rule: rev_cases)
  case Nil
  then show ?thesis by simp
next
  case (snoc d x)
  have "path_prefixes p = path_prefixes d @ [p]" by (simp add: snoc path_prefixes_def)
  then have "q \<in> set (butlast (path_prefixes p)) \<longleftrightarrow> q \<noteq> [] \<and> (\<exists>r. d = q @ r)" by (simp add: set_path_prefixes)
  also have "(\<exists>r. d = q @ r) \<longleftrightarrow> (\<exists>r. r \<noteq> [] \<and> p = q @ r)"
  proof
    assume "\<exists>r. d = q @ r"
    then show "\<exists>r. r \<noteq> [] \<and> p = q @ r" using snoc by force
  next
    assume "\<exists>r. r \<noteq> [] \<and> p = q @ r"
    then obtain r where r: "r \<noteq> []" "d @ [x] = q @ r" using snoc by auto
    have "d = butlast (q @ r)" using r(2) [symmetric] by simp
    with r(1) have "d = q @ butlast r" by (simp add: butlast_append)
    then show "\<exists>r. d = q @ r" ..
  qed
  finally show ?thesis .
qed

lemma proper_prefix_trans:
  "r \<in> set (butlast (path_prefixes q)) \<Longrightarrow> q \<in> set (path_prefixes p) \<Longrightarrow> r \<in> set (butlast (path_prefixes p))"
  unfolding proper_prefix_iff set_path_prefixes by (elim conjE exE) simp

lemma lost_above_mono: "lost_above t q \<Longrightarrow> q \<in> set (path_prefixes p) \<Longrightarrow> lost_above t p"
  unfolding lost_above_def using proper_prefix_trans by blast

lemma anchored_above: "anchored s p \<Longrightarrow> q \<in> set (path_prefixes p) \<Longrightarrow> anchored s q"
  unfolding anchored_def using proper_prefix_trans by blast

text \<open>Nothing below directories that are on disk for good is lost with its directory.\<close>

lemma crash_anchored_not_lost:
  assumes "after_crash s t" and "anchored s p"
  shows "\<not> lost_above t p"
  using assms(2)
proof (induction "length p" arbitrary: p rule: less_induct)
  case less
  show ?case
  proof
    assume "lost_above t p"
    then obtain q where q: "q \<in> set (butlast (path_prefixes p))" "q \<noteq> [RootDir]" "cur t q = Absent"
      by (auto simp: lost_above_def)
    then have "q \<in> set (path_prefixes p)" "length q < length p"
      by (auto simp: proper_prefix_iff set_path_prefixes)
    then have "\<not> lost_above t q" using less anchored_above by blast
    with after_crash_ent(3) [OF assms(1)] q(3) have "Absent \<in> set (vers s q)" by metis
    with less.prems q(1,2) show False unfolding anchored_def by blast
  qed
qed

lemma crash_anchored:
  assumes "after_crash s t" and "anchored s p"
  shows "anchored t p"
  unfolding anchored_def
proof (rule ballI, rule disjCI)
  fix q
  assume q: "q \<in> set (butlast (path_prefixes p))" and "\<not> Absent \<notin> set (vers t q)"
  then have "q \<in> set (path_prefixes p)" by (auto dest: in_set_butlastD)
  then have "\<not> lost_above t q" using crash_anchored_not_lost [OF assms(1)] anchored_above [OF assms(2)] by blast
  then have "cur t q \<in> set (vers s q)" by (rule after_crash_ent(3) [OF assms(1)])
  moreover have "cur t q = Absent"
    using \<open>\<not> Absent \<notin> set (vers t q)\<close> by (simp add: after_crash_ent(1) [OF assms(1)])
  ultimately show "q = [RootDir]" using assms(2) q unfolding anchored_def by metis
qed

lemma crash_survives: "after_crash s t \<Longrightarrow> survives s p (content t p)"
  unfolding survives_def by (metis crash_may_hold crash_lost crash_anchored_not_lost)

text \<open>The machine comes up with a well-formed file system, so \<open>noded\<close> can go on with it.\<close>

lemma crash_wf:
  assumes "after_crash s t" and "wf_fs s"
  shows "wf_fs t"
proof -
  note e = after_crash_ent [OF assms(1)]
  have old: "FileAt i \<in> set (vers s p)" if "cur t p = FileAt i" for p i
    using e(2,3) [of p] that by (cases "lost_above t p") auto
  have two: "cur s p = FileAt i \<and> cur s q = FileAt i" if "p \<noteq> q" "cur t p = FileAt i" "cur t q = FileAt i" for p q i
    using assms(1) that unfolding after_crash_def by blast
  have "fs_next t = fs_next s" using assms(1) by (simp add: after_crash_def)
  then have "refs_used t" using assms(2) old by (auto simp: refs_used_def wf_fs_def e(1) dest!: sym [of "FileAt i" for i])
  moreover have "unshared t p" if "is_tmp p" for p
    unfolding unshared_def
  proof (intro allI impI notI)
    fix i q
    assume "cur t p = FileAt i" "q \<noteq> p" "FileAt i \<in> set (vers t q)"
    then have "cur s p = FileAt i \<and> cur s q = FileAt i" by (intro two) (simp_all add: e(1))
    with assms(2) that \<open>q \<noteq> p\<close> cur_in_vers [of s q] show False by (auto simp: wf_fs_def unshared_def)
  qed
  ultimately show ?thesis by (simp add: wf_fs_def)
qed

text \<open>
  One such state: the newest entries, without those below \<open>cs\<close>, whose creation had not reached
  the disk.
\<close>

definition cut_without :: "path list \<Rightarrow> fsys \<Rightarrow> fsys" where
  "cut_without cs s =
     s\<lparr>fs_ents := (\<lambda>p. [if lost_above s p \<or> list_ex (\<lambda>c. c \<in> set (path_prefixes p)) cs then Absent else cur s p]),
       fs_inodes := (\<lambda>i. (fs_inodes s i)\<lparr>i_synced := True\<rparr>)\<rparr>"

lemma cut_without_ent:
  "vers (cut_without cs s) p = [if lost_above s p \<or> list_ex (\<lambda>c. c \<in> set (path_prefixes p)) cs then Absent else cur s p]"
  "cur (cut_without cs s) p = (if lost_above s p \<or> list_ex (\<lambda>c. c \<in> set (path_prefixes p)) cs then Absent else cur s p)"
  by (simp_all add: cut_without_def vers_def cur_def)

lemma cut_without_content:
  "content (cut_without cs s) p =
     (if lost_above s p \<or> list_ex (\<lambda>c. c \<in> set (path_prefixes p)) cs then None else content s p)"
proof -
  have "i_data (fs_inodes (cut_without cs s) i) = i_data (fs_inodes s i)" for i by (simp add: cut_without_def)
  then show ?thesis by (simp add: content_def cut_without_ent split: entry.split)
qed

lemma cut_without_crash:
  assumes "list_all (\<lambda>c. c \<noteq> [RootDir] \<and> c \<noteq> [CurDir] \<and> Absent \<in> set (vers s c)) cs"
  shows "after_crash s (cut_without cs s)"
proof -
  let ?t = "cut_without cs s"
  have "(if lost_above ?t p then cur ?t p = Absent else cur ?t p \<in> set (vers s p))" for p
  proof (cases "lost_above s p \<or> list_ex (\<lambda>c. c \<in> set (path_prefixes p)) cs")
    case False
    moreover have "\<not> lost_above ?t p"
    proof
      assume "lost_above ?t p"
      then obtain q where q: "q \<in> set (butlast (path_prefixes p))" "q \<noteq> [RootDir]" "q \<noteq> [CurDir]" "cur ?t q = Absent"
        by (auto simp: lost_above_def)
      then have qp: "q \<in> set (path_prefixes p)" by (auto dest: in_set_butlastD)
      have "\<not> lost_above s q" "\<not> list_ex (\<lambda>c. c \<in> set (path_prefixes q)) cs"
        using False lost_above_mono [OF _ qp] qp by (auto simp: list_ex_iff set_path_prefixes)
      then have "cur s q = Absent" using q(4) by (simp add: cut_without_ent)
      with q False show False unfolding lost_above_def by blast
    qed
    ultimately show ?thesis by (simp add: cut_without_ent cur_in_vers)
  next
    case True
    have "Absent \<in> set (vers s p)" if "\<not> lost_above ?t p"
    proof -
      have "\<not> lost_above s p"
      proof
        assume "lost_above s p"
        then obtain q where q: "q \<in> set (butlast (path_prefixes p))" "q \<noteq> [RootDir]" "q \<noteq> [CurDir]" "cur s q = Absent"
          by (auto simp: lost_above_def)
        then have "cur ?t q = Absent" by (simp add: cut_without_ent)
        with q that show False unfolding lost_above_def by blast
      qed
      with True obtain c where c: "c \<in> set cs" "c \<in> set (path_prefixes p)" by (auto simp: list_ex_iff)
      then have ca: "c \<noteq> [RootDir]" "c \<noteq> [CurDir]" "Absent \<in> set (vers s c)" using assms by (auto simp: list_all_iff)
      have "c \<in> set (path_prefixes c)" using c(2) by (auto simp: set_path_prefixes)
      then have "cur ?t c = Absent" using c(1) by (auto simp: cut_without_ent list_ex_iff)
      with that ca c(2) have "c = p" by (auto simp: lost_above_def proper_prefix_iff set_path_prefixes)
      with ca show ?thesis by simp
    qed
    with True show ?thesis by (auto simp: cut_without_ent)
  qed
  moreover have "vers ?t p = [cur ?t p]" for p by (simp add: cut_without_ent)
  moreover have "cur s p = FileAt i" if "cur ?t p = FileAt i" for p i
    using that by (simp add: cut_without_ent split: if_splits)
  moreover have "i_synced (fs_inodes ?t i) \<and> (i_synced (fs_inodes s i) \<longrightarrow> fs_inodes ?t i = fs_inodes s i)"
      "fs_next ?t = fs_next s" for i
    by (simp_all add: cut_without_def)
  ultimately show ?thesis unfolding after_crash_def by blast
qed

section \<open>A machine whose directory syncs work\<close>

text \<open>
  \<open>write_atomic\<close> ignores a directory sync that fails. \<open>syncs\<close> says that none does, and \<open>syncing E\<close>
  is the machine \<open>E\<close> without these failures; every other operation fails as in \<open>E\<close>.
\<close>

definition syncs :: "env \<Rightarrow> bool" where
  "syncs E \<longleftrightarrow> (\<forall>t d. env_fault E t (OpenDir d) = None \<and> env_fault E t (SyncDir d) = None)"

definition syncing :: "env \<Rightarrow> env" where
  "syncing E = E\<lparr>env_fault := (\<lambda>t o'. case o' of OpenDir _ \<Rightarrow> None | SyncDir _ \<Rightarrow> None | _ \<Rightarrow> env_fault E t o')\<rparr>"

lemma syncs_syncing: "syncs (syncing E)"
  by (simp add: syncs_def syncing_def)

lemma syncing_same:
  assumes "syncs E" shows "syncing E = E"
proof -
  have "(case o' of OpenDir _ \<Rightarrow> None | SyncDir _ \<Rightarrow> None | _ \<Rightarrow> env_fault E t o') = env_fault E t o'" for t o'
    using assms by (cases o') (simp_all add: syncs_def)
  then show ?thesis by (simp add: syncing_def)
qed

text \<open>A target in a directory that can be opened by name, with no temporary file above it.\<close>

definition durable_target :: "path \<Rightarrow> bool" where
  "durable_target p \<longleftrightarrow> is_target p \<and> path_parent p \<noteq> Some [] \<and> list_all (\<lambda>q. \<not> is_tmp q) (path_prefixes p)"

lemma durable_is_target: "durable_target p \<Longrightarrow> is_target p"
  by (simp add: durable_target_def)

lemma syncing_settles:
  assumes "syncs E" and "is_target p" and "path_parent p = Some d" and "d \<noteq> []"
  shows "triple (\<lambda>_. True) (write_atomic E p c priv) (\<lambda>_ w. vers (w_fs w) p = [cur (w_fs w) p]) (\<lambda>_ _. True)"
proof -
  obtain n where n: "path_file_name p = Some n" using assms(2) by (auto simp: is_target_def)
  have tmp: "path_join d (tmp_name n) = tmp_of p" by (simp add: tmp_of_eq [OF assms(3) n])
  have p: "p = path_join d n" by (rule path_split_name [OF n assms(3)])
  have ne: "d \<noteq> p" "d \<noteq> tmp_of p" by (simp add: p path_join_def) (simp add: tmp [symmetric] path_join_def)
  let ?Q = "\<lambda>_ w. vers (w_fs w) p = [cur (w_fs w) p]"
  have rn: "triple (\<lambda>_. True) (rename E (tmp_of p) p) (\<lambda>_ w. is_dir (w_fs w) d) (\<lambda>_ _. True)"
    unfolding rename_def using ne assms(3)
    by (intro triple_prim) (auto simp: fs_rename_def is_dir_def fs_simps split: entry.splits if_splits)
  have od: "triple (\<lambda>w. is_dir (w_fs w) d) (open_dir E d) (\<lambda>_ _. True) (\<lambda>_ _. False)"
    unfolding open_dir_def using assms(1,4) by (intro triple_prim_sure) (auto simp: syncs_def)
  have sd: "triple (\<lambda>_. True) (sync_dir E d) ?Q (\<lambda>_ _. False)"
    unfolding sync_dir_def using assms(1,3) by (intro triple_prim_sure) (auto simp: syncs_def fs_simps)
  have opened: "triple (\<lambda>w. is_dir (w_fs w) d) (io_attempt (open_dir E d)) (\<lambda>r _. \<not> isl r) (\<lambda>_ _. True)"
    by (rule triple_attempt, rule triple_weaken [OF od]) simp_all
  have end_of: "triple (\<lambda>w. is_dir (w_fs w) d)
      (io_bind (io_attempt (open_dir E d)) (\<lambda>r. case r of Inl _ \<Rightarrow> io_ret () | Inr _ \<Rightarrow> io_ignore (sync_dir E d)))
      ?Q (\<lambda>_ _. True)"
  proof (rule triple_bind [OF opened])
    fix r :: "err + unit"
    show "triple (\<lambda>_. \<not> isl r) (case r of Inl _ \<Rightarrow> io_ret () | Inr _ \<Rightarrow> io_ignore (sync_dir E d)) ?Q (\<lambda>_ _. True)"
    proof (cases r)
      case (Inl e)
      then show ?thesis by (simp add: triple_def)
    next
      case (Inr u)
      have "triple (\<lambda>_. True) (io_ignore (sync_dir E d)) ?Q (\<lambda>_ _. True)"
        by (rule triple_ignore, rule triple_weaken [OF sd]) simp_all
      with Inr show ?thesis by (auto intro: triple_weaken)
    qed
  qed
  show ?thesis
    unfolding write_atomic_def n assms(3) option.case Let_def tmp
    by (rule end_of | rule triple_then, rule triple_ctx, rule rn | rule triple_then, rule triple_true
        | rule triple_bind, rule triple_true)+
qed

section \<open>The interface: a store whose files survive a power loss\<close>

text \<open>A state of the file system a command passes through or ends in.\<close>

definition seen :: "world \<Rightarrow> world \<Rightarrow> fsys \<Rightarrow> bool" where
  "seen w w' t \<longleftrightarrow> t \<in> set (passed w w') \<or> t = w_fs w'"

lemma seen_trans:
  assumes "\<exists>ts. w_snaps w1 = w_snaps w @ ts" and "\<exists>us. w_snaps w2 = w_snaps w1 @ us" and "seen w w2 t"
  shows "t \<in> set (passed w w1) \<or> seen w1 w2 t"
  using assms passed_trans [of w1 w _ w2] by (fastforce simp: seen_def)

locale durable_store = file_store put target ok
  for put :: "path \<Rightarrow> string \<Rightarrow> bool \<Rightarrow> unit cmd" and target :: "path \<Rightarrow> bool" and ok :: "fsys \<Rightarrow> bool" +
  assumes put_settles: "target p \<Longrightarrow> ok (w_fs w) \<Longrightarrow> put p d b w = (Inr x, w') \<Longrightarrow> may_hold (w_fs w') p v \<Longrightarrow> v = Some d"
    and put_loses: "target p \<Longrightarrow> ok (w_fs w) \<Longrightarrow> put p d b w = (Inl e, w') \<Longrightarrow> may_hold (w_fs w') p v \<Longrightarrow>
        may_hold (w_fs w) p v"
    and put_crash: "target p \<Longrightarrow> ok (w_fs w) \<Longrightarrow> seen w (snd (put p d b w)) t \<Longrightarrow> may_hold t p v \<Longrightarrow>
        v = Some d \<or> may_hold (w_fs w) p v"
    and put_beside: "target p \<Longrightarrow> target q \<Longrightarrow> q \<noteq> p \<Longrightarrow> ok (w_fs w) \<Longrightarrow> seen w (snd (put p d b w)) t \<Longrightarrow>
        may_hold t q v \<Longrightarrow> may_hold (w_fs w) q v"
    and put_seen_ok: "target p \<Longrightarrow> ok (w_fs w) \<Longrightarrow> seen w (snd (put p d b w)) t \<Longrightarrow> ok t"
    and put_anchored: "target p \<Longrightarrow> target q \<Longrightarrow> ok (w_fs w) \<Longrightarrow> seen w (snd (put p d b w)) t \<Longrightarrow>
        anchored (w_fs w) q \<Longrightarrow> anchored t q"

text \<open>
  \<open>crash_prefix s its t\<close>: after a power loss in \<open>t\<close>, a first part of the files is new, the next one
  is new or old, and the rest is as it may have been left in \<open>s\<close>.
\<close>

definition holds_new :: "fsys \<Rightarrow> put_item \<Rightarrow> bool" where
  "holds_new t it \<longleftrightarrow> (\<forall>v. may_hold t (item_path it) v \<longrightarrow> v = Some (item_data it))"

definition holds_old :: "fsys \<Rightarrow> fsys \<Rightarrow> put_item \<Rightarrow> bool" where
  "holds_old s t it \<longleftrightarrow> (\<forall>v. may_hold t (item_path it) v \<longrightarrow> may_hold s (item_path it) v)"

definition holds_either :: "fsys \<Rightarrow> fsys \<Rightarrow> put_item \<Rightarrow> bool" where
  "holds_either s t it \<longleftrightarrow>
     (\<forall>v. may_hold t (item_path it) v \<longrightarrow> v = Some (item_data it) \<or> may_hold s (item_path it) v)"

definition crash_prefix :: "fsys \<Rightarrow> put_item list \<Rightarrow> fsys \<Rightarrow> bool" where
  "crash_prefix s its t \<longleftrightarrow>
     (\<exists>xs ys. its = xs @ ys \<and> list_all (holds_new t) xs \<and>
        (ys = [] \<or> holds_either s t (hd ys) \<and> list_all (holds_old s t) (tl ys)))"

text \<open>At the end of the sequence no file is in between.\<close>

definition clean_prefix :: "fsys \<Rightarrow> put_item list \<Rightarrow> fsys \<Rightarrow> bool \<Rightarrow> bool" where
  "clean_prefix s its t all \<longleftrightarrow>
     (\<exists>xs ys. its = xs @ ys \<and> list_all (holds_new t) xs \<and> list_all (holds_old s t) ys \<and> (all \<longrightarrow> ys = []))"

context durable_store
begin

lemma put_snaps: "target p \<Longrightarrow> ok (w_fs w) \<Longrightarrow> \<exists>ts. w_snaps (snd (put p d b w)) = w_snaps w @ ts"
  using put_hist by blast

lemma puts_snaps:
  assumes "\<forall>it \<in> set its. target (item_path it)" and "ok (w_fs w)"
  shows "\<exists>ts. w_snaps (snd (put_items put its w)) = w_snaps w @ ts"
  using assms
proof (induction its arbitrary: w)
  case Nil
  then show ?case by simp
next
  case (Cons it its)
  obtain c p d b where it: "it = (c, p, d, b)" by (cases it)
  obtain r w1 where r: "put p d b w = (r, w1)" by (cases "put p d b w")
  have p: "target p" using Cons.prems(1) by (simp add: it)
  have "ok (w_fs w1)" using put_ok [OF p Cons.prems(2), of d b] r by simp
  then have "\<exists>ts. w_snaps (snd (put_items put its w1)) = w_snaps w1 @ ts" using Cons by simp
  with put_snaps [OF p Cons.prems(2), of d b] r show ?case
    by (cases r) (auto simp: it io_then_def io_bind_def io_ctx_def)
qed

text \<open>One step of a sequence: where it fails, or where it goes on and which states that adds.\<close>

lemma puts_step:
  assumes "\<forall>i \<in> set ((c, p, d, b) # its). target (item_path i)" and "ok (w_fs w)"
    and "put_items put ((c, p, d, b) # its) w = (r, w')"
  obtains (fail) e where "put p d b w = (Inl e, w')" "isl r"
  | (go) w1 where "put p d b w = (Inr (), w1)" "put_items put its w1 = (r, w')" "ok (w_fs w1)"
      "\<And>t. seen w w' t \<Longrightarrow> seen w w1 t \<or> seen w1 w' t"
proof -
  obtain q w1 where q: "put p d b w = (q, w1)" by (cases "put p d b w")
  have p: "target p" using assms(1) by simp
  have ok1: "ok (w_fs w1)" using put_ok [OF p assms(2), of d b] q by simp
  show thesis
  proof (cases q)
    case (Inl e)
    with q assms(3) fail show thesis by (auto simp: io_then_def io_bind_def io_ctx_def)
  next
    case (Inr u)
    with q assms(3) have rest: "put_items put its w1 = (r, w')" by (simp add: io_then_def io_bind_def io_ctx_def)
    have "\<exists>us. w_snaps w' = w_snaps w1 @ us" using puts_snaps [of its w1] assms(1) ok1 rest by simp
    moreover have "\<exists>ts. w_snaps w1 = w_snaps w @ ts" using put_snaps [OF p assms(2), of d b] q by simp
    ultimately have "seen w w1 t \<or> seen w1 w' t" if "seen w w' t" for t
      using seen_trans [of w1 w w' t] that by (auto simp: seen_def)
    with q Inr rest ok1 go show thesis by simp
  qed
qed

lemma puts_beside:
  assumes "\<forall>it \<in> set its. target (item_path it)" and "ok (w_fs w)" and "put_items put its w = (r, w')"
    and "seen w w' t" and "target q" and "q \<notin> item_path ` set its" and "may_hold t q v"
  shows "may_hold (w_fs w) q v"
  using assms(1-4,6)
proof (induction its arbitrary: w)
  case Nil
  with assms(7) show ?case by (simp add: seen_def passed_def)
next
  case (Cons it its)
  obtain c p d b where it: "it = (c, p, d, b)" by (cases it)
  have p: "target p" "q \<noteq> p" using Cons.prems(1,5) by (auto simp: it)
  note beside = put_beside [OF p(1) assms(5) p(2)]
  from Cons.prems(1,2,3) show ?case unfolding it
  proof (cases rule: puts_step)
    case (fail e)
    with beside [OF Cons.prems(2), of d b t v] Cons.prems(4) assms(7) show ?thesis by simp
  next
    case (go w1)
    from go(4) [OF Cons.prems(4)] have "may_hold (w_fs w1) q v \<or> may_hold (w_fs w) q v"
      using Cons.IH [OF _ go(3,2)] Cons.prems(1,5) beside [OF Cons.prems(2), of d b t v] go(1) assms(7) by auto
    moreover have "seen w w1 (w_fs w1)" by (simp add: seen_def)
    ultimately show ?thesis using beside [OF Cons.prems(2), of d b "w_fs w1" v] go(1) by auto
  qed
qed

lemma puts_seen_ok:
  assumes "\<forall>it \<in> set its. target (item_path it)" and "ok (w_fs w)" and "put_items put its w = (r, w')"
    and "seen w w' t"
  shows "ok t"
  using assms
proof (induction its arbitrary: w)
  case Nil
  then show ?case by (simp add: seen_def passed_def)
next
  case (Cons it its)
  obtain c p d b where it: "it = (c, p, d, b)" by (cases it)
  have p: "target p" using Cons.prems(1) by (auto simp: it)
  note step = put_seen_ok [OF p Cons.prems(2), of d b t]
  from Cons.prems(1,2,3) show ?case unfolding it
  proof (cases rule: puts_step)
    case (fail e)
    with step Cons.prems(4) show ?thesis by simp
  next
    case (go w1)
    with go(4) [OF Cons.prems(4)] Cons.IH [OF _ go(3,2)] Cons.prems(1) step show ?thesis by auto
  qed
qed

lemma puts_anchored:
  assumes "\<forall>it \<in> set its. target (item_path it)" and "ok (w_fs w)" and "put_items put its w = (r, w')"
    and "seen w w' t" and "target q" and "anchored (w_fs w) q"
  shows "anchored t q"
  using assms(1-4,6)
proof (induction its arbitrary: w)
  case Nil
  then show ?case by (simp add: seen_def passed_def)
next
  case (Cons it its)
  obtain c p d b where it: "it = (c, p, d, b)" by (cases it)
  have p: "target p" using Cons.prems(1) by (auto simp: it)
  note anc = put_anchored [OF p assms(5) Cons.prems(2) _ Cons.prems(5), of d b]
  from Cons.prems(1,2,3) show ?case unfolding it
  proof (cases rule: puts_step)
    case (fail e)
    with anc Cons.prems(4) show ?thesis by simp
  next
    case (go w1)
    have "anchored (w_fs w1) q" using anc [of "w_fs w1"] go(1) by (simp add: seen_def)
    with go(4) [OF Cons.prems(4)] Cons.IH [OF _ go(3,2)] Cons.prems(1) anc [of t] go(1) show ?thesis by auto
  qed
qed

text \<open>Where the next file is done for good, the states that follow are those of the rest.\<close>

lemma puts_after:
  assumes "\<forall>i \<in> set ((c, p, d, b) # its). target (item_path i)" and "p \<notin> item_path ` set its"
    and "ok (w_fs w)" and "put p d b w = (Inr (), w1)" and "put_items put its w1 = (r, w')" and "seen w1 w' t"
  shows "holds_new t (c, p, d, b)" and "holds_old (w_fs w1) t it \<Longrightarrow> it \<in> set its \<Longrightarrow> holds_old (w_fs w) t it"
    and "holds_either (w_fs w1) t it \<Longrightarrow> it \<in> set its \<Longrightarrow> holds_either (w_fs w) t it"
proof -
  have p: "target p" and its: "\<forall>i \<in> set its. target (item_path i)" using assms(1) by simp_all
  have ok1: "ok (w_fs w1)" using put_ok [OF p assms(3), of d b] assms(4) by simp
  show "holds_new t (c, p, d, b)"
    using puts_beside [OF its ok1 assms(5,6) p assms(2)] put_settles [OF p assms(3,4)] by (simp add: holds_new_def)
  have old: "may_hold (w_fs w) (item_path it) v" if "may_hold (w_fs w1) (item_path it) v" "it \<in> set its" for it v
  proof -
    have "target (item_path it)" "item_path it \<noteq> p" using its assms(2) that(2) by auto
    from put_beside [OF p this assms(3), of d b "w_fs w1"] that(1) assms(4) show ?thesis by (simp add: seen_def)
  qed
  then show "holds_old (w_fs w1) t it \<Longrightarrow> it \<in> set its \<Longrightarrow> holds_old (w_fs w) t it"
    by (simp add: holds_old_def)
  show "holds_either (w_fs w1) t it \<Longrightarrow> it \<in> set its \<Longrightarrow> holds_either (w_fs w) t it"
    using old unfolding holds_either_def by blast
qed

lemma list_all_set_mono: "list_all P xs \<Longrightarrow> (\<And>x. x \<in> set xs \<Longrightarrow> P x \<Longrightarrow> Q x) \<Longrightarrow> list_all Q xs"
  by (simp add: list_all_iff)

lemma puts_crash:
  assumes "\<forall>it \<in> set its. target (item_path it)" and "distinct (map item_path its)" and "ok (w_fs w)"
    and "put_items put its w = (r, w')" and "seen w w' t"
  shows "crash_prefix (w_fs w) its t"
  using assms
proof (induction its arbitrary: w)
  case Nil
  then show ?case by (simp add: crash_prefix_def)
next
  case (Cons it its)
  obtain c p d b where it: "it = (c, p, d, b)" by (cases it)
  have p: "target p" and its: "\<forall>i \<in> set its. target (item_path i)" "p \<notin> item_path ` set its"
    using Cons.prems(1,2) by (auto simp: it)
  have first: "crash_prefix (w_fs w) (it # its) t" if now: "seen w (snd (put p d b w)) t"
  proof -
    have "holds_either (w_fs w) t it"
      using put_crash [OF p Cons.prems(3) now] by (simp add: holds_either_def it)
    moreover have "holds_old (w_fs w) t i" if "i \<in> set its" for i
      using put_beside [OF p _ _ Cons.prems(3) now] its that unfolding holds_old_def by blast
    ultimately show ?thesis
      unfolding crash_prefix_def by (intro exI [of _ "[]"] exI [of _ "it # its"]) (simp add: list_all_iff)
  qed
  from Cons.prems(1,3,4) show ?case unfolding it
  proof (cases rule: puts_step)
    case (fail e)
    then show "crash_prefix (w_fs w) ((c, p, d, b) # its) t" using first Cons.prems(5) by (simp add: it)
  next
    case (go w1)
    show "crash_prefix (w_fs w) ((c, p, d, b) # its) t"
    proof (cases "seen w w1 t")
      case True
      then show ?thesis using first go(1) by (simp add: it)
    next
      case False
      with go(4) Cons.prems(5) have t: "seen w1 w' t" by blast
      note after = puts_after [OF _ its(2) Cons.prems(3) go(1,2) t, of c]
      have "crash_prefix (w_fs w1) its t" using Cons.IH [OF its(1) _ go(3,2) t] Cons.prems(2) by simp
      then obtain xs ys where xy: "its = xs @ ys" "list_all (holds_new t) xs"
        "ys = [] \<or> holds_either (w_fs w1) t (hd ys) \<and> list_all (holds_old (w_fs w1) t) (tl ys)"
        unfolding crash_prefix_def by blast
      have "ys = [] \<or> holds_either (w_fs w) t (hd ys) \<and> list_all (holds_old (w_fs w) t) (tl ys)"
        using xy(1,3) after(2,3) Cons.prems(1)
        by (cases ys) (auto simp: it elim!: list_all_set_mono)
      with xy after(1) Cons.prems(1) show ?thesis
        unfolding crash_prefix_def by (intro exI [of _ "it # xs"] exI [of _ ys]) (simp add: it)
    qed
  qed
qed

lemma puts_final:
  assumes "\<forall>it \<in> set its. target (item_path it)" and "distinct (map item_path its)" and "ok (w_fs w)"
    and "put_items put its w = (r, w')"
  shows "clean_prefix (w_fs w) its (w_fs w') (\<not> isl r)"
  using assms
proof (induction its arbitrary: w)
  case Nil
  then show ?case by (simp add: clean_prefix_def)
next
  case (Cons it its)
  obtain c p d b where it: "it = (c, p, d, b)" by (cases it)
  have p: "target p" and its: "\<forall>i \<in> set its. target (item_path i)" "p \<notin> item_path ` set its"
    using Cons.prems(1,2) by (auto simp: it)
  have at_end: "seen w1 w' (w_fs w')" for w1 by (simp add: seen_def)
  from Cons.prems(1,3,4) show ?case unfolding it
  proof (cases rule: puts_step)
    case (fail e)
    have "holds_old (w_fs w) (w_fs w') (c, p, d, b)"
      using put_loses [OF p Cons.prems(3) fail(1)] by (simp add: holds_old_def)
    moreover have "holds_old (w_fs w) (w_fs w') i" if "i \<in> set its" for i
      using put_beside [OF p _ _ Cons.prems(3), of "item_path i" d b "w_fs w'"] its that fail(1)
      by (auto simp: holds_old_def seen_def)
    ultimately show "clean_prefix (w_fs w) ((c, p, d, b) # its) (w_fs w') (\<not> isl r)"
      unfolding clean_prefix_def using fail(2)
      by (intro exI [of _ "[]"] exI [of _ "(c, p, d, b) # its"]) (simp add: list_all_iff)
  next
    case (go w1)
    note after = puts_after [OF _ its(2) Cons.prems(3) go(1,2) at_end, of c]
    have "clean_prefix (w_fs w1) its (w_fs w') (\<not> isl r)" using Cons.IH [OF its(1) _ go(3,2)] Cons.prems(2) by simp
    then obtain xs ys where xy: "its = xs @ ys" "list_all (holds_new (w_fs w')) xs"
      "list_all (holds_old (w_fs w1) (w_fs w')) ys" "\<not> isl r \<longrightarrow> ys = []"
      unfolding clean_prefix_def by blast
    have "list_all (holds_old (w_fs w) (w_fs w')) ys"
      using xy(1,3) after(2) Cons.prems(1) by (auto simp: it elim!: list_all_set_mono)
    with xy after(1) Cons.prems(1) show "clean_prefix (w_fs w) ((c, p, d, b) # its) (w_fs w') (\<not> isl r)"
      unfolding clean_prefix_def by (intro exI [of _ "it # xs"] exI [of _ ys]) (simp add: it)
  qed
qed

end

text \<open>Every state of a call, the last one included.\<close>

lemma wa_seen:
  assumes "is_target p" and "wf_fs (w_fs w)" and "seen w (snd (write_atomic E p d b w)) t"
  shows "wa_state (w_fs w) p d t"
proof -
  obtain r w' where r: "write_atomic E p d b w = (r, w')" by (cases "write_atomic E p d b w")
  note c = write_atomic_cases [OF assms(1,2) r]
  then have "wa_hist w p d w'" by (auto simp: wa_before_def wa_after_def split: sum.splits)
  then have "t \<in> set (passed w w') \<Longrightarrow> wa_state (w_fs w) p d t"
    by (auto simp: wa_hist_def passed_def list_all_iff)
  moreover have "wa_state (w_fs w) p d (w_fs w')"
    using c is_target_not_tmp [OF assms(1,1)]
    by (auto simp: wa_before_def wa_after_def wa_state_def split: sum.splits)
  ultimately show ?thesis using assms(3) r by (auto simp: seen_def)
qed

section \<open>What comes up after the power loss\<close>

text \<open>A write that succeeds leaves its file in a directory that is there.\<close>

lemma write_atomic_above:
  assumes "is_target p"
  shows "triple (\<lambda>_. True) (write_atomic E p c priv) (\<lambda>_ w. \<not> lost_above (w_fs w) p) (\<lambda>_ _. True)"
proof -
  obtain n where n: "path_file_name p = Some n" using assms(1) by (auto simp: is_target_def)
  then obtain d where d: "path_parent p = Some d" by (auto simp: path_file_name_Some path_parent_def)
  have tmp: "path_join d (tmp_name n) = tmp_of p" by (simp add: tmp_of_eq [OF d n])
  have p: "p = path_join d n" by (rule path_split_name [OF n d])
  let ?D = "\<lambda>w :: world. \<forall>q \<in> set (path_prefixes d). is_dir (w_fs w) q"
  have "length p = Suc (length d)" by (simp add: p path_join_def)
  moreover have "length (tmp_of p) = Suc (length d)" by (simp add: tmp [symmetric] path_join_def)
  moreover have "length q \<le> length d" if "q \<in> set (path_prefixes d)" for q
    using that by (auto simp: set_path_prefixes)
  ultimately have out: "q \<noteq> p" "q \<noteq> tmp_of p" if "q \<in> set (path_prefixes d)" for q
    using that by fastforce+
  have mk: "triple (\<lambda>_. True) (create_dir_all E d) (\<lambda>_. ?D) (\<lambda>_ _. True)"
    unfolding create_dir_all_def
  proof (rule triple_prim)
    fix w :: world and x s
    assume "fs_create_dir_all d (w_fs w) = Inr (x, s)"
    then have s: "\<not> blocked (w_fs w) d" "s = mkdirs (path_prefixes d) (w_fs w)"
      by (auto simp: fs_create_dir_all_def split: if_splits)
    then show "?D (log (CreateDirAll d) Done (put_fs s w))" using mkdirs_makes by (auto simp: blocked_iff)
  qed simp
  have same: "\<forall>q \<in> set (path_prefixes d). is_dir s q"
    if "?D w" "\<And>q. q \<noteq> p \<Longrightarrow> q \<noteq> tmp_of p \<Longrightarrow> cur s q = cur (w_fs w) q" for w s
    using that out is_dir_cong by metis
  have still: "is_dir (fs_write i x s) q = is_dir s q" "is_dir (fs_sync i s) q = is_dir s q"
      "is_dir (fs_sync_dir e s) q = is_dir s q" for i x s q e
    by (rule is_dir_cong, simp add: fs_simps)+
  have op: "triple ?D (open_trunc E (tmp_of p) m) (\<lambda>_. ?D) (\<lambda>_ _. True)" for m
    unfolding open_trunc_def
  proof (rule triple_prim)
    fix w :: world and x s
    assume D: "?D w" and run: "fs_open_trunc (tmp_of p) m (w_fs w) = Inr (x, s)"
    have "cur s q = cur (w_fs w) q" if "q \<noteq> tmp_of p" for q
      using run that by (auto simp: fs_open_trunc_def fs_simps split: option.splits if_splits entry.splits)
    with same [OF D] show "?D (log (OpenTrunc (tmp_of p) m) Done (put_fs s w))" by simp
  qed simp
  have wr: "triple ?D (write_all E i c) (\<lambda>_. ?D) (\<lambda>_ _. True)" for i
    by (simp add: triple_def write_all_def still split: option.split)
  have sy: "triple ?D (sync_file E i) (\<lambda>_. ?D) (\<lambda>_ _. True)" for i
    unfolding sync_file_def by (rule triple_prim) (auto simp only: sum.inject prod.inject still put_fs_sel log_sel)
  have rn: "triple ?D (rename E (tmp_of p) p) (\<lambda>_. ?D) (\<lambda>_ _. True)"
    unfolding rename_def
  proof (rule triple_prim)
    fix w :: world and x s
    assume D: "?D w" and run: "fs_rename (tmp_of p) p (w_fs w) = Inr (x, s)"
    have "cur s q = cur (w_fs w) q" if "q \<noteq> p" "q \<noteq> tmp_of p" for q
      using run that by (auto simp: fs_rename_def fs_simps split: entry.splits option.splits if_splits)
    with same [OF D] show "?D (log (Rename (tmp_of p) p) Done (put_fs s w))" by simp
  qed simp
  have od: "triple ?D (open_dir E d) (\<lambda>_. ?D) (\<lambda>_. ?D)"
    unfolding open_dir_def by (rule triple_prim) (auto split: if_splits)
  have sd: "triple ?D (sync_dir E d) (\<lambda>_. ?D) (\<lambda>_. ?D)"
    unfolding sync_dir_def by (rule triple_prim) (auto simp only: sum.inject prod.inject still put_fs_sel log_sel)
  have last: "triple ?D (io_bind (io_attempt (open_dir E d))
      (\<lambda>r. case r of Inl _ \<Rightarrow> io_ret () | Inr _ \<Rightarrow> io_ignore (sync_dir E d))) (\<lambda>_. ?D) (\<lambda>_ _. True)"
    by (rule triple_bind [OF triple_attempt [OF od]])
      (auto split: sum.split intro!: triple_ignore sd triple_weaken [OF triple_ret])
  have "triple (\<lambda>_. True) (write_atomic E p c priv) (\<lambda>_. ?D) (\<lambda>_ _. True)"
    unfolding write_atomic_def n d option.case Let_def tmp
    by (rule last | rule triple_then, rule triple_ctx, (rule mk | rule wr | rule sy | rule rn)
        | rule triple_bind, rule triple_ctx, rule op)+
  moreover have "butlast (path_prefixes p) = path_prefixes d" by (simp add: p path_prefixes_def path_join_def)
  ultimately show ?thesis
    by (elim triple_weaken) (auto simp: lost_above_def is_dir_def set_path_prefixes)
qed

lemma puts_above:
  assumes "put_items (write_atomic E) (xs @ [z]) w = (Inr x, w')" and "is_target (item_path z)"
  shows "\<not> lost_above (w_fs w') (item_path z)"
proof -
  obtain c p d b where z: "z = (c, p, d, b)" by (cases z)
  from assms(1) obtain w1 where "write_atomic E p d b w1 = (Inr (), w')"
    by (auto simp: put_items_append z io_defs split: sum.splits prod.splits)
  from tripleD_Inr [OF write_atomic_above _ this] assms(2) show ?thesis by (simp add: z)
qed

lemma above_same_parent:
  assumes "path_parent p = path_parent q" and "path_parent p \<noteq> None"
  shows "butlast (path_prefixes p) = butlast (path_prefixes q)"
proof -
  have "butlast (path_prefixes r) = path_prefixes d" if "path_parent r = Some d" for r d
  proof -
    have "r = d @ [last r]" using path_parent_Some [OF that] by simp
    moreover have "butlast (path_prefixes (d @ [x])) = path_prefixes d" for x by (simp add: path_prefixes_def)
    ultimately show ?thesis by metis
  qed
  with assms show ?thesis by (metis not_None_eq)
qed

text \<open>Paths that no file of a sequence goes through are left alone.\<close>

lemma puts_agree:
  assumes "\<forall>it \<in> set its. is_target (item_path it) \<and> q \<noteq> item_path it" and "\<not> is_tmp q" and "wf_fs (w_fs w)"
  shows "agree (w_fs w) (w_fs (snd (put_items (write_atomic E) its w))) q"
proof -
  let ?I = "\<lambda>v :: world. wf_fs (w_fs v) \<and> agree (w_fs w) (w_fs v) q"
  have one: "keeps ?I (write_atomic E p d b)" if p: "is_target p" "q \<noteq> p" for p d b
  proof (rule keepsI)
    fix v
    assume v: "?I v"
    have "q \<noteq> tmp_of p" using assms(2) p(1) tmp_of_facts(1) [of p] by (auto simp: is_target_def)
    with wa_seen [OF p(1), of v E d b "w_fs (snd (write_atomic E p d b v))"] v p(2)
    show "?I (snd (write_atomic E p d b v))" by (auto simp: seen_def wa_state_def intro: agree_trans)
  qed
  have "keeps ?I (put_items (write_atomic E) its)"
    using assms(1)
  proof (induction its)
    case Nil
    show ?case unfolding put_items.simps by (rule keeps_ret)
  next
    case (Cons it its)
    obtain c p x b where it: "it = (c, p, x, b)" by (cases it)
    show ?case unfolding it put_items.simps using Cons by (intro keeps_rules one) (auto simp: it)
  qed
  then show ?thesis using assms(3) by (simp add: keeps_def)
qed

lemma puts_keep_entry:
  assumes "\<forall>it \<in> set its. \<exists>d. path_parent (item_path it) = Some d \<and>
      (path_parent q \<noteq> Some d \<or> (\<forall>t. env_fault E t (SyncDir d) \<noteq> None))"
  shows "keeps (\<lambda>w. e \<in> set (vers (w_fs w) q)) (put_items (write_atomic E) its)"
  using assms(1)
proof (induction its)
  case Nil
  show ?case unfolding put_items.simps by (rule keeps_ret)
next
  case (Cons it its)
  obtain c p x b where it: "it = (c, p, x, b)" by (cases it)
  with Cons.prems obtain d where "path_parent p = Some d"
    "path_parent q \<noteq> Some d \<or> (\<forall>t. env_fault E t (SyncDir d) \<noteq> None)" by auto
  then show ?case unfolding it put_items.simps
    using Cons by (intro keeps_rules write_atomic_keeps_entry) auto
qed

lemma crash_new:
  assumes "after_crash t u" and "holds_new t it" and "\<not> lost_above u (item_path it)"
  shows "content u (item_path it) = Some (item_data it)"
  using crash_may_hold [OF assms(1,3)] assms(2) by (simp add: holds_new_def)

text \<open>A file that can hold one value only keeps it, and what came up is on disk for good.\<close>

definition one_value :: "fsys \<Rightarrow> path \<Rightarrow> bool" where
  "one_value s p \<longleftrightarrow> (\<forall>v. may_hold s p v \<longrightarrow> v = content s p)"

lemma content_may_hold: "may_hold s p (content s p)"
proof -
  have "entry_survives s (content s p) (cur s p)" by (cases "cur s p") (simp_all add: content_def)
  then show ?thesis using cur_in_vers [of s p] by (auto simp: may_hold_def)
qed

lemma crash_one_value:
  assumes "after_crash s t"
  shows "one_value t p"
proof -
  have sync: "i_synced (fs_inodes t i)" for i using assms by (simp add: after_crash_def)
  have "v = content t p" if "entry_survives t v (cur t p)" for v
    using that sync by (cases "cur t p"; cases v) (simp_all add: content_def)
  then show ?thesis by (simp add: one_value_def may_hold_def after_crash_ent(1) [OF assms])
qed

lemma holds_new_one_value:
  assumes "holds_new t it"
  shows "content t (item_path it) = Some (item_data it) \<and> one_value t (item_path it)"
  unfolding one_value_def using assms content_may_hold [of t "item_path it"] by (metis holds_new_def)

lemma holds_old_one_value:
  assumes "holds_old s t it" and "one_value s (item_path it)"
  shows "content t (item_path it) = content s (item_path it) \<and> one_value t (item_path it)"
  unfolding one_value_def using assms content_may_hold [of t "item_path it"] by (metis holds_old_def one_value_def)

text \<open>
  The last file can be there only when all others are done: they are then new, unless the directory
  they are in is gone, which cannot be where it is also above the last file.
\<close>

lemma crash_prefix_last:
  assumes "crash_prefix s (its @ [z]) t" and "after_crash t u" and "content u (item_path z) = Some x"
    and "\<not> may_hold s (item_path z) (Some x)" and "it \<in> set (its @ [z])"
    and "set (butlast (path_prefixes (item_path it))) \<subseteq> set (butlast (path_prefixes (item_path z)))"
  shows "content u (item_path it) = Some (item_data it)"
proof -
  have here: "\<not> lost_above u (item_path z)" using crash_lost [OF assms(2), of "item_path z"] assms(3) by auto
  with assms(6) have here': "\<not> lost_above u (item_path it)" unfolding lost_above_def by blast
  have x: "may_hold t (item_path z) (Some x)" using crash_may_hold [OF assms(2) here] assms(3) by simp
  obtain xs ys where xy: "its @ [z] = xs @ ys" "list_all (holds_new t) xs"
    "ys = [] \<or> holds_either s t (hd ys) \<and> list_all (holds_old s t) (tl ys)"
    using assms(1) unfolding crash_prefix_def by blast
  show ?thesis
  proof (cases ys rule: rev_cases)
    case Nil
    with xy assms(5) have "holds_new t it" by (simp add: list_all_iff)
    then show ?thesis by (rule crash_new [OF assms(2) _ here'])
  next
    case (snoc ys' y)
    with xy(1) have y: "y = z" "its = xs @ ys'" by (simp_all flip: append_assoc)
    have "\<not> holds_old s t z" using x assms(4) by (auto simp: holds_old_def)
    with xy(3) y snoc have ys: "ys' = []" by (cases ys') auto
    show ?thesis
    proof (cases "it = z")
      case True
      have "Some x = Some (item_data z)"
        using xy(3) snoc y ys x assms(4) by (auto simp: holds_either_def)
      with True assms(3) show ?thesis by simp
    next
      case False
      with assms(5) y ys have "it \<in> set xs" by auto
      with xy(2) have "holds_new t it" by (simp add: list_all_iff)
      then show ?thesis by (rule crash_new [OF assms(2) _ here'])
    qed
  qed
qed

section \<open>The interpretation by \<open>write_atomic\<close>\<close>

lemma wa_state_anchored:
  assumes "wa_state s p d t" and "is_target p" and "durable_target q" and "anchored s q"
  shows "anchored t q"
  unfolding anchored_def
proof
  fix r
  assume r: "r \<in> set (butlast (path_prefixes q))"
  then have "r \<in> set (path_prefixes q)" by (rule in_set_butlastD)
  then have "r \<noteq> tmp_of p"
    using assms(2,3) tmp_of_facts(1) [of p] by (auto simp: durable_target_def list_all_iff is_target_def)
  then have "agree s t r \<or> installed s t r d" using assms(1) by (cases "r = p") (auto simp: wa_state_def)
  then have "Absent \<in> set (vers t r) \<Longrightarrow> Absent \<in> set (vers s r)"
    using agree_absent by (auto simp: installed_def split: if_splits)
  with assms(4) r show "r = [RootDir] \<or> Absent \<notin> set (vers t r)" unfolding anchored_def by blast
qed

interpretation ds: durable_store "write_atomic (syncing E)" durable_target wf_fs for E
proof (unfold_locales, goal_cases)
  case (1 p w d b)
  then show ?case using wa.put_ok durable_is_target by blast
next
  case (2 p w d b x w')
  then show ?case using wa.put_done durable_is_target by blast
next
  case (3 p w d b e w')
  then show ?case using wa.put_fail durable_is_target by blast
next
  case (4 p q w d b)
  then show ?case using wa.put_frame durable_is_target by blast
next
  case (5 p w d b)
  then show ?case using wa.put_hist [of p w "syncing E" d b] durable_is_target by blast
next
  case (6 p w d b x w' v)
  then have p: "is_target p" "path_parent p \<noteq> Some []" by (simp_all add: durable_target_def)
  then obtain n where "path_file_name p = Some n" by (auto simp: is_target_def)
  then obtain dir where dir: "path_parent p = Some dir" by (auto simp: path_file_name_Some path_parent_def)
  with p have "dir \<noteq> []" by simp
  from tripleD_Inr [OF syncing_settles [OF syncs_syncing p(1) dir this]] 6(3)
  have v: "vers (w_fs w') p = [cur (w_fs w') p]" by blast
  have "installed (w_fs w) (w_fs w') p d" using write_atomic_cases [OF p(1) 6(2,3)] by (simp add: wa_after_def)
  with v 6(4) show ?case by (cases v) (auto simp: may_hold_def installed_def)
next
  case (7 p w d b e w' v)
  then have p: "is_target p" by (simp add: durable_target_def)
  then have "agree (w_fs w) (w_fs w') p"
    using write_atomic_cases [OF p 7(2,3)] is_target_not_tmp [OF p p] by (simp add: wa_before_def)
  from agree_may_hold [OF this 7(4)] show ?case .
next
  case (8 p w d b t v)
  from wa_seen [OF durable_is_target [OF 8(1)] 8(2,3)] 8(4) show ?case
    unfolding wa_state_def by (metis agree_may_hold installed_may_hold)
next
  case (9 p q w d b t v)
  have "q \<noteq> tmp_of p" using is_target_not_tmp durable_is_target 9(1,2) by blast
  with wa_seen [OF durable_is_target [OF 9(1)] 9(4,5)] 9(3,6) show ?case
    using agree_may_hold by (auto simp: wa_state_def)
next
  case (10 p w d b t)
  from wa_seen [OF durable_is_target [OF 10(1)] 10(2,3)] show ?case by (simp add: wa_state_def)
next
  case (11 p q w d b t)
  from wa_state_anchored [OF wa_seen [OF durable_is_target [OF 11(1)] 11(3,4)] durable_is_target [OF 11(1)] 11(2,5)]
  show ?case .
qed

end
