(* ===== verification/Est_Safety.thy ===== *)
theory Est_Safety
  imports Est Power_Loss
begin

text \<open>
  What enrollment guarantees about the node's PKI files, the bearer token and the TPM key, and
  when a certificate is renewed.
\<close>

section \<open>Steps that leave the files alone\<close>

definition still_run :: "world \<Rightarrow> world \<Rightarrow> bool" where
  "still_run w w' \<longleftrightarrow> w_fs w' = w_fs w \<and> (\<exists>n. w_snaps w' = w_snaps w @ replicate n (w_fs w))"

definition still :: "'a cmd \<Rightarrow> bool" where
  "still m \<longleftrightarrow> (\<forall>w. still_run w (snd (m w)))"

named_theorems still_rules "rules that compose steps that leave the files alone"

lemma still_run_refl [simp]: "still_run w w"
  by (auto simp: still_run_def intro: exI [of _ 0])

lemma still_run_trans: "still_run w w1 \<Longrightarrow> still_run w1 w2 \<Longrightarrow> still_run w w2"
  by (auto simp: still_run_def) (metis replicate_add)

lemma still_run_passed: "still_run w w' \<Longrightarrow> t \<in> set (passed w w') \<Longrightarrow> t = w_fs w"
  by (auto simp: still_run_def passed_def)

lemma still_ret [still_rules]: "still (io_ret x)" by (simp add: still_def)
lemma still_err [still_rules]: "still (io_err e)" by (simp add: still_def)
lemma still_lift [still_rules]: "still (io_lift r)" by (simp add: still_def)
lemma still_ctx [still_rules]: "still m \<Longrightarrow> still (io_ctx c m)" by (simp add: still_def)

lemma still_bind [still_rules]: "still m \<Longrightarrow> (\<And>x. still (f x)) \<Longrightarrow> still (io_bind m f)"
  unfolding still_def io_bind_def
  by (auto split: prod.splits sum.splits) (metis snd_conv still_run_trans)+

lemma still_then [still_rules]: "still m \<Longrightarrow> still n \<Longrightarrow> still (io_then m n)"
  by (simp add: io_then_def still_bind)

lemma still_if [still_rules]: "(b \<Longrightarrow> still m) \<Longrightarrow> (\<not> b \<Longrightarrow> still n) \<Longrightarrow> still (if b then m else n)"
  by simp

lemma still_map [still_rules]: "(\<And>x. still (f x)) \<Longrightarrow> still (io_map xs f)"
  by (induction xs) (auto intro!: still_rules)

lemma still_lib [still_rules]: "still (lib_call n a f)"
  by (auto simp: still_def lib_call_def still_run_def split: sum.split intro: exI [of _ 0])

lemma still_read [still_rules]: "still (read_file E p)"
  by (auto simp: still_def read_file_def prim_def fs_read_def still_run_def
      split: option.split sum.split entry.split intro: exI [of _ 0] exI [of _ 1])

lemma still_est:
  "still (build_est_config L E c a)" "still (est_client_new L cfg)" "still (generate_node_csr L n)"
  "still (generate_node_csr_tpm L n i)" "still (ca_bundle L cs)" "still (cert_chain_from_pem L E p)"
  unfolding build_est_config_def Let_def est_client_new_def generate_node_csr_def generate_node_csr_tpm_def
    ca_bundle_def cert_chain_from_pem_def
  by (intro still_rules)+

section \<open>The shape of an enrollment\<close>

definition pki_paths_ok :: "noded_config \<Rightarrow> bool" where
  "pki_paths_ok c \<longleftrightarrow>
     is_target (nc_cert_file c) \<and> is_target (nc_key_file c) \<and> is_target (nc_client_ca c) \<and>
     nc_cert_file c \<noteq> nc_key_file c \<and> nc_cert_file c \<noteq> nc_client_ca c \<and> nc_key_file c \<noteq> nc_client_ca c"

text \<open>The certificate was issued for a request made with exactly this key.\<close>

definition issued_pair :: "est_lib \<Rightarrow> noded_config \<Rightarrow> string \<Rightarrow> string \<Rightarrow> bool" where
  "issued_pair L c pem key \<longleftrightarrow>
     (\<exists>t csr t' client cert. el_csr L t (nc_node_id c) = Inr (csr, key) \<and>
        (el_enroll L t' client csr = Inr (Issued cert) \<or> el_reenroll L t' client csr = Inr (Issued cert)) \<and>
        el_to_pem L cert = Inr pem)"

definition identity_items :: "noded_config \<Rightarrow> string \<Rightarrow> string \<Rightarrow> put_item list" where
  "identity_items c pem key =
     [(''write node certificate'', nc_cert_file c, pem, False), (''write node key'', nc_key_file c, key, True)]"

definition ca_item :: "noded_config \<Rightarrow> string \<Rightarrow> put_item" where
  "ca_item c ca = (''write client CA bundle'', nc_client_ca c, ca, False)"

text \<open>The three files are written durably, into one directory.\<close>

definition pki_durable :: "noded_config \<Rightarrow> bool" where
  "pki_durable c \<longleftrightarrow>
     durable_target (nc_cert_file c) \<and> durable_target (nc_key_file c) \<and> durable_target (nc_client_ca c) \<and>
     path_parent (nc_client_ca c) \<noteq> None \<and> path_parent (nc_cert_file c) = path_parent (nc_client_ca c) \<and>
     path_parent (nc_key_file c) = path_parent (nc_client_ca c)"

lemma enroll_items:
  assumes "pki_paths_ok c" and "its = [] \<or> (\<exists>ca. its = [ca_item c ca])"
  shows "\<forall>it \<in> set (identity_items c pem key @ its). is_target (item_path it)"
    and "distinct (map item_path (identity_items c pem key @ its))"
  using assms by (auto simp: identity_items_def ca_item_def pki_paths_ok_def)

text \<open>Quiet steps, then a sequence of writes of a matching certificate and key, and the CA last.\<close>

definition enroll_shape :: "est_lib \<Rightarrow> env \<Rightarrow> noded_config \<Rightarrow> world \<Rightarrow> world \<Rightarrow> bool" where
  "enroll_shape L E c w w' \<longleftrightarrow>
     still_run w w' \<or>
     (\<exists>w1 pem key its r. still_run w w1 \<and> issued_pair L c pem key \<and>
        (its = [] \<or> (\<exists>ca. its = [ca_item c ca])) \<and>
        put_items (write_atomic E) (identity_items c pem key @ its) w1 = (r, w'))"

lemma enroll_shape_still:
  assumes "still_run w w1" and "enroll_shape L E c w1 w'"
  shows "enroll_shape L E c w w'"
  using assms(2) unfolding enroll_shape_def
proof (elim disjE exE conjE)
  assume "still_run w1 w'"
  with assms(1) show "still_run w w' \<or> (\<exists>w1 pem key its r. still_run w w1 \<and> issued_pair L c pem key \<and>
      (its = [] \<or> (\<exists>ca. its = [ca_item c ca])) \<and>
      put_items (write_atomic E) (identity_items c pem key @ its) w1 = (r, w'))"
    by (blast intro: still_run_trans)
qed (use assms(1) in \<open>blast intro: still_run_trans\<close>)+

definition shaped :: "est_lib \<Rightarrow> env \<Rightarrow> noded_config \<Rightarrow> 'a cmd \<Rightarrow> bool" where
  "shaped L E c m \<longleftrightarrow> (\<forall>w. enroll_shape L E c w (snd (m w)))"

definition gives :: "'a cmd \<Rightarrow> 'a \<Rightarrow> bool" where
  "gives m x \<longleftrightarrow> (\<exists>w w1. m w = (Inr x, w1))"

lemma shaped_still: "still m \<Longrightarrow> shaped L E c m"
  by (simp add: shaped_def still_def enroll_shape_def)

lemma shaped_bind:
  assumes "still m" and "\<And>x. gives m x \<Longrightarrow> shaped L E c (f x)"
  shows "shaped L E c (io_bind m f)"
  unfolding shaped_def
proof
  fix w
  obtain q w1 where q: "m w = (q, w1)" by (cases "m w")
  have s: "still_run w w1" using assms(1) q by (metis still_def snd_conv)
  show "enroll_shape L E c w (snd (io_bind m f w))"
  proof (cases q)
    case (Inl e)
    with q s show ?thesis by (simp add: io_bind_def enroll_shape_def)
  next
    case (Inr x)
    with q assms(2) have "enroll_shape L E c w1 (snd (f x w1))" by (auto simp: gives_def shaped_def)
    with s have "enroll_shape L E c w (snd (f x w1))" by (rule enroll_shape_still)
    with q Inr show ?thesis by (simp add: io_bind_def)
  qed
qed

lemma gives_ctx: "gives (io_ctx ctx m) x \<longleftrightarrow> gives m x"
  by (simp add: gives_def)

lemma gives_lib:
  assumes "gives (lib_call n a f) x"
  shows "\<exists>t. f t = Inr x"
proof -
  from assms obtain w w1 where "lib_call n a f w = (Inr x, w1)" by (auto simp: gives_def)
  then have "f (w_trace w) = Inr x" by (cases "f (w_trace w)") (auto simp: lib_call_def)
  then show ?thesis ..
qed

lemma gives_lift: "gives (io_lift r) x \<longleftrightarrow> r = Inr x"
  by (simp add: gives_def)

lemma issued_cert_Inr: "issued_cert resp what = Inr cert \<longleftrightarrow> resp = Issued cert"
  by (cases resp) auto

lemma write_identity_items:
  "write_identity L E c cert key w =
     (case el_to_pem L cert of
        Inl e \<Rightarrow> (Inl (Ctx ''encode node certificate PEM'' e), w)
      | Inr pem \<Rightarrow> put_items (write_atomic E) (identity_items c pem key) w)"
  by (simp add: write_identity_def identity_items_def io_defs split: sum.split prod.split)

lemma write_identity_shaped:
  assumes "el_csr L t (nc_node_id c) = Inr (csr, key)"
    and "el_enroll L t' client csr = Inr (Issued cert) \<or> el_reenroll L t' client csr = Inr (Issued cert)"
  shows "shaped L E c (write_identity L E c cert key)"
  unfolding shaped_def
proof
  fix w
  show "enroll_shape L E c w (snd (write_identity L E c cert key w))"
  proof (cases "el_to_pem L cert")
    case (Inl e)
    then show ?thesis by (simp add: write_identity_items enroll_shape_def)
  next
    case (Inr pem)
    have "issued_pair L c pem key" unfolding issued_pair_def using assms Inr by blast
    then show ?thesis
      unfolding enroll_shape_def write_identity_items Inr sum.case
      by (intro disjI2 exI [of _ w] exI [of _ pem] exI [of _ key] exI [of _ "[]"]) (simp add: prod_eq_iff)
  qed
qed

lemma reenroll_shaped: "shaped L E c (reenroll L E c None)"
proof -
  have "shaped L E c (write_identity L E c cert key)"
    if csr: "gives (generate_node_csr L (nc_node_id c)) (csr, key)"
      and resp: "gives (io_ctx ''EST simplereenroll failed''
          (lib_call ''simple_reenroll'' [csr] (\<lambda>t. el_reenroll L t client csr))) resp"
      and cert: "gives (io_lift (issued_cert resp ''re-enrollment'')) cert" for csr key client resp cert
  proof -
    obtain t where "el_csr L t (nc_node_id c) = Inr (csr, key)"
      using csr unfolding generate_node_csr_def gives_ctx by (blast dest: gives_lib)
    moreover obtain t' where "el_reenroll L t' client csr = Inr (Issued cert)"
      using resp cert unfolding gives_ctx gives_lift issued_cert_Inr by (blast dest: gives_lib)
    ultimately show ?thesis by (rule write_identity_shaped [OF _ disjI2])
  qed
  then show ?thesis
    unfolding reenroll_def option.case
    by (intro shaped_bind still_rules still_est) (auto split: prod.split intro!: shaped_bind still_rules)
qed

lemma ca_bundle_world: "snd (ca_bundle L cs w) = w"
proof -
  have "keeps (\<lambda>v. v = w) (ca_bundle L cs)" unfolding ca_bundle_def by (intro keeps_rules)
  then show ?thesis by (simp add: keeps_def)
qed

lemma identity_then_ca_shaped:
  assumes "issued_pair L c pem key"
  shows "enroll_shape L E c w (snd (io_bind (put_items (write_atomic E) (identity_items c pem key))
    (\<lambda>_. io_bind (ca_bundle L cs) (\<lambda>ca. io_ctx ''write client CA bundle'' (write_atomic E (nc_client_ca c) ca False))) w))"
proof -
  let ?ids = "identity_items c pem key"
  have shape: "enroll_shape L E c w w'" if "put_items (write_atomic E) (?ids @ its) w = (r, w')"
    and "its = [] \<or> (\<exists>ca. its = [ca_item c ca])" for its r w'
    unfolding enroll_shape_def using assms that still_run_refl by blast
  obtain r1 w1 where r1: "put_items (write_atomic E) ?ids w = (r1, w1)" by (cases "put_items (write_atomic E) ?ids w")
  then have part: "enroll_shape L E c w w1" using shape [of "[]"] by simp
  obtain r2 where r2: "ca_bundle L cs w1 = (r2, w1)"
    using ca_bundle_world [of L cs w1] by (cases "ca_bundle L cs w1") auto
  show ?thesis
  proof (cases "isl r1 \<or> isl r2")
    case True
    with r1 r2 part show ?thesis by (auto simp: io_bind_def isl_def split: sum.splits)
  next
    case False
    then obtain u ca where "r1 = Inr u" "r2 = Inr ca" by (metis isl_def sum.exhaust_sel)
    then show ?thesis
      using r1 r2 shape [of "[ca_item c ca]"]
      by (auto simp: io_bind_def put_items_append ca_item_def io_then_def io_ctx_def split: sum.splits prod.splits)
  qed
qed

lemma bootstrap_shaped: "shaped L E c (bootstrap_enroll L E c None)"
proof -
  let ?ca = "\<lambda>cs. io_bind (ca_bundle L cs)
      (\<lambda>ca. io_ctx ''write client CA bundle'' (write_atomic E (nc_client_ca c) ca False))"
  have last: "shaped L E c (io_bind (write_identity L E c cert key) (\<lambda>_. ?ca cs))"
    if csr: "gives (generate_node_csr L (nc_node_id c)) (csr, key)"
      and resp: "gives (io_ctx ''EST simpleenroll failed''
          (lib_call ''simple_enroll'' [csr] (\<lambda>t. el_enroll L t client csr))) resp"
      and cert: "gives (io_lift (issued_cert resp ''enrollment'')) cert" for csr key client resp cert cs
  proof -
    obtain t where t: "el_csr L t (nc_node_id c) = Inr (csr, key)"
      using csr unfolding generate_node_csr_def gives_ctx by (blast dest: gives_lib)
    obtain t' where t': "el_enroll L t' client csr = Inr (Issued cert)"
      using resp cert unfolding gives_ctx gives_lift issued_cert_Inr by (blast dest: gives_lib)
    show ?thesis
    proof (cases "el_to_pem L cert")
      case (Inl e)
      then show ?thesis by (simp add: shaped_def io_bind_def write_identity_items enroll_shape_def)
    next
      case (Inr pem)
      with t t' have "issued_pair L c pem key" unfolding issued_pair_def by blast
      from identity_then_ca_shaped [OF this] Inr show ?thesis
        by (simp add: shaped_def io_bind_def write_identity_items)
    qed
  qed
  have one: "shaped L E c (io_bind (case x of (csr, key) \<Rightarrow>
      io_bind (io_ctx ''EST simpleenroll failed''
        (lib_call ''simple_enroll'' [csr] (\<lambda>t. el_enroll L t client csr))) (\<lambda>resp.
      io_bind (io_lift (issued_cert resp ''enrollment'')) (\<lambda>cert.
        write_identity L E c cert key))) (\<lambda>_. ?ca cs))"
    if "gives (generate_node_csr L (nc_node_id c)) x" for x client cs
    using that by (cases x) (simp only: prod.case io_bind_assoc, intro shaped_bind still_rules last)
  have "shaped L E c (io_then (enroll_identity L E c None client) (?ca cs))" for client cs
    unfolding enroll_identity_def option.case io_then_def io_bind_assoc
    by (rule shaped_bind, rule still_est, rule one)
  then show ?thesis
    unfolding bootstrap_enroll_def
    by (intro shaped_bind still_rules still_est) (auto intro: shaped_still still_rules)
qed

section \<open>Other files and the trace\<close>

lemma still_keeps: "still m \<Longrightarrow> keeps (\<lambda>w. P (w_fs w)) m"
  by (simp add: still_def keeps_def still_run_def)

lemma write_atomic_keeps_other:
  assumes "is_target p" and "is_target q" and "q \<noteq> p"
  shows "keeps (\<lambda>w. wf_fs (w_fs w) \<and> content (w_fs w) q = v) (write_atomic E p d b)"
  using wa.put_ok [OF assms(1)] wa.put_frame [OF assms(1,2,3)] by (intro keepsI) auto

lemma enroll_tpm_keeps_key:
  assumes "pki_paths_ok c"
  shows "keeps (\<lambda>w. wf_fs (w_fs w) \<and> content (w_fs w) (nc_key_file c) = v) (bootstrap_enroll L E c (Some i))"
    and "keeps (\<lambda>w. wf_fs (w_fs w) \<and> content (w_fs w) (nc_key_file c) = v) (reenroll L E c (Some i))"
proof -
  have q: "keeps (\<lambda>w. wf_fs (w_fs w) \<and> content (w_fs w) (nc_key_file c) = v) m" if "still m" for m :: "'b cmd"
    using still_keeps [OF that, of "\<lambda>s. wf_fs s \<and> content s (nc_key_file c) = v"] by simp
  have wr: "keeps (\<lambda>w. wf_fs (w_fs w) \<and> content (w_fs w) (nc_key_file c) = v) (write_cert_only L E c cert)" for cert
    unfolding write_cert_only_def using assms
    by (intro keeps_rules write_atomic_keeps_other) (auto simp: pki_paths_ok_def)
  have ca: "keeps (\<lambda>w. wf_fs (w_fs w) \<and> content (w_fs w) (nc_key_file c) = v) (write_atomic E (nc_client_ca c) x False)" for x
    using assms by (intro write_atomic_keeps_other) (auto simp: pki_paths_ok_def)
  show "keeps (\<lambda>w. wf_fs (w_fs w) \<and> content (w_fs w) (nc_key_file c) = v) (bootstrap_enroll L E c (Some i))"
    unfolding bootstrap_enroll_def enroll_identity_def option.case
    by (intro keeps_bind keeps_then keeps_if keeps_ctx keeps_err wr ca; (intro q still_rules still_est)?)
  show "keeps (\<lambda>w. wf_fs (w_fs w) \<and> content (w_fs w) (nc_key_file c) = v) (reenroll L E c (Some i))"
    unfolding reenroll_def option.case
    by (intro keeps_bind keeps_ctx wr; (intro q still_rules still_est)?)
qed

lemma reenroll_keeps_ca:
  assumes "pki_paths_ok c"
  shows "keeps (\<lambda>w. wf_fs (w_fs w) \<and> content (w_fs w) (nc_client_ca c) = v) (reenroll L E c tpm)"
proof -
  let ?I = "\<lambda>w. wf_fs (w_fs w) \<and> content (w_fs w) (nc_client_ca c) = v"
  have q: "keeps ?I m" if "still m" for m :: "'b cmd"
    using still_keeps [OF that, of "\<lambda>s. wf_fs s \<and> content s (nc_client_ca c) = v"] by simp
  have wa: "keeps ?I (write_atomic E p x b)" if "p = nc_cert_file c \<or> p = nc_key_file c" for p x b
    using assms that by (intro write_atomic_keeps_other) (auto simp: pki_paths_ok_def)
  have wr: "keeps ?I (write_cert_only L E c cert)" "keeps ?I (write_identity L E c cert key)" for cert key
    unfolding write_cert_only_def write_identity_def by (intro keeps_rules wa; simp)+
  have k: "keeps ?I (case x of (csr, key) \<Rightarrow> f csr key)" if "\<And>csr key. keeps ?I (f csr key)"
    for x :: "string \<times> string" and f :: "string \<Rightarrow> string \<Rightarrow> unit cmd"
    using that by (cases x) simp
  show ?thesis
    unfolding reenroll_def
    by (intro keeps_option keeps_bind keeps_ctx wr k; (intro q still_rules still_est)?)
qed

fun client_event :: "event \<Rightarrow> (string \<times> string) option" where
  "client_event (LibCall n [url, auth], r) = (if n = ''EstClient::new'' then Some (url, auth) else None)"
| "client_event _ = None"

lemma emits_lib [emits_rules]: "(\<And>r. Q (LibCall n a, r)) \<Longrightarrow> emits Q (lib_call n a f)"
  by (rule emits_one [of _ "LibCall n a"]) (auto simp: lib_call_def split: sum.splits)

lemma emits_read_cert [emits_rules]: "(\<And>r. Q (ReadFile p, r)) \<Longrightarrow> emits Q (read_file E p)"
  unfolding read_file_def by (intro emits_rules) simp

lemma emits_write_atomic_quiet:
  "(\<And>e. client_event e = None \<Longrightarrow> Q e) \<Longrightarrow> emits Q (write_atomic E p d b)"
  unfolding write_atomic_def Let_def prim_op_defs by (intro emits_rules) simp_all

text \<open>The authentication that a client of \<open>build_est_config\<close> carries.\<close>

lemma emits_prod [emits_rules]: "(\<And>a b. x = (a, b) \<Longrightarrow> emits Q (f a b)) \<Longrightarrow> emits Q (case x of (a, b) \<Rightarrow> f a b)"
  by (cases x) simp

lemma build_est_config_gives:
  "gives (build_est_config L E c a) cfg \<Longrightarrow> cc_server_url cfg = ec_server_url (nc_est c) \<and> cc_auth cfg = a"
  by (auto simp: gives_def build_est_config_def Let_def elim!: io_bind_InrE io_then_InrE)

lemma emits_bind_gives:
  assumes "emits Q m" and "\<And>x. gives m x \<Longrightarrow> emits Q (f x)"
  shows "emits Q (io_bind m f)"
  unfolding emits_traces
proof (rule tracesI)
  fix w r w'
  assume run: "io_bind m f w = (r, w')"
  obtain q w1 where q: "m w = (q, w1)" by (cases "m w")
  obtain es where es: "w_trace w1 = w_trace w @ es" "list_all Q es" by (rule emitsD [OF assms(1) q])
  show "\<exists>es. w_trace w' = w_trace w @ es \<and> list_all Q es"
  proof (cases q)
    case (Inl e)
    with run q es show ?thesis by (auto simp: io_bind_def)
  next
    case (Inr x)
    with run q have f: "f x w1 = (r, w')" by (simp add: io_bind_def)
    have "emits Q (f x)" by (rule assms(2)) (use q Inr in \<open>auto simp: gives_def\<close>)
    from emitsD [OF this f] obtain es' where "w_trace w' = w_trace w1 @ es'" "list_all Q es'" .
    with es show ?thesis by (intro exI [of _ "es @ es'"]) auto
  qed
qed

definition client_as :: "noded_config \<Rightarrow> string list \<Rightarrow> event \<Rightarrow> bool" where
  "client_as c auths e =
     (case client_event e of None \<Rightarrow> True | Some (url, auth) \<Rightarrow> url = ec_server_url (nc_est c) \<and> auth \<in> set auths)"

lemma client_as_quiet: "client_event e = None \<Longrightarrow> client_as c as e"
  by (simp add: client_as_def)

lemma emits_build: "emits (client_as c as) (build_est_config L E c' a)"
  unfolding build_est_config_def Let_def by (intro emits_rules) (simp_all add: client_as_def)

lemma emits_client_new:
  "gives (build_est_config L E c a) cfg \<Longrightarrow> show_auth a \<in> set as \<Longrightarrow> emits (client_as c as) (est_client_new L cfg)"
  unfolding est_client_new_def
  by (intro emits_rules) (auto simp: client_as_def dest!: build_est_config_gives)

lemma emits_est_writes:
  "emits (client_as c as) (write_cert_only L E c' cert)" "emits (client_as c as) (write_identity L E c' cert key)"
  "emits (client_as c as) (ca_bundle L cs)" "emits (client_as c as) (generate_node_csr L n)"
  "emits (client_as c as) (generate_node_csr_tpm L n i)" "emits (client_as c as) (cert_chain_from_pem L E p)"
  unfolding write_cert_only_def write_identity_def ca_bundle_def generate_node_csr_def generate_node_csr_tpm_def
    cert_chain_from_pem_def
  by (intro emits_rules emits_write_atomic_quiet client_as_quiet; simp add: client_as_def)+

lemma bootstrap_clients:
  "emits (client_as c [''Bearer '' @ ec_bearer_token (nc_est c)]) (bootstrap_enroll L E c tpm)"
  unfolding bootstrap_enroll_def enroll_identity_def
  by (rule emits_bind_gives, rule emits_build,
      intro emits_rules emits_client_new emits_est_writes emits_write_atomic_quiet client_as_quiet)
    (auto simp: client_as_def)

lemma reenroll_clients: "emits (client_as c [''client-cert'', ''client-resolver'']) (reenroll L E c tpm)"
  unfolding reenroll_def
proof (intro emits_option)
  let ?Q = "client_as c [''client-cert'', ''client-resolver'']"
  note w = emits_est_writes emits_write_atomic_quiet client_as_quiet
  have new: "emits ?Q (est_client_new L cfg)"
    if "gives (build_est_config L E c a) cfg" "show_auth a = ''client-cert'' \<or> show_auth a = ''client-resolver''" for a cfg
    by (rule emits_client_new [OF that(1)]) (use that(2) in auto)
  show "emits ?Q (io_bind (cert_chain_from_pem L E (nc_cert_file c)) (\<lambda>chain.
        io_bind (build_est_config L E c (ClientResolver (client_resolver i chain))) (\<lambda>est_config.
        io_bind (est_client_new L est_config) (\<lambda>client.
        io_bind (generate_node_csr_tpm L (nc_node_id c) i) (\<lambda>csr.
        io_bind (io_ctx ''EST simplereenroll failed''
          (lib_call ''simple_reenroll'' [csr] (\<lambda>t. el_reenroll L t client csr))) (\<lambda>resp.
        io_bind (io_lift (issued_cert resp ''re-enrollment'')) (\<lambda>cert.
          write_cert_only L E c cert)))))))" for i
    by (rule emits_bind, rule w, rule emits_bind_gives, rule emits_build, rule emits_bind, erule new, simp)
      (intro emits_rules w, simp add: client_as_def)
  show "emits ?Q (io_bind (io_ctx (''read node certificate '' @ show_comps (nc_cert_file c)) (read_file E (nc_cert_file c))) (\<lambda>cert_pem.
        io_bind (io_ctx (''read node key '' @ show_comps (nc_key_file c)) (read_file E (nc_key_file c))) (\<lambda>key_pem.
        io_bind (build_est_config L E c (ClientCert cert_pem key_pem)) (\<lambda>est_config.
        io_bind (est_client_new L est_config) (\<lambda>client.
        io_bind (generate_node_csr L (nc_node_id c)) (\<lambda>(csr, new_key).
        io_bind (io_ctx ''EST simplereenroll failed''
          (lib_call ''simple_reenroll'' [csr] (\<lambda>t. el_reenroll L t client csr))) (\<lambda>resp.
        io_bind (io_lift (issued_cert resp ''re-enrollment'')) (\<lambda>cert.
          write_identity L E c cert new_key))))))))"
    by (rule emits_bind, (intro emits_rules, simp add: client_as_def)[1], rule emits_bind,
        (intro emits_rules, simp add: client_as_def)[1], rule emits_bind_gives, rule emits_build,
        rule emits_bind, erule new, simp)
      (intro emits_rules w, simp add: client_as_def)
qed

section \<open>An example\<close>

text \<open>A server that issues one certificate, and a node with its PKI below one directory.\<close>

definition sample_lib :: est_lib where
  "sample_lib =
     \<lparr>el_server_url = (\<lambda>_. Inr ()), el_build = (\<lambda>_. Inr ()), el_connect = (\<lambda>_ _. Inr ()),
      el_ca_certs = (\<lambda>_ _. Inr [''ca'']), el_enroll = (\<lambda>_ _ _. Inr (Issued ''leaf'')),
      el_reenroll = (\<lambda>_ _ _. Inr (Issued ''leaf2'')), el_csr = (\<lambda>_ _. Inr (''csr'', ''key'')),
      el_csr_tpm = (\<lambda>_ _ _ _. Inr ''csr''), el_to_pem = (\<lambda>c. Inr c), el_pem_chain = (\<lambda>p. Inr [p]),
      el_validity = (\<lambda>_. Inr (0, 900))\<rparr>"

definition pki_dir :: path where "pki_dir = path_of ''/p''"

definition sample_conf :: noded_config where
  "sample_conf =
     \<lparr>nc_listen_addr = default_listen_addr, nc_node_id = ''n1'', nc_profile = K8s,
      nc_cert_file = path_of ''/p/c'', nc_key_file = path_of ''/p/k'', nc_client_ca = path_of ''/p/a'',
      nc_est = \<lparr>ec_server_url = ''https://e'', ec_bearer_token = ''t'', ec_ca_cert_file = path_of ''/e'',
                ec_label = None\<rparr>,
      nc_renew_check_interval_secs = 3600,
      nc_authorization = [\<lparr>rb_role = Operator, rb_subjects = [''ops'']\<rparr>], nc_tpm = None\<rparr>"

definition sample_disk :: world where
  "sample_disk = world_of (add_file (path_of ''/e'') ''EST CA'' 0x1A4 empty_fs)"

lemma sample_lib_sel:
  "el_server_url sample_lib u = Inr ()" "el_build sample_lib cfg = Inr ()" "el_connect sample_lib t cfg = Inr ()"
  "el_ca_certs sample_lib t cfg = Inr [''ca'']" "el_enroll sample_lib t cfg csr = Inr (Issued ''leaf'')"
  "el_reenroll sample_lib t cfg csr = Inr (Issued ''leaf2'')" "el_csr sample_lib t n = Inr (''csr'', ''key'')"
  "el_csr_tpm sample_lib t k h n = Inr ''csr''" "el_to_pem sample_lib der = Inr der" "el_pem_chain sample_lib pem = Inr [pem]"
  "el_validity sample_lib pem = Inr (0, 900)"
  by (simp_all add: sample_lib_def)

lemma sample_est: "nc_node_id sample_conf = ''n1''" "ec_server_url (nc_est sample_conf) = ''https://e''"
  "ec_bearer_token (nc_est sample_conf) = ''t''" "ec_ca_cert_file (nc_est sample_conf) = path_of ''/e''"
  "ec_label (nc_est sample_conf) = None"
  by (simp_all add: sample_conf_def)

lemma sample_paths:
  "pki_paths_ok sample_conf" "path_parent (nc_cert_file sample_conf) = Some pki_dir"
  "path_parent (nc_key_file sample_conf) = Some pki_dir" "path_parent (nc_client_ca sample_conf) = Some pki_dir"
  by code_simp+

lemma sample_durable: "pki_durable sample_conf"
  by code_simp

lemma sample_no_ca: "\<not> may_hold (w_fs sample_disk) (nc_client_ca sample_conf) (Some x)"
proof -
  have "vers (w_fs sample_disk) (nc_client_ca sample_conf) = [Absent]" by code_simp
  then show ?thesis by (simp add: may_hold_def)
qed

lemma sample_items:
  "\<forall>it \<in> set (identity_items sample_conf pem key @ [ca_item sample_conf ca]).
     is_target (item_path it) \<and> path_parent (item_path it) = Some pki_dir"
  using sample_paths by (auto simp: identity_items_def ca_item_def pki_paths_ok_def)

lemma sample_disk_facts:
  "wf_fs (w_fs sample_disk)" "flat pki_dir (w_fs sample_disk)" "w_snaps sample_disk = []"
  "content (w_fs sample_disk) (path_of ''/e'') = Some ''EST CA''"
  "content (w_fs sample_disk) (path_of ''/p/a'') = None"
proof -
  show "wf_fs (w_fs sample_disk)" by (simp add: sample_disk_def world_of_def wf_samples)
  show "flat pki_dir (w_fs sample_disk)"
    unfolding sample_disk_def world_of_def by (simp, intro flat_add_file flat_empty) code_simp
qed (code_simp+)

text \<open>Enrolling that node writes the three files and succeeds.\<close>

definition enrolled :: world where
  "enrolled = snd (bootstrap_enroll sample_lib calm sample_conf None sample_disk)"

lemma read_est_ca:
  "fs_read (path_of ''/e'') (w_fs sample_disk) = Inr (''EST CA'', w_fs sample_disk)"
  using sample_disk_facts(4) by (auto simp: fs_read_def content_def split: entry.splits)

lemma calm_fault [simp]: "env_fault calm t o' = None"
  by (simp add: calm_def)

lemma sample_client:
  "build_est_config sample_lib calm sample_conf a sample_disk =
     (Inr \<lparr>cc_server_url = ''https://e'', cc_trust = [''EST CA''], cc_auth = a, cc_ca_label = None\<rparr>,
      log (ReadFile (path_of ''/e'')) Done (put_fs (w_fs sample_disk) sample_disk))"
  by (simp add: build_est_config_def io_defs sample_lib_sel sample_est read_file_def prim_def read_est_ca Let_def)

lemma sample_ca: "ca_bundle sample_lib [''ca''] w = (Inr ''ca'', w)"
  by (simp add: ca_bundle_def sample_lib_sel io_defs)

lemma sample_bootstrap:
  obtains w1 where "w_fs w1 = w_fs sample_disk" and "w_snaps w1 = [w_fs sample_disk]"
    and "bootstrap_enroll sample_lib calm sample_conf None sample_disk =
      put_items (write_atomic calm) (identity_items sample_conf ''leaf'' ''key'' @ [ca_item sample_conf ''ca'']) w1"
proof -
  define w0 where "w0 = log (ReadFile (path_of ''/e'')) Done (put_fs (w_fs sample_disk) sample_disk)"
  define w1 where "w1 = log (LibCall ''simple_enroll'' [''csr'']) Done (log (LibCall ''CsrBuilder'' [''n1'']) Done
    (log (LibCall ''get_ca_certs'' []) Done (log (LibCall ''EstClient::new'' [''https://e'', ''Bearer t'']) Done w0)))"
  let ?ids = "identity_items sample_conf ''leaf'' ''key''"
  have ids: "write_identity sample_lib calm sample_conf ''leaf'' ''key'' = put_items (write_atomic calm) ?ids"
    by (rule ext) (simp add: write_identity_items sample_lib_sel)
  have "bootstrap_enroll sample_lib calm sample_conf None sample_disk =
      io_then (put_items (write_atomic calm) ?ids) (io_bind (ca_bundle sample_lib [''ca''])
        (\<lambda>pem. io_ctx ''write client CA bundle'' (write_atomic calm (nc_client_ca sample_conf) pem False))) w1"
    unfolding bootstrap_enroll_def io_bind_def [of "build_est_config _ _ _ _"] sample_client w0_def [symmetric]
    by (simp add: est_client_new_def enroll_identity_def generate_node_csr_def lib_call_def io_defs ids
        sample_lib_sel sample_est w1_def)
  also have "\<dots> = put_items (write_atomic calm) (?ids @ [ca_item sample_conf ''ca'']) w1"
    by (auto simp: io_then_def io_bind_def put_items_append sample_ca ca_item_def io_ctx_def
        split: prod.split sum.split)
  finally have "bootstrap_enroll sample_lib calm sample_conf None sample_disk = \<dots>" .
  moreover have "w_fs w1 = w_fs sample_disk" "w_snaps w1 = [w_fs sample_disk]"
    by (simp_all add: w1_def w0_def sample_disk_facts(3))
  ultimately show thesis using that by blast
qed

lemma enrolled_facts:
  "bootstrap_enroll sample_lib calm sample_conf None sample_disk = (Inr (), enrolled)"
  "wf_fs (w_fs enrolled)" "flat pki_dir (w_fs enrolled)"
  "content (w_fs enrolled) (nc_cert_file sample_conf) = Some ''leaf''"
  "content (w_fs enrolled) (nc_key_file sample_conf) = Some ''key''"
  "content (w_fs enrolled) (nc_client_ca sample_conf) = Some ''ca''"
  "w_fs enrolled \<in> set (passed sample_disk enrolled)"
  "\<not> lost_above (w_fs enrolled) (nc_client_ca sample_conf)"
proof -
  obtain w1 where w1: "w_fs w1 = w_fs sample_disk" "w_snaps w1 = [w_fs sample_disk]"
    and run: "bootstrap_enroll sample_lib calm sample_conf None sample_disk =
      put_items (write_atomic calm) (identity_items sample_conf ''leaf'' ''key'' @ [ca_item sample_conf ''ca'']) w1"
    by (rule sample_bootstrap)
  let ?its = "identity_items sample_conf ''leaf'' ''key'' @ [ca_item sample_conf ''ca'']"
  have ok: "wf_fs (w_fs w1)" "flat pki_dir (w_fs w1)" using sample_disk_facts w1 by simp_all
  have succ: "put_items (write_atomic calm) ?its w1 = (Inr (), enrolled)"
    using puts_succeed [OF sample_items _ ok(2), of _ _ _ calm] run by (simp add: enrolled_def prod_eq_iff)
  then show "bootstrap_enroll sample_lib calm sample_conf None sample_disk = (Inr (), enrolled)"
    using run by simp
  have tgt: "\<forall>it \<in> set ?its. is_target (item_path it)" using sample_items by blast
  have dist: "distinct (map item_path ?its)"
    using sample_paths(1) by (auto simp: identity_items_def ca_item_def pki_paths_ok_def)
  show "wf_fs (w_fs enrolled)" using wa.puts_ok [OF tgt ok(1), of calm] succ by simp
  show "flat pki_dir (w_fs enrolled)"
    using conjunct2 [OF puts_succeed [OF sample_items _ ok(2), of "''leaf''" "''key''" "''ca''" calm]] unfolding succ by simp
  have new: "content (w_fs enrolled) (item_path it) = Some (item_data it)" if "it \<in> set ?its" for it
    by (rule wa.puts_done [OF tgt dist ok(1) succ that])
  from new [of "?its ! 0"] new [of "?its ! 1"] new [of "?its ! 2"]
  show "content (w_fs enrolled) (nc_cert_file sample_conf) = Some ''leaf''"
    "content (w_fs enrolled) (nc_key_file sample_conf) = Some ''key''"
    and ca: "content (w_fs enrolled) (nc_client_ca sample_conf) = Some ''ca''"
    by (simp_all add: identity_items_def ca_item_def)
  have "tracked (w_fs sample_disk) enrolled"
    by (rule keepsD [OF tracked_puts _ succ]) (simp add: tracked_def w1)
  moreover have "w_fs enrolled \<noteq> w_fs sample_disk"
    using ca sample_disk_facts(5) by (auto simp: sample_conf_def)
  ultimately show "w_fs enrolled \<in> set (passed sample_disk enrolled)"
    by (rule tracked_last) (rule sample_disk_facts)
  have "is_target (item_path (ca_item sample_conf ''ca''))" using sample_items by simp
  from puts_above [OF succ this] show "\<not> lost_above (w_fs enrolled) (nc_client_ca sample_conf)" by (simp add: ca_item_def)
qed

section \<open>Two renames\<close>

text \<open>
  A renewal has no commit marker: \<open>write_identity\<close> is two renames, and where the second write
  fails the new certificate stays beside the old key.
\<close>

lemma identity_half_written:
  assumes "pki_paths_ok c" and "wf_fs (w_fs w)"
    and "write_identity L E c cert key w = (Inl (Ctx ''write node key'' e), w')"
  shows "\<exists>pem. el_to_pem L cert = Inr pem \<and> content (w_fs w') (nc_cert_file c) = Some pem \<and>
    content (w_fs w') (nc_key_file c) = content (w_fs w) (nc_key_file c)"
proof -
  have t: "is_target (nc_cert_file c)" "is_target (nc_key_file c)" "nc_cert_file c \<noteq> nc_key_file c"
    using assms(1) by (auto simp: pki_paths_ok_def)
  obtain pem where pem: "el_to_pem L cert = Inr pem"
    using assms(3) by (cases "el_to_pem L cert") (auto simp: write_identity_items)
  obtain r1 w1 where r1: "write_atomic E (nc_cert_file c) pem False w = (r1, w1)"
    by (cases "write_atomic E (nc_cert_file c) pem False w")
  obtain r2 w2 where r2: "write_atomic E (nc_key_file c) key True w1 = (r2, w2)"
    by (cases "write_atomic E (nc_key_file c) key True w1")
  have res: "r1 = Inr ()" "r2 = Inl e" "w2 = w'"
    using assms(3) pem r1 r2
    by (auto simp: write_identity_items identity_items_def io_then_def io_bind_def io_ctx_def split: sum.splits)
  have ok: "wf_fs (w_fs w1)" using wa.put_ok [OF t(1) assms(2), of E pem False] r1 by simp
  have "content (w_fs w1) (nc_cert_file c) = Some pem" using wa.put_done [OF t(1) assms(2)] r1 res by simp
  moreover have "content (w_fs w1) (nc_key_file c) = content (w_fs w) (nc_key_file c)"
    using wa.put_frame [OF t(1,2) _ assms(2), of E pem False] t(3) r1 by simp
  moreover have "content (w_fs w2) (nc_key_file c) = content (w_fs w1) (nc_key_file c)"
    using wa.put_fail [OF t(2) ok] r2 res by simp
  moreover have "content (w_fs w2) (nc_cert_file c) = content (w_fs w1) (nc_cert_file c)"
    using wa.put_frame [OF t(2,1) t(3) ok, of E key True] r2 by simp
  ultimately show ?thesis using pem res by simp
qed

lemma sample_half_written:
  obtains e w2 where "write_identity sample_lib (full_at (nc_key_file sample_conf) 0x180) sample_conf ''leaf2'' ''key2'' enrolled =
      (Inl (Ctx ''write node key'' e), w2)"
proof -
  let ?c = "nc_cert_file sample_conf" and ?k = "nc_key_file sample_conf"
  have t: "is_target ?c" "is_target ?k" "tmp_of ?c \<noteq> tmp_of ?k" by code_simp+
  obtain w1 where w1: "write_atomic (full_at ?k 0x180) ?c ''leaf2'' False enrolled = (Inr (), w1)" "flat pki_dir (w_fs w1)"
    by (rule full_at_other [OF t(1) sample_paths(2) enrolled_facts(3) t(3)])
  obtain e w2 where "write_atomic (full_at ?k 0x180) ?k ''key2'' True w1 = (Inl e, w2)"
    by (rule full_at_fails [OF t(2) sample_paths(3) w1(2), where m = "0x180" and b = True]) auto
  with w1(1) have "write_identity sample_lib (full_at ?k 0x180) sample_conf ''leaf2'' ''key2'' enrolled =
      (Inl (Ctx ''write node key'' e), w2)"
    by (simp add: write_identity_items sample_lib_sel identity_items_def io_then_def io_bind_def io_ctx_def)
  then show thesis by (rule that)
qed

section \<open>Properties\<close>

text \<open>A state of a bootstrap is the first one, or one of a sequence of writes of a matching pair.\<close>

lemma bootstrap_states:
  assumes "pki_paths_ok c" and "wf_fs (w_fs w)" and "bootstrap_enroll L E c None w = (r, w')"
    and "t \<in> set (passed w w')"
  obtains "t = w_fs w"
  | w1 pem key its r1 where "w_fs w1 = w_fs w" and "issued_pair L c pem key"
      and "its = [] \<or> (\<exists>ca. its = [ca_item c ca])"
      and "put_items (write_atomic E) (identity_items c pem key @ its) w1 = (r1, w')" and "t \<in> set (passed w1 w')"
proof -
  have "enroll_shape L E c w w'" using bootstrap_shaped assms(3) by (metis shaped_def snd_conv)
  then consider "still_run w w'"
    | w1 pem key its r1 where "still_run w w1" "issued_pair L c pem key" "its = [] \<or> (\<exists>ca. its = [ca_item c ca])"
      "put_items (write_atomic E) (identity_items c pem key @ its) w1 = (r1, w')"
    unfolding enroll_shape_def by blast
  then show thesis
  proof cases
    case 1
    with assms(4) that(1) still_run_passed show thesis by blast
  next
    case 2
    have w1: "w_fs w1 = w_fs w" using 2(1) by (simp add: still_run_def)
    obtain n where n: "w_snaps w1 = w_snaps w @ replicate n (w_fs w)" using 2(1) by (auto simp: still_run_def)
    obtain ts where ts: "w_snaps w' = w_snaps w1 @ ts"
      using wa.puts_hist [OF enroll_items [OF assms(1) 2(3), of pem key], of w1 E] assms(2) 2(4) w1 by auto
    then have "passed w w' = replicate n (w_fs w) @ passed w1 w'" using n by (simp add: passed_def)
    with assms(4) have "t = w_fs w \<or> t \<in> set (passed w1 w')" by auto
    with that w1 2(2-4) show thesis by blast
  qed
qed

text \<open>
  C13. Enrollment commits with the client CA bundle: in every state that \<open>bootstrap_enroll\<close> passes
  through in which the CA file differs from before, the certificate and the key on disk are the new
  ones and belong together, the certificate having been issued for a request made with that very key.
  A node that finds its PKI complete for the first time never finds a mismatched pair.
\<close>

theorem bootstrap_commit:
  assumes "pki_paths_ok c" and "wf_fs (w_fs w)" and "bootstrap_enroll L E c None w = (r, w')"
    and "t \<in> set (passed w w')"
    and "content t (nc_client_ca c) \<noteq> content (w_fs w) (nc_client_ca c)"
  shows "\<exists>pem key. issued_pair L c pem key \<and>
    content t (nc_cert_file c) = Some pem \<and> content t (nc_key_file c) = Some key"
  using assms(1-4)
proof (cases rule: bootstrap_states)
  case 1
  with assms(5) show ?thesis by simp
next
  case (2 w1 pem key its r1)
  let ?all = "identity_items c pem key @ its"
  note items = enroll_items [OF assms(1) 2(3), of pem key]
  have cp: "commit_prefix (w_fs w) ?all t" and fr: "\<And>q. is_target q \<Longrightarrow> q \<notin> item_path ` set ?all \<Longrightarrow> content t q = content (w_fs w) q"
    using wa.puts_hist [OF items, of w1 E] assms(2) 2(1,4,5) by (auto simp: passed_append)
  have "its \<noteq> []"
    using fr [of "nc_client_ca c"] assms(1,5) by (auto simp: pki_paths_ok_def identity_items_def)
  with 2(3) obtain ca where ca: "its = [ca_item c ca]" by blast
  have "content t (item_path it) = Some (item_data it)" if "it \<in> set ?all" for it
    by (rule commit_prefix_last [of "w_fs w" "identity_items c pem key" "ca_item c ca"])
      (use cp ca that assms(5) in \<open>auto simp: ca_item_def\<close>)
  from this [of "?all ! 0"] this [of "?all ! 1"] 2(2) show ?thesis
    by (auto simp: identity_items_def)
qed

theorem bootstrap_commit_witness:
  "\<exists>pem key. issued_pair sample_lib sample_conf pem key \<and>
     content (w_fs enrolled) (nc_cert_file sample_conf) = Some pem \<and>
     content (w_fs enrolled) (nc_key_file sample_conf) = Some key"
proof (rule bootstrap_commit [OF sample_paths(1) sample_disk_facts(1) enrolled_facts(1,7)])
  show "content (w_fs enrolled) (nc_client_ca sample_conf) \<noteq> content (w_fs sample_disk) (nc_client_ca sample_conf)"
    using enrolled_facts(6) sample_disk_facts(5) by (simp add: sample_conf_def)
qed

text \<open>
  C14. The same after a power loss: a node whose PKI lies in one directory and that had no CA bundle is
  enrolled, the power goes in any state on the way, whatever fails but directory syncs, and the
  machine comes up with any file system this can leave. If the CA bundle is there, then the
  certificate and the key are, and belong together.
\<close>

theorem enrollment_after_power_loss:
  assumes "pki_paths_ok c" and "pki_durable c" and "syncs E" and "wf_fs (w_fs w)"
    and "\<And>x. \<not> may_hold (w_fs w) (nc_client_ca c) (Some x)"
    and "bootstrap_enroll L E c None w = (r, w')" and "t \<in> set (passed w w')" and "after_crash t u"
    and "content u (nc_client_ca c) \<noteq> None"
  shows "\<exists>pem key. issued_pair L c pem key \<and>
    content u (nc_cert_file c) = Some pem \<and> content u (nc_key_file c) = Some key"
proof -
  obtain x where x: "content u (nc_client_ca c) = Some x" using assms(9) by blast
  then have "\<not> lost_above u (nc_client_ca c)" using crash_lost [OF assms(8)] by auto
  from crash_may_hold [OF assms(8) this] x have held: "may_hold t (nc_client_ca c) (Some x)" by simp
  from assms(1,4,6,7) show ?thesis
  proof (cases rule: bootstrap_states)
    case 1
    with held assms(5) show ?thesis by simp
  next
    case (2 w1 pem key its r1)
    let ?all = "identity_items c pem key @ its"
    have targets: "\<forall>it \<in> set ?all. durable_target (item_path it)"
      using assms(2) 2(3) by (auto simp: pki_durable_def identity_items_def ca_item_def)
    have ok: "wf_fs (w_fs w1)" using assms(4) by (simp add: 2(1))
    have run: "put_items (write_atomic (syncing E)) ?all w1 = (r1, w')"
      using 2(4) by (simp add: syncing_same [OF assms(3)])
    have mid: "seen w1 w' t" using 2(5) by (simp add: seen_def)
    have "its \<noteq> []"
    proof
      assume "its = []"
      then have "nc_client_ca c \<notin> item_path ` set ?all" using assms(1) by (auto simp: pki_paths_ok_def identity_items_def)
      from ds.puts_beside [OF targets ok run mid _ this held] assms(2,5) show False
        by (simp add: pki_durable_def 2(1))
    qed
    with 2(3) obtain ca where ca: "its = [ca_item c ca]" by blast
    have cp: "crash_prefix (w_fs w) (identity_items c pem key @ [ca_item c ca]) t"
      using ds.puts_crash [OF targets enroll_items(2) [OF assms(1) 2(3)] ok run mid] by (simp add: ca 2(1))
    have "content u (item_path it) = Some (item_data it)" if "it \<in> set ?all" for it
    proof (rule crash_prefix_last [OF cp assms(8), of x])
      have "path_parent (item_path it) = path_parent (nc_client_ca c)" "path_parent (item_path it) \<noteq> None"
        using that assms(2) ca by (auto simp: pki_durable_def identity_items_def ca_item_def)
      from above_same_parent [OF this]
      show "set (butlast (path_prefixes (item_path it))) \<subseteq> set (butlast (path_prefixes (item_path (ca_item c ca))))"
        by (simp add: ca_item_def)
    qed (use x assms(5) that ca in \<open>auto simp: ca_item_def\<close>)
    from this [of "?all ! 0"] this [of "?all ! 1"] 2(2) show ?thesis
      by (auto simp: identity_items_def)
  qed
qed

theorem enrollment_after_power_loss_witness:
  "\<exists>pem key. issued_pair sample_lib sample_conf pem key \<and>
     content (cut_without [] (w_fs enrolled)) (nc_cert_file sample_conf) = Some pem \<and>
     content (cut_without [] (w_fs enrolled)) (nc_key_file sample_conf) = Some key"
proof (rule enrollment_after_power_loss [OF sample_paths(1) sample_durable _ sample_disk_facts(1) _ enrolled_facts(1,7)])
  show "syncs calm" by (simp add: syncs_def)
  show "\<not> may_hold (w_fs sample_disk) (nc_client_ca sample_conf) (Some x)" for x by (rule sample_no_ca)
  show "after_crash (w_fs enrolled) (cut_without [] (w_fs enrolled))" by (rule cut_without_crash) simp
  show "content (cut_without [] (w_fs enrolled)) (nc_client_ca sample_conf) \<noteq> None"
    using enrolled_facts(6,8) by (simp add: cut_without_content)
qed

text \<open>
  What enrollment leaves alone, on every path and whatever fails: a renewal never changes the
  management CA bundle, and where the key lives in the TPM neither enrollment nor renewal writes
  the key file.
\<close>

lemma enrollment_scope:
  assumes "pki_paths_ok c" and "wf_fs (w_fs w)"
  shows "content (w_fs (snd (reenroll L E c tpm w))) (nc_client_ca c) = content (w_fs w) (nc_client_ca c) \<and>
    content (w_fs (snd (reenroll L E c (Some i) w))) (nc_key_file c) = content (w_fs w) (nc_key_file c) \<and>
    content (w_fs (snd (bootstrap_enroll L E c (Some i) w))) (nc_key_file c) = content (w_fs w) (nc_key_file c)"
  using enroll_tpm_keeps_key [OF assms(1), of "content (w_fs w) (nc_key_file c)" L E]
    reenroll_keeps_ca [OF assms(1), of "content (w_fs w) (nc_client_ca c)" L E tpm] assms(2)
  by (simp add: keeps_def)

lemma enrollment_scope_example:
  "content (w_fs (snd (reenroll sample_lib calm sample_conf None enrolled))) (nc_client_ca sample_conf) = Some ''ca''"
  using enrollment_scope [OF sample_paths(1) enrolled_facts(2)] enrolled_facts(6) by simp

text \<open>
  C25. No certificate expires unnoticed. A check asks for renewal exactly when the certificate has
  expired or less than a third of its lifetime is left, rounded down to whole nanoseconds; and with
  checks at most \<open>I\<close> apart and a lifetime of at least \<open>3 * I + 3\<close>, a check that finds no renewal
  due is followed by another before the certificate expires.
\<close>

theorem renewal_in_time:
  "(needs_renewal nb na t \<longleftrightarrow> na \<le> t \<or> 3 * (na - t) + 3 \<le> na - nb) \<and>
   (\<not> needs_renewal nb na t \<and> 3 * I + 3 \<le> na - nb \<and> t' \<le> t + I \<longrightarrow> t' < na)"
proof -
  have "na - t < (na - nb) div 3 \<longleftrightarrow> 3 * (na - t) + 3 \<le> na - nb" by linarith
  then have "needs_renewal nb na t \<longleftrightarrow> na \<le> t \<or> 3 * (na - t) + 3 \<le> na - nb"
    by (simp add: needs_renewal_def Let_def)
  then show ?thesis by linarith
qed

theorem renewal_in_time_witness:
  "needs_renewal 0 900 601 \<and> \<not> needs_renewal 0 900 600 \<and> (700 :: nat) < 900"
  using renewal_in_time [of 0 900 601] renewal_in_time [of 0 900 600 100 700] by simp

end
