(* ===== verification/Pkcs11.thy ===== *)
theory Pkcs11
  imports Est_Safety
begin

text \<open>
  The TPM-resident node identity (crates/noded/src/pkcs11.rs): \<open>open\<close>, \<open>provision_token\<close>,
  \<open>ensure_key\<close>, \<open>random_pin\<close>, \<open>read_pin\<close> and \<open>write_pin\<close>. The configuration and its defaults are in
  \<open>Noded_Config\<close>, \<open>cert_chain_from_pem\<close> and \<open>TpmIdentity\<close> are in \<open>Est\<close>.

  The PKCS#11 module and the key provider are other code: they are the parameter \<open>pk_lib\<close>, whose
  answers may depend on everything that happened before, and each call is an event of the trace
  with its arguments. The random numbers are a parameter too.
\<close>

section \<open>The libraries\<close>

record pk_lib =
  pk_module :: "event list \<Rightarrow> path \<Rightarrow> err + unit"
  pk_initialize :: "event list \<Rightarrow> err + unit"
  pk_slots_with_token :: "event list \<Rightarrow> err + nat list"
  pk_all_slots :: "event list \<Rightarrow> err + nat list"
  pk_init_token :: "event list \<Rightarrow> nat \<Rightarrow> string \<Rightarrow> string \<Rightarrow> err + unit"
  pk_open_rw_session :: "event list \<Rightarrow> nat \<Rightarrow> err + unit"
  pk_login_so :: "event list \<Rightarrow> string \<Rightarrow> err + unit"
  pk_init_pin :: "event list \<Rightarrow> string \<Rightarrow> err + unit"
  pk_logout :: "event list \<Rightarrow> err + unit"
  pk_provider :: "event list \<Rightarrow> path \<Rightarrow> string \<Rightarrow> err + unit"
  pk_find_key :: "event list \<Rightarrow> string \<Rightarrow> err + string option"
  pk_generate :: "event list \<Rightarrow> string \<Rightarrow> err + string"

section \<open>The PIN\<close>

definition CHARSET :: string where
  "CHARSET = ''ABCDEFGHIJKLMNOPQRSTUVWXYZabcdefghijklmnopqrstuvwxyz0123456789''"

text \<open>\<open>R k\<close> is the \<open>k\<close>-th number the generator gives; \<open>random_range\<close> brings it into range.\<close>

definition random_pin :: "(nat \<Rightarrow> nat) \<Rightarrow> nat \<Rightarrow> string" where
  "random_pin R k = map (\<lambda>j. CHARSET ! (R (k + j) mod length CHARSET)) [0..<24]"

definition read_pin :: "env \<Rightarrow> path \<Rightarrow> string cmd" where
  "read_pin E p =
     io_bind (io_ctx (''read token PIN '' @ show_comps p) (read_to_string E p)) (\<lambda>pin. io_ret (trim pin))"

definition write_pin :: "env \<Rightarrow> path \<Rightarrow> string \<Rightarrow> unit cmd" where
  "write_pin E p pin =
     io_then (case path_parent p of
                None \<Rightarrow> io_ret ()
              | Some d \<Rightarrow> io_ctx (''create PIN directory '' @ show_comps d) (create_dir_all E d))
     (io_bind (io_ctx (''create PIN file '' @ show_comps p) (open_trunc E p 0x180)) (\<lambda>h.
      io_then (io_ctx (''write PIN file '' @ show_comps p) (write_all E h pin))
        (io_ignore (sync_file E h))))"

section \<open>Provisioning\<close>

definition find_slot :: "pk_lib \<Rightarrow> nat cmd" where
  "find_slot P =
     io_bind (io_ctx ''get slots with token'' (lib_call ''get_slots_with_token'' [] (pk_slots_with_token P))) (\<lambda>with_token.
     io_bind (if with_token = [] then io_ctx ''get all slots'' (lib_call ''get_all_slots'' [] (pk_all_slots P))
              else io_ret with_token) (\<lambda>slots.
       case slots of [] \<Rightarrow> io_err (Msg ''no PKCS#11 slot available to initialize'') | slot # _ \<Rightarrow> io_ret slot))"

definition init_token_pins :: "pk_lib \<Rightarrow> tpm_config \<Rightarrow> nat \<Rightarrow> string \<Rightarrow> string \<Rightarrow> unit cmd" where
  "init_token_pins P cfg slot so user =
     io_then (io_ctx ''C_InitToken'' (lib_call ''C_InitToken'' [so, tc_token_label cfg]
        (\<lambda>t. pk_init_token P t slot so (tc_token_label cfg))))
     (io_then (io_ctx ''open rw session'' (lib_call ''open_rw_session'' [] (\<lambda>t. pk_open_rw_session P t slot)))
     (io_then (io_ctx ''login SO'' (lib_call ''login'' [so] (\<lambda>t. pk_login_so P t so)))
     (io_then (io_ctx ''C_InitPIN'' (lib_call ''C_InitPIN'' [user] (\<lambda>t. pk_init_pin P t user)))
       (io_ctx ''logout SO'' (lib_call ''logout'' [] (pk_logout P))))))"

definition provision_token :: "pk_lib \<Rightarrow> (nat \<Rightarrow> nat) \<Rightarrow> env \<Rightarrow> tpm_config \<Rightarrow> string cmd" where
  "provision_token P R E cfg =
     (let so_pin = random_pin R 0; user_pin = random_pin R 24 in
      io_then (io_ctx (''load PKCS#11 module '' @ show_comps (tc_library cfg))
        (lib_call ''Pkcs11::new'' [] (\<lambda>t. pk_module P t (tc_library cfg))))
      (io_then (io_ctx ''C_Initialize'' (lib_call ''C_Initialize'' [] (pk_initialize P)))
      (io_bind (find_slot P) (\<lambda>slot.
       io_then (init_token_pins P cfg slot so_pin user_pin)
       (io_then (write_pin E (tc_pin_file cfg) user_pin)
         (io_ret user_pin))))))"

definition ensure_key :: "pk_lib \<Rightarrow> string \<Rightarrow> string cmd" where
  "ensure_key P label =
     io_bind (io_ctx ''look up token key'' (lib_call ''find_key'' [label] (\<lambda>t. pk_find_key P t label))) (\<lambda>found.
       case found of
         Some handle \<Rightarrow> io_ret handle
       | None \<Rightarrow> io_ctx ''generate token key'' (lib_call ''generate_key_pair'' [label] (\<lambda>t. pk_generate P t label)))"

definition pkcs11_open :: "pk_lib \<Rightarrow> (nat \<Rightarrow> nat) \<Rightarrow> env \<Rightarrow> tpm_config \<Rightarrow> tpm_identity cmd" where
  "pkcs11_open P R E cfg =
     io_bind (path_exists E (tc_pin_file cfg)) (\<lambda>provisioned.
     io_bind (if provisioned then read_pin E (tc_pin_file cfg) else provision_token P R E cfg) (\<lambda>user_pin.
     io_then (io_ctx ''open PKCS#11 token'' (lib_call ''Pkcs11KeyProvider::new'' [user_pin]
        (\<lambda>t. pk_provider P t (tc_library cfg) user_pin)))
     (io_bind (ensure_key P (tc_key_label cfg)) (\<lambda>handle.
       io_ret \<lparr>ti_provider = \<lparr>kp_library = tc_library cfg, kp_pin = user_pin\<rparr>, ti_handle = handle\<rparr>))))"

section \<open>Facts about the PIN\<close>

lemma random_pin_facts: "length (random_pin R k) = 24" "\<forall>c \<in> set (random_pin R k). is_alnum c"
proof -
  have "\<forall>c \<in> set CHARSET. is_alnum c" by code_simp
  moreover have "0 < length CHARSET" by code_simp
  ultimately show "\<forall>c \<in> set (random_pin R k). is_alnum c" by (auto simp: random_pin_def)
qed (simp add: random_pin_def)

lemma alnum_utf8: "\<forall>c \<in> set s. is_alnum c \<Longrightarrow> valid_utf8 s"
  by (rule valid_utf8_ascii) (fastforce simp: char_class_defs)

text \<open>
  What a \<open>write_pin\<close> leaves that fails after the file has been opened: a first part of the PIN,
  never all of it.
\<close>

lemma fs_open_trunc_opened:
  assumes "fs_open_trunc p m s = Inr (h, s')"
  shows "cur s' p = FileAt h \<and> i_data (fs_inodes s' h) = [] \<and> path_parent p \<noteq> None"
  using assms by (auto simp: fs_open_trunc_def cur_def vers_def set_ent_def upd_inode_def
      split: option.splits if_splits entry.splits list.splits)

lemma fs_write_content:
  "cur s p = FileAt h \<Longrightarrow> i_data (fs_inodes s h) = [] \<Longrightarrow> content (fs_write h d s) p = Some d \<and> cur (fs_write h d s) p = FileAt h"
  by (simp add: content_def fs_write_def upd_inode_def cur_def vers_def)

lemma content_sync: "content (fs_sync h s) p = content s p"
  by (simp add: content_def fs_sync_def upd_inode_def cur_def vers_def split: entry.split)

lemma write_pin_done:
  assumes "write_pin E p pin w = (Inr x, w')"
  shows "content (w_fs w') p = Some pin"
proof -
  from assms obtain w1 h w2 w3 where o: "open_trunc E p 0x180 w1 = (Inr h, w2)"
    and wr: "write_all E h pin w2 = (Inr (), w3)" and sy: "io_ignore (sync_file E h) w3 = (Inr x, w')"
    unfolding write_pin_def by (auto elim!: io_bind_InrE io_then_InrE)
  have op: "cur (w_fs w2) p = FileAt h" "i_data (fs_inodes (w_fs w2) h) = []"
    using o fs_open_trunc_opened by (auto simp: open_trunc_def prim_Inr)
  have "content (w_fs w3) p = Some pin"
    using wr fs_write_content [OF op] by (auto simp: write_all_def split: option.splits)
  then show ?thesis
    using sy by (auto simp: io_ignore_run sync_file_def prim_def content_sync split: option.splits)
qed

lemma write_pin_torn:
  assumes "write_pin E p pin w = (Inl (Ctx (''write PIN file '' @ show_comps p) e), w')"
  shows "\<exists>n < length pin. content (w_fs w') p = Some (take n pin)"
proof -
  obtain w1 h w2 where o: "open_trunc E p 0x180 w1 = (Inr h, w2)" and wr: "write_all E h pin w2 = (Inl e, w')"
    using assms unfolding write_pin_def
    by (auto simp: io_defs split: option.splits sum.splits prod.splits)
  have op: "cur (w_fs w2) p = FileAt h" "i_data (fs_inodes (w_fs w2) h) = []"
    using o fs_open_trunc_opened by (auto simp: open_trunc_def prim_Inr)
  obtain k where k: "write_fault E (w_trace w2) h pin = Some k"
    "w_fs w' = fs_write h (written E (w_trace w2) pin) (w_fs w2)"
    using wr by (auto simp: write_all_def split: option.splits)
  then have "pin \<noteq> []" using write_faultD by blast
  then obtain n where "n < length pin" "written E (w_trace w2) pin = take n pin" by (rule written_short)
  with k(2) fs_write_content [OF op] show ?thesis by auto
qed

section \<open>What a boot does with a PIN file\<close>

text \<open>The event does not initialise the token, and the provider is opened with the PIN \<open>pin\<close> only.\<close>

fun opens_with :: "string \<Rightarrow> event \<Rightarrow> bool" where
  "opens_with pin (LibCall n a, r) \<longleftrightarrow>
     n \<noteq> ''C_InitToken'' \<and> n \<noteq> ''C_InitPIN'' \<and> (n = ''Pkcs11KeyProvider::new'' \<longrightarrow> a = [pin])"
| "opens_with pin _ \<longleftrightarrow> True"

lemma reopen_events:
  assumes "content (w_fs w) (tc_pin_file cfg) = Some pin" and "\<forall>c \<in> set pin. is_alnum c"
    and "env_fault E (w_trace w) (Exists (tc_pin_file cfg)) = None"
    and "pkcs11_open P R E cfg w = (r, w')"
  shows "\<exists>es. w_trace w' = w_trace w @ es \<and> list_all (opens_with pin) es"
proof -
  let ?p = "tc_pin_file cfg"
  let ?rest = "\<lambda>user_pin. io_then (io_ctx ''open PKCS#11 token'' (lib_call ''Pkcs11KeyProvider::new'' [user_pin]
        (\<lambda>t. pk_provider P t (tc_library cfg) user_pin)))
     (io_bind (ensure_key P (tc_key_label cfg)) (\<lambda>handle.
       io_ret \<lparr>ti_provider = \<lparr>kp_library = tc_library cfg, kp_pin = user_pin\<rparr>, ti_handle = handle\<rparr>))"
  define w1 where "w1 = log (Exists ?p) (Answer True) w"
  obtain i where i: "cur (w_fs w) ?p = FileAt i" "i_data (fs_inodes (w_fs w) i) = pin"
    using assms(1) by (auto simp: content_def split: entry.splits)
  have ex: "path_exists E ?p w = (Inr True, w1)" using assms(3) i by (simp add: path_exists_def w1_def)
  have run: "io_bind (read_pin E ?p) ?rest w1 = (r, w')"
    using assms(4) by (simp only: pkcs11_open_def io_bind_Inr [of "path_exists E ?p", OF ex] if_True)
  have rest: "emits (opens_with pin) (?rest pin)"
    unfolding ensure_key_def by (intro emits_rules) simp_all
  have "fs_read_str ?p (w_fs w1) = Inr (pin, w_fs w1)"
    using i alnum_utf8 [OF assms(2)] by (simp add: w1_def fs_read_str_def fs_read_def)
  then consider e where "read_pin E ?p w1 = (Inl e, log (ReadFile ?p) (Failed (the (env_fault E (w_trace w1) (ReadFile ?p)))) w1)"
    | "read_pin E ?p w1 = (Inr pin, log (ReadFile ?p) Done (put_fs (w_fs w1) w1))"
    using trim_alnum [OF assms(2)]
    by (cases "env_fault E (w_trace w1) (ReadFile ?p)")
      (auto simp: read_pin_def read_to_string_def prim_def io_defs)
  then show ?thesis
  proof cases
    case 1
    then have "io_bind (read_pin E ?p) ?rest w1 =
        (Inl e, log (ReadFile ?p) (Failed (the (env_fault E (w_trace w1) (ReadFile ?p)))) w1)" by (rule io_bind_Inl)
    with run have "w_trace w' = w_trace w @ [(Exists ?p, Answer True),
        (ReadFile ?p, Failed (the (env_fault E (w_trace w1) (ReadFile ?p))))]" by (auto simp: w1_def)
    then show ?thesis by simp
  next
    case 2
    then have "io_bind (read_pin E ?p) ?rest w1 = ?rest pin (log (ReadFile ?p) Done (put_fs (w_fs w1) w1))"
      by (rule io_bind_Inr)
    with run have "?rest pin (log (ReadFile ?p) Done (put_fs (w_fs w1) w1)) = (r, w')" by simp
    from emitsD [OF rest this] obtain es where
      "w_trace w' = w_trace (log (ReadFile ?p) Done (put_fs (w_fs w1) w1)) @ es" "list_all (opens_with pin) es" .
    then have "w_trace w' = w_trace w @ ([(Exists ?p, Answer True), (ReadFile ?p, Done)] @ es)"
      "list_all (opens_with pin) ([(Exists ?p, Answer True), (ReadFile ?p, Done)] @ es)" by (simp_all add: w1_def)
    then show ?thesis by blast
  qed
qed

text \<open>A first boot that gets as far as the PIN file has set the PIN in the token.\<close>

lemma lib_calls_fs: "fst (lib_call n a f w) = Inr x \<Longrightarrow> w_trace (snd (lib_call n a f w)) = w_trace w @ [(LibCall n a, Done)]"
  by (auto simp: lib_call_def split: sum.splits)

definition pin_set :: "string \<Rightarrow> world \<Rightarrow> bool" where
  "pin_set pin w \<longleftrightarrow> (LibCall ''C_InitPIN'' [pin], Done) \<in> set (w_trace w)"

lemma pin_set_keeps: "emits Q m \<Longrightarrow> keeps (pin_set pin) m"
  unfolding emits_def keeps_def pin_set_def by (metis UnCI set_append)

text \<open>Errors under another context message are not the one looked at.\<close>

definition unless_ctx :: "string \<Rightarrow> (world \<Rightarrow> bool) \<Rightarrow> err \<Rightarrow> world \<Rightarrow> bool" where
  "unless_ctx c X err w \<longleftrightarrow> (\<forall>e. err = Ctx c e \<longrightarrow> X w)"

lemma triple_other_ctx: "c' \<noteq> c \<Longrightarrow> triple P (io_ctx c' m) (\<lambda>_ _. True) (unless_ctx c X)"
  by (rule tripleI) (auto simp: unless_ctx_def io_ctx_Inl)

lemma triple_other_err: "(\<And>e. err \<noteq> Ctx c e) \<Longrightarrow> triple P (io_err err) Q (unless_ctx c X)"
  by (rule tripleI) (auto simp: unless_ctx_def)

lemma triple_pure: "triple P (io_ret x) (\<lambda>_ _. True) R"
  by (rule tripleI) simp_all

lemma find_slot_errs:
  assumes "hd c = CHR ''w''"
  shows "triple P (find_slot S) (\<lambda>_ _. True) (unless_ctx c X)"
proof -
  have c: "''get slots with token'' \<noteq> c" "''get all slots'' \<noteq> c" using assms by auto
  have pick: "triple Q (case slots of [] \<Rightarrow> io_err (Msg m) | slot # _ \<Rightarrow> io_ret slot) (\<lambda>_ _. True) (unless_ctx c X)"
    for slots :: "nat list" and Q m
    by (cases slots) (simp_all add: triple_other_err triple_pure)
  have more: "triple Q (if ws = [] then io_ctx ''get all slots'' m else io_ret ws) (\<lambda>_ _. True) (unless_ctx c X)"
    for ws :: "nat list" and m Q
    using c(2) by (simp add: triple_other_ctx triple_pure)
  show ?thesis
    unfolding find_slot_def by (rule triple_bind [OF triple_other_ctx [OF c(1)] triple_bind [OF more pick]])
qed

lemma init_token_pins_set:
  assumes "hd c = CHR ''w''"
  shows "triple P (init_token_pins S cfg slot so user) (\<lambda>_. pin_set user) (unless_ctx c X)"
proof -
  have c: "''C_InitToken'' \<noteq> c" "''open rw session'' \<noteq> c" "''login SO'' \<noteq> c" "''C_InitPIN'' \<noteq> c" "''logout SO'' \<noteq> c"
    using assms by auto
  have pin: "triple Q (io_ctx ''C_InitPIN'' (lib_call ''C_InitPIN'' [user] f)) (\<lambda>_. pin_set user) (unless_ctx c X)" for f Q
    using c(4) by (intro tripleI) (auto simp: unless_ctx_def io_ctx_Inl lib_call_def pin_set_def split: sum.splits)
  have out: "triple (pin_set user) (io_ctx ''logout SO'' (lib_call ''logout'' [] f)) (\<lambda>_. pin_set user) (unless_ctx c X)" for f
    using c(5) by (intro tripleI) (auto simp: unless_ctx_def io_ctx_Inl lib_call_def pin_set_def split: sum.splits)
  show ?thesis
    unfolding init_token_pins_def
    by (rule triple_then [OF triple_other_ctx [OF c(1)] triple_then [OF triple_other_ctx [OF c(2)]
          triple_then [OF triple_other_ctx [OF c(3)] triple_then [OF pin out]]]])
qed

text \<open>
  How provisioning ends: with the PIN on disk and in the token, or, where the PIN could not be
  written, with some first part of it on disk and all of it in the token.
\<close>

lemma provision_token_ends:
  fixes cfg R
  defines "u \<equiv> random_pin R 24" and "p \<equiv> tc_pin_file cfg"
  shows "triple (\<lambda>_. True) (provision_token S R E cfg)
     (\<lambda>pin w. pin = u \<and> content (w_fs w) p = Some u \<and> pin_set u w)
     (unless_ctx (''write PIN file '' @ show_comps p) (\<lambda>w. (\<exists>n < 24. content (w_fs w) p = Some (take n u)) \<and> pin_set u w))"
    (is "triple _ _ ?Q ?R")
proof -
  have c: "hd (''write PIN file '' @ show_comps p) = CHR ''w''" by simp
  have keep: "keeps (pin_set u) (write_pin E p u)"
    unfolding write_pin_def prim_op_defs by (rule pin_set_keeps [of "\<lambda>_. True"], intro emits_rules) simp_all
  have wp: "triple (pin_set u) (write_pin E p u) (\<lambda>_ w. content (w_fs w) p = Some u \<and> pin_set u w) ?R"
  proof (rule tripleI)
    fix w x w'
    assume "pin_set u w" and run: "write_pin E p u w = (Inr x, w')"
    then show "content (w_fs w') p = Some u \<and> pin_set u w'" using write_pin_done keepsD [OF keep] by blast
  next
    fix w e w'
    assume "pin_set u w" and run: "write_pin E p u w = (Inl e, w')"
    then have "pin_set u w'" using keepsD [OF keep] by blast
    then show "?R e w'" unfolding unless_ctx_def using run write_pin_torn random_pin_facts(1) by (metis u_def)
  qed
  have ret: "triple (\<lambda>w. content (w_fs w) p = Some u \<and> pin_set u w) (io_ret u) ?Q ?R"
    by (rule tripleI) simp_all
  show ?thesis
    unfolding provision_token_def Let_def u_def [symmetric] p_def [symmetric]
    by (rule triple_then [OF triple_other_ctx triple_then [OF triple_other_ctx triple_bind [OF find_slot_errs [OF c]
          triple_then [OF init_token_pins_set [OF c] triple_then [OF wp ret]]]]]) simp_all
qed

lemma pkcs11_open_first:
  fixes cfg R
  defines "u \<equiv> random_pin R 24" and "p \<equiv> tc_pin_file cfg"
  shows "triple (\<lambda>w. cur (w_fs w) p = Absent) (pkcs11_open S R E cfg)
     (\<lambda>idn w. kp_pin (ti_provider idn) = u \<and> content (w_fs w) p = Some u \<and> pin_set u w)
     (unless_ctx (''write PIN file '' @ show_comps p) (\<lambda>w. (\<exists>n < 24. content (w_fs w) p = Some (take n u)) \<and> pin_set u w))"
    (is "triple _ _ ?Q ?R")
proof -
  let ?I = "\<lambda>w. content (w_fs w) p = Some u \<and> pin_set u w"
  have lib: "triple ?I (io_ctx c (lib_call n a f)) (\<lambda>_. ?I) ?R" if "hd c \<noteq> CHR ''w''" for c n a f
    using that
    by (intro tripleI) (auto simp: unless_ctx_def io_ctx_Inl lib_call_def pin_set_def split: sum.splits)
  have key: "triple ?I (ensure_key S label) (\<lambda>_. ?I) ?R" for label
    unfolding ensure_key_def
  proof (rule triple_bind [OF lib])
    show "triple ?I (case found of Some handle \<Rightarrow> io_ret handle
        | None \<Rightarrow> io_ctx ''generate token key'' (lib_call ''generate_key_pair'' [label] f)) (\<lambda>_. ?I) ?R" for found f
      by (cases found) (simp_all only: option.case, rule lib, simp, rule triple_ret)
  qed simp
  have rest: "triple (\<lambda>w. pin = u \<and> ?I w) (io_then (io_ctx ''open PKCS#11 token'' (lib_call ''Pkcs11KeyProvider::new'' [pin]
        (\<lambda>t. pk_provider S t (tc_library cfg) pin)))
     (io_bind (ensure_key S (tc_key_label cfg)) (\<lambda>handle.
       io_ret \<lparr>ti_provider = \<lparr>kp_library = tc_library cfg, kp_pin = pin\<rparr>, ti_handle = handle\<rparr>))) ?Q ?R" for pin
  proof (cases "pin = u")
    case True
    have ret: "triple ?I (io_ret \<lparr>ti_provider = \<lparr>kp_library = tc_library cfg, kp_pin = u\<rparr>, ti_handle = h\<rparr>) ?Q ?R" for h
      by (rule tripleI) auto
    have "(\<lambda>w. pin = u \<and> ?I w) = ?I" using True by simp
    then show ?thesis unfolding True by (simp only:) (rule triple_then [OF lib triple_bind [OF key ret]], simp)
  next
    case False
    then show ?thesis by (simp add: triple_def)
  qed
  have ex: "triple (\<lambda>w. cur (w_fs w) p = Absent) (path_exists E p) (\<lambda>b _. \<not> b) ?R"
    by (rule tripleI) (auto simp: path_exists_def Let_def)
  have prov: "triple (\<lambda>_. \<not> b) (if b then read_pin E p else provision_token S R E cfg) (\<lambda>pin w. pin = u \<and> ?I w) ?R" for b
  proof (cases b)
    case True
    then show ?thesis by (simp add: triple_def)
  next
    case False
    then show ?thesis using provision_token_ends [of S R E cfg] by (simp add: u_def p_def)
  qed
  show ?thesis
    unfolding pkcs11_open_def p_def [symmetric]
    by (rule triple_bind [OF ex triple_bind [OF prov rest]])
qed

section \<open>Properties\<close>

text \<open>
  C23. The PIN round trip. After a first boot that succeeded, the PIN set in the token by
  \<open>C_InitPIN\<close> is the one on disk, and every later boot that finds the same file, whatever the
  token then answers, leaves the token initialised as it is and opens it with exactly that PIN.
\<close>

theorem pin_reopen:
  assumes "cur (w_fs w) (tc_pin_file cfg) = Absent" and "pkcs11_open S R E cfg w = (Inr idn, w1)"
    and "content (w_fs w2) (tc_pin_file cfg) = content (w_fs w1) (tc_pin_file cfg)"
    and "env_fault E' (w_trace w2) (Exists (tc_pin_file cfg)) = None"
    and "pkcs11_open S' R' E' cfg w2 = (r, w3)"
  shows "pin_set (kp_pin (ti_provider idn)) w1 \<and> length (kp_pin (ti_provider idn)) = 24 \<and>
    (\<exists>es. w_trace w3 = w_trace w2 @ es \<and> list_all (opens_with (kp_pin (ti_provider idn))) es)"
proof -
  have first: "kp_pin (ti_provider idn) = random_pin R 24" "content (w_fs w1) (tc_pin_file cfg) = Some (random_pin R 24)"
    "pin_set (random_pin R 24) w1"
    using tripleD_Inr [OF pkcs11_open_first assms(1,2)] by auto
  then show ?thesis
    using reopen_events [OF _ random_pin_facts(2) assms(4,5), of R 24] assms(3) random_pin_facts(1) by simp
qed

text \<open>A token that accepts every call, and a machine with room for five bytes of the PIN.\<close>

definition sample_token :: pk_lib where
  "sample_token =
     \<lparr>pk_module = (\<lambda>_ _. Inr ()), pk_initialize = (\<lambda>_. Inr ()), pk_slots_with_token = (\<lambda>_. Inr [0]),
      pk_all_slots = (\<lambda>_. Inr [0]), pk_init_token = (\<lambda>_ _ _ _. Inr ()), pk_open_rw_session = (\<lambda>_ _. Inr ()),
      pk_login_so = (\<lambda>_ _. Inr ()), pk_init_pin = (\<lambda>_ _. Inr ()), pk_logout = (\<lambda>_. Inr ()),
      pk_provider = (\<lambda>_ _ _. Inr ()), pk_find_key = (\<lambda>_ _. Inr None), pk_generate = (\<lambda>_ _. Inr ''h'')\<rparr>"

definition sample_tpm :: tpm_config where
  "sample_tpm = \<lparr>tc_library = path_of ''/l'', tc_store = path_of ''/s'', tc_token_label = ''t'',
     tc_key_label = ''k'', tc_pin_file = path_of ''/p/t'', tc_tcti = ''d''\<rparr>"

definition short_env :: env where
  "short_env = calm\<lparr>env_fault := (\<lambda>_ o'. case o' of WriteAll _ _ \<Rightarrow> Some (OsError 28) | _ \<Rightarrow> None), env_short := (\<lambda>_. 5)\<rparr>"

lemma sample_boot:
  "fst (pkcs11_open sample_token (\<lambda>_. 0) calm sample_tpm (world_of empty_fs)) =
     Inr \<lparr>ti_provider = \<lparr>kp_library = path_of ''/l'', kp_pin = random_pin (\<lambda>_. 0) 24\<rparr>, ti_handle = ''h''\<rparr>"
  by code_simp

lemma sample_boot_short:
  "fst (pkcs11_open sample_token (\<lambda>_. 0) short_env sample_tpm (world_of empty_fs)) =
     Inl (Ctx (''write PIN file '' @ show_comps (tc_pin_file sample_tpm)) (Io (OsError 28)))"
  by code_simp

theorem pin_reopen_witness:
  "(let w1 = snd (pkcs11_open sample_token (\<lambda>_. 0) calm sample_tpm (world_of empty_fs));
        w3 = snd (pkcs11_open sample_token (\<lambda>_. 1) calm sample_tpm w1)
    in pin_set (random_pin (\<lambda>_. 0) 24) w1 \<and>
       (\<exists>es. w_trace w3 = w_trace w1 @ es \<and> list_all (opens_with (random_pin (\<lambda>_. 0) 24)) es))"
proof -
  let ?w = "world_of empty_fs"
  let ?r1 = "pkcs11_open sample_token (\<lambda>_. 0) calm sample_tpm ?w"
  have absent: "cur (w_fs ?w) (tc_pin_file sample_tpm) = Absent"
    by (simp add: world_of_def cur_def vers_def empty_fs_def)
  have run: "?r1 = (Inr \<lparr>ti_provider = \<lparr>kp_library = path_of ''/l'', kp_pin = random_pin (\<lambda>_. 0) 24\<rparr>, ti_handle = ''h''\<rparr>, snd ?r1)"
    using sample_boot by (simp add: prod_eq_iff)
  show ?thesis
    using pin_reopen [OF absent run refl calm_fault prod.collapse [symmetric], of sample_token "\<lambda>_. 1"]
    by (simp add: Let_def)
qed

text \<open>
  C38. A first boot that cannot write the PIN file, for example because the volume is full, is not
  repaired by later boots: the token already has its PIN of 24 characters, the file holds fewer of
  them, and since the file's presence marks the token as provisioned every later boot that sees it
  never provisions again and opens the token only with the truncated PIN, which is not the one set.
\<close>

theorem torn_pin_sticks:
  assumes "cur (w_fs w) (tc_pin_file cfg) = Absent"
    and "pkcs11_open S R E cfg w = (Inl (Ctx (''write PIN file '' @ show_comps (tc_pin_file cfg)) e), w1)"
    and "content (w_fs w2) (tc_pin_file cfg) = content (w_fs w1) (tc_pin_file cfg)"
    and "env_fault E' (w_trace w2) (Exists (tc_pin_file cfg)) = None"
    and "pkcs11_open S' R' E' cfg w2 = (r, w3)"
  shows "pin_set (random_pin R 24) w1 \<and>
    (\<exists>n es. n < 24 \<and> content (w_fs w1) (tc_pin_file cfg) = Some (take n (random_pin R 24)) \<and>
       take n (random_pin R 24) \<noteq> random_pin R 24 \<and>
       w_trace w3 = w_trace w2 @ es \<and> list_all (opens_with (take n (random_pin R 24))) es)"
proof -
  from tripleD_Inl [OF pkcs11_open_first assms(1,2)] obtain n where short: "n < 24"
    and n: "content (w_fs w1) (tc_pin_file cfg) = Some (take n (random_pin R 24))" and pin: "pin_set (random_pin R 24) w1"
    unfolding unless_ctx_def by blast
  have wrong: "take n (random_pin R 24) \<noteq> random_pin R 24"
    using short random_pin_facts(1) [of R 24] by (metis length_take min_less_iff_conj nat_neq_iff)
  have "\<forall>c \<in> set (take n (random_pin R 24)). is_alnum c"
    using random_pin_facts(2) [of R 24] by (auto dest: in_set_takeD)
  from reopen_events [OF _ this assms(4,5)] n assms(3) pin short wrong show ?thesis by auto
qed

lemma sample_pin: "random_pin (\<lambda>_. 0) 24 = replicate 24 CHR ''A''"
  by code_simp

lemma sample_torn_file:
  "content (w_fs (snd (pkcs11_open sample_token (\<lambda>_. 0) short_env sample_tpm (world_of empty_fs))))
     (tc_pin_file sample_tpm) = Some ''AAAAA''"
  by code_simp

theorem torn_pin_sticks_witness:
  "(let w1 = snd (pkcs11_open sample_token (\<lambda>_. 0) short_env sample_tpm (world_of empty_fs));
        w3 = snd (pkcs11_open sample_token (\<lambda>_. 1) calm sample_tpm w1)
    in pin_set (replicate 24 CHR ''A'') w1 \<and>
       (\<exists>es. w_trace w3 = w_trace w1 @ es \<and> list_all (opens_with ''AAAAA'') es))"
proof -
  let ?w = "world_of empty_fs"
  let ?r1 = "pkcs11_open sample_token (\<lambda>_. 0) short_env sample_tpm ?w"
  have absent: "cur (w_fs ?w) (tc_pin_file sample_tpm) = Absent"
    by (simp add: world_of_def cur_def vers_def empty_fs_def)
  have run: "?r1 = (Inl (Ctx (''write PIN file '' @ show_comps (tc_pin_file sample_tpm)) (Io (OsError 28))), snd ?r1)"
    using sample_boot_short by (simp add: prod_eq_iff)
  from torn_pin_sticks [OF absent run refl calm_fault prod.collapse [symmetric], of sample_token "\<lambda>_. 1"]
  show ?thesis using sample_torn_file by (auto simp: Let_def sample_pin)
qed

end
