(* ===== verification/Server_Cert.thy ===== *)
theory Server_Cert
  imports Est_Safety
begin

text \<open>
  The certificate the management server presents (crates/noded/src/main.rs, \<open>KeySource\<close> to
  \<open>load_client_roots\<close>): loading a chain and its key, the resolver \<open>ReloadableCert\<close> whose
  certificate can be swapped, the TLS configuration with the client CAs, and the renewal loop
  that renews and swaps.

  The PEM and key parsers and the certificate store of rustls are parameters: \<open>el_pem_chain\<close> of
  \<open>est_lib\<close> for chains, and \<open>tls_lib\<close> for the rest.
\<close>

section \<open>The libraries\<close>

record tls_lib =
  tl_private_key :: "string \<Rightarrow> err + der option"
  tl_load_key :: "der \<Rightarrow> err + signing_key"
  tl_add_root :: "der list \<Rightarrow> der \<Rightarrow> err + unit"
  tl_verifier :: "der list \<Rightarrow> err + unit"

section \<open>Loading\<close>

definition load_certs :: "est_lib \<Rightarrow> env \<Rightarrow> path \<Rightarrow> der list cmd" where
  "load_certs L E p = io_bind (read_file E p) (\<lambda>pem. io_lift (el_pem_chain L pem))"

definition load_key :: "tls_lib \<Rightarrow> env \<Rightarrow> path \<Rightarrow> der cmd" where
  "load_key T E p =
     io_bind (read_file E p) (\<lambda>pem.
     io_bind (io_lift (tl_private_key T pem)) (\<lambda>key.
       case key of None \<Rightarrow> io_err (Msg (''no private key found in '' @ show_comps p)) | Some k \<Rightarrow> io_ret k))"

text \<open>The certificates are added one by one; the store is the list of those accepted.\<close>

fun add_roots :: "tls_lib \<Rightarrow> der list \<Rightarrow> der list \<Rightarrow> err + der list" where
  "add_roots T roots [] = Inr roots"
| "add_roots T roots (c # cs) =
     (case tl_add_root T roots c of
        Inl e \<Rightarrow> Inl (Ctx ''invalid client CA certificate'' e)
      | Inr _ \<Rightarrow> add_roots T (roots @ [c]) cs)"

definition load_client_roots :: "est_lib \<Rightarrow> tls_lib \<Rightarrow> env \<Rightarrow> path \<Rightarrow> der list cmd" where
  "load_client_roots L T E p =
     io_bind (load_certs L E p) (\<lambda>certs.
     io_bind (io_lift (add_roots T [] certs)) (\<lambda>roots.
       if roots = [] then io_err (Msg ''client CA bundle contains no certificates'') else io_ret roots))"

section \<open>The resolver\<close>

datatype key_source = KeyFile path | KeyTpm signing_key

record certified_key =
  ck_certs :: "der list"
  ck_key :: signing_key

record reloadable_cert =
  rc_cert_path :: path
  rc_key_source :: key_source
  rc_current :: certified_key
  rc_poisoned :: bool

text \<open>\<open>prov\<close>: a crypto provider has been installed for the process.\<close>

definition load_signing_key :: "tls_lib \<Rightarrow> bool \<Rightarrow> env \<Rightarrow> key_source \<Rightarrow> signing_key cmd" where
  "load_signing_key T prov E src =
     (case src of
        KeyFile key_path \<Rightarrow>
          io_bind (io_ctx ''load server private key'' (load_key T E key_path)) (\<lambda>key.
            if prov then io_ctx ''load signing key'' (io_lift (tl_load_key T key))
            else io_err (Msg ''no rustls crypto provider installed''))
      | KeyTpm k \<Rightarrow> io_ret k)"

definition build_certified_key ::
  "est_lib \<Rightarrow> tls_lib \<Rightarrow> bool \<Rightarrow> env \<Rightarrow> path \<Rightarrow> key_source \<Rightarrow> certified_key cmd" where
  "build_certified_key L T prov E cert_path src =
     io_bind (io_ctx ''load server certificate'' (load_certs L E cert_path)) (\<lambda>certs.
     io_bind (load_signing_key T prov E src) (\<lambda>signing_key.
       io_ret \<lparr>ck_certs = certs, ck_key = signing_key\<rparr>))"

definition reloadable_new ::
  "est_lib \<Rightarrow> tls_lib \<Rightarrow> bool \<Rightarrow> env \<Rightarrow> path \<Rightarrow> key_source \<Rightarrow> reloadable_cert cmd" where
  "reloadable_new L T prov E cert_path src =
     io_bind (build_certified_key L T prov E cert_path src) (\<lambda>certified.
       io_ret \<lparr>rc_cert_path = cert_path, rc_key_source = src, rc_current = certified, rc_poisoned = False\<rparr>)"

definition from_files :: "est_lib \<Rightarrow> tls_lib \<Rightarrow> bool \<Rightarrow> env \<Rightarrow> path \<Rightarrow> path \<Rightarrow> reloadable_cert cmd" where
  "from_files L T prov E cert_path key_path = reloadable_new L T prov E cert_path (KeyFile key_path)"

definition from_tpm :: "est_lib \<Rightarrow> tls_lib \<Rightarrow> bool \<Rightarrow> env \<Rightarrow> path \<Rightarrow> signing_key \<Rightarrow> reloadable_cert cmd" where
  "from_tpm L T prov E cert_path signing_key = reloadable_new L T prov E cert_path (KeyTpm signing_key)"

text \<open>\<open>reload(&self) -> Result<()>\<close>: its result together with the resolver afterwards.\<close>

definition reload ::
  "est_lib \<Rightarrow> tls_lib \<Rightarrow> bool \<Rightarrow> env \<Rightarrow> reloadable_cert \<Rightarrow> ((err + unit) \<times> reloadable_cert) cmd" where
  "reload L T prov E rc =
     io_bind (io_attempt (build_certified_key L T prov E (rc_cert_path rc) (rc_key_source rc))) (\<lambda>r.
       case r of
         Inl e \<Rightarrow> io_ret (Inl e, rc)
       | Inr certified \<Rightarrow>
           if rc_poisoned rc then io_ret (Inl (Msg ''reloadable certificate lock poisoned''), rc)
           else io_ret (Inr (), rc\<lparr>rc_current := certified\<rparr>))"

definition resolve :: "reloadable_cert \<Rightarrow> certified_key option" where
  "resolve rc = (if rc_poisoned rc then None else Some (rc_current rc))"

text \<open>The TLS configuration: the client CAs of the verifier; the resolver is passed through.\<close>

record tls_server_config =
  ts_client_roots :: "der list"

definition build_server_config ::
  "est_lib \<Rightarrow> tls_lib \<Rightarrow> env \<Rightarrow> noded_config \<Rightarrow> tls_server_config cmd" where
  "build_server_config L T E c =
     io_bind (io_ctx ''load client CA'' (load_client_roots L T E (nc_client_ca c))) (\<lambda>roots.
     io_then (io_ctx ''build client cert verifier'' (io_lift (tl_verifier T roots)))
       (io_ret \<lparr>ts_client_roots = roots\<rparr>))"

section \<open>The renewal loop\<close>

definition renewal_interval :: "noded_config \<Rightarrow> nat" where
  "renewal_interval c = max (nc_renew_check_interval_secs c) 1 * 1000"

text \<open>One turn of the loop; every error is logged and the loop goes on.\<close>

definition renewal_tick ::
  "est_lib \<Rightarrow> tls_lib \<Rightarrow> bool \<Rightarrow> (event list \<Rightarrow> nat option) \<Rightarrow> env \<Rightarrow> noded_config \<Rightarrow> tpm_identity option \<Rightarrow>
   reloadable_cert \<Rightarrow> reloadable_cert cmd" where
  "renewal_tick L T prov clock E c tpm rc =
     io_then (sleep E (renewal_interval c))
     (io_bind (io_attempt (cert_needs_renewal L clock E (nc_cert_file c))) (\<lambda>due.
        case due of
          Inr True \<Rightarrow>
            io_bind (io_attempt (reenroll L E c tpm)) (\<lambda>r.
              case r of
                Inl _ \<Rightarrow> io_ret rc
              | Inr _ \<Rightarrow> io_bind (reload L T prov E rc) (\<lambda>(_, rc'). io_ret rc'))
        | Inr False \<Rightarrow> io_ret rc
        | Inl _ \<Rightarrow> io_ret rc))"

text \<open>The loop never ends by itself; \<open>n\<close> is the number of its turns.\<close>

fun renewal_loop ::
  "est_lib \<Rightarrow> tls_lib \<Rightarrow> bool \<Rightarrow> (event list \<Rightarrow> nat option) \<Rightarrow> env \<Rightarrow> noded_config \<Rightarrow> tpm_identity option \<Rightarrow> nat \<Rightarrow>
   reloadable_cert \<Rightarrow> reloadable_cert cmd" where
  "renewal_loop L T prov clock E c tpm 0 rc = io_ret rc"
| "renewal_loop L T prov clock E c tpm (Suc n) rc =
     io_bind (renewal_tick L T prov clock E c tpm rc) (renewal_loop L T prov clock E c tpm n)"

section \<open>Every step only adds to the history\<close>

definition grows :: "'a cmd \<Rightarrow> bool" where
  "grows m \<longleftrightarrow> (\<forall>w. \<exists>ts. w_snaps (snd (m w)) = w_snaps w @ ts)"

named_theorems grows_rules "rules that compose steps that only add to the history"

lemma growsD: "grows m \<Longrightarrow> m w = (r, w') \<Longrightarrow> \<exists>ts. w_snaps w' = w_snaps w @ ts"
  unfolding grows_def by (metis snd_conv)

lemma grows_ret [grows_rules]: "grows (io_ret x)" by (simp add: grows_def)
lemma grows_err [grows_rules]: "grows (io_err e)" by (simp add: grows_def)
lemma grows_lift [grows_rules]: "grows (io_lift r)" by (simp add: grows_def)
lemma grows_ctx [grows_rules]: "grows m \<Longrightarrow> grows (io_ctx c m)" by (simp add: grows_def)
lemma grows_ignore [grows_rules]: "grows m \<Longrightarrow> grows (io_ignore m)" by (simp add: grows_def)
lemma grows_attempt [grows_rules]: "grows m \<Longrightarrow> grows (io_attempt m)" by (simp add: grows_def io_attempt_run)

lemma grows_bind [grows_rules]: "grows m \<Longrightarrow> (\<And>x. grows (f x)) \<Longrightarrow> grows (io_bind m f)"
  unfolding grows_def io_bind_def
  by (auto split: prod.splits sum.splits) (metis append.assoc snd_conv)+

lemma grows_then [grows_rules]: "grows m \<Longrightarrow> grows n \<Longrightarrow> grows (io_then m n)"
  by (simp add: io_then_def grows_bind)

lemma grows_if [grows_rules]: "(b \<Longrightarrow> grows m) \<Longrightarrow> (\<not> b \<Longrightarrow> grows n) \<Longrightarrow> grows (if b then m else n)"
  by simp

lemma grows_option [grows_rules]:
  "grows m \<Longrightarrow> (\<And>x. grows (f x)) \<Longrightarrow> grows (case o' of None \<Rightarrow> m | Some x \<Rightarrow> f x)"
  by (cases o') simp_all

lemma grows_sum [grows_rules]:
  "(\<And>x. grows (f x)) \<Longrightarrow> (\<And>y. grows (g y)) \<Longrightarrow> grows (case r of Inl x \<Rightarrow> f x | Inr y \<Rightarrow> g y)"
  by (cases r) simp_all

lemma grows_pair [grows_rules]: "(\<And>a b. grows (f a b)) \<Longrightarrow> grows (case x of (a, b) \<Rightarrow> f a b)"
  by (cases x) simp

lemma grows_still: "still m \<Longrightarrow> grows m"
  by (auto simp: still_def grows_def still_run_def)

lemma grows_prim [grows_rules]: "grows (prim E o' f)"
  by (auto simp: grows_def prim_def split: option.split sum.split)

lemma grows_write_all [grows_rules]: "grows (write_all E i d)"
  by (auto simp: grows_def write_all_def split: option.split)

lemma grows_sleep [grows_rules]: "grows (sleep E ms)"
  by (simp add: grows_def sleep_def)

lemma grows_write_atomic [grows_rules]: "grows (write_atomic E p d b)"
  unfolding write_atomic_def Let_def prim_op_defs by (intro grows_rules)

lemma grows_reenroll [grows_rules]: "grows (reenroll L E c tpm)"
  unfolding reenroll_def write_cert_only_def write_identity_def
  by (intro grows_rules; (intro grows_still still_rules still_est)?)

lemma grows_check [grows_rules]: "grows (cert_needs_renewal L clock E p)"
proof -
  have "grows (\<lambda>w. case clock (w_trace w) of None \<Rightarrow> (Inl e, w) | Some now \<Rightarrow> (Inr (f now), w))" for e and f :: "nat \<Rightarrow> bool"
    by (auto simp: grows_def split: option.split)
  then show ?thesis
    unfolding cert_needs_renewal_def read_file_def by (intro grows_rules)
qed

section \<open>What is served\<close>

text \<open>The identity \<open>ck\<close> is what the files of state \<open>t\<close> hold, with the token's key where that is the source.\<close>

definition on_disk :: "est_lib \<Rightarrow> tls_lib \<Rightarrow> path \<Rightarrow> key_source \<Rightarrow> fsys \<Rightarrow> certified_key \<Rightarrow> bool" where
  "on_disk L T cert_path src t ck \<longleftrightarrow>
     (\<exists>pem. content t cert_path = Some pem \<and> el_pem_chain L pem = Inr (ck_certs ck)) \<and>
     (case src of
        KeyTpm k \<Rightarrow> ck_key ck = k
      | KeyFile p \<Rightarrow> \<exists>pem der. content t p = Some pem \<and> tl_private_key T pem = Inr (Some der) \<and>
          tl_load_key T der = Inr (ck_key ck))"

lemma read_file_Inr:
  "read_file E p w = (Inr d, w') \<Longrightarrow> content (w_fs w) p = Some d \<and> w_fs w' = w_fs w \<and> w_snaps w' = w_snaps w @ [w_fs w]"
  by (auto simp: read_file_def prim_Inr fs_read_def content_def split: entry.splits)

lemma load_signing_key_still: "still (load_signing_key T prov E src)"
  unfolding load_signing_key_def load_key_def
  by (cases src) (auto intro!: still_rules split: option.split)

lemma load_signing_key_Inr:
  assumes "load_signing_key T prov E src w = (Inr k, w')"
  shows "case src of
      KeyTpm k' \<Rightarrow> k = k'
    | KeyFile p \<Rightarrow> \<exists>pem der. content (w_fs w) p = Some pem \<and> tl_private_key T pem = Inr (Some der) \<and>
        tl_load_key T der = Inr k"
  using assms unfolding load_signing_key_def load_key_def
  by (cases src) (auto elim!: io_bind_InrE split: if_splits option.splits dest!: read_file_Inr)

lemma build_certified_key_Inr:
  assumes "build_certified_key L T prov E p src w = (Inr ck, w')"
  shows "on_disk L T p src (w_fs w) ck \<and> w_fs w \<in> set (passed w w')"
proof -
  from assms obtain certs w1 sk where c: "load_certs L E p w = (Inr certs, w1)"
    and k: "load_signing_key T prov E src w1 = (Inr sk, w')" and ck: "ck = \<lparr>ck_certs = certs, ck_key = sk\<rparr>"
    unfolding build_certified_key_def by (auto elim!: io_bind_InrE)
  from c obtain pem where pem: "content (w_fs w) p = Some pem" "el_pem_chain L pem = Inr certs"
    and w1: "w_fs w1 = w_fs w" "w_snaps w1 = w_snaps w @ [w_fs w]"
    unfolding load_certs_def by (auto elim!: io_bind_InrE dest!: read_file_Inr)
  have "on_disk L T p src (w_fs w) ck"
    using load_signing_key_Inr [OF k] pem w1(1) by (simp add: on_disk_def ck split: key_source.splits)
  moreover obtain ts where "w_snaps w' = w_snaps w1 @ ts"
    using growsD [OF grows_still [OF load_signing_key_still] k] by blast
  ultimately show ?thesis using w1(2) by (simp add: passed_def)
qed

lemma grows_build [grows_rules]: "grows (build_certified_key L T prov E p src)"
  unfolding build_certified_key_def load_certs_def read_file_def
  by (intro grows_rules grows_still [OF load_signing_key_still])

text \<open>
  The abstract view of the resolver: the identity it serves. \<open>reload\<close> replaces it by what is on
  disk or leaves it as it is, and says which.
\<close>

lemma reload_spec:
  assumes "reload L T prov E rc w = (r, w')"
  shows "\<exists>res rc'. r = Inr (res, rc') \<and> rc_cert_path rc' = rc_cert_path rc \<and>
    rc_key_source rc' = rc_key_source rc \<and> rc_poisoned rc' = rc_poisoned rc \<and>
    (case res of
       Inl _ \<Rightarrow> rc' = rc
     | Inr _ \<Rightarrow> on_disk L T (rc_cert_path rc) (rc_key_source rc) (w_fs w) (rc_current rc') \<and>
         w_fs w \<in> set (passed w w'))"
proof -
  obtain q w1 where q: "build_certified_key L T prov E (rc_cert_path rc) (rc_key_source rc) w = (q, w1)"
    by (cases "build_certified_key L T prov E (rc_cert_path rc) (rc_key_source rc) w")
  show ?thesis
  proof (cases q)
    case (Inl e)
    with assms q have "r = Inr (Inl e, rc)" by (simp add: reload_def io_defs)
    then show ?thesis by simp
  next
    case (Inr ck)
    show ?thesis
    proof (cases "rc_poisoned rc")
      case True
      with assms q Inr have "r = Inr (Inl (Msg ''reloadable certificate lock poisoned''), rc)"
        by (simp add: reload_def io_defs)
      then show ?thesis by simp
    next
      case False
      with assms q Inr have "r = Inr (Inr (), rc\<lparr>rc_current := ck\<rparr>)" "w' = w1"
        by (simp_all add: reload_def io_defs)
      with build_certified_key_Inr q Inr show ?thesis by auto
    qed
  qed
qed

text \<open>
  \<open>swapped\<close>: over a stretch of history the resolver kept its path, its key source and its lock, and
  what it serves is what it served before or what was on disk in one state of the stretch.
\<close>

definition swapped :: "est_lib \<Rightarrow> tls_lib \<Rightarrow> world \<Rightarrow> world \<Rightarrow> reloadable_cert \<Rightarrow> reloadable_cert \<Rightarrow> bool" where
  "swapped L T w w' rc rc' \<longleftrightarrow>
     rc_cert_path rc' = rc_cert_path rc \<and> rc_key_source rc' = rc_key_source rc \<and>
     rc_poisoned rc' = rc_poisoned rc \<and> (\<exists>ts. w_snaps w' = w_snaps w @ ts) \<and>
     (rc_current rc' = rc_current rc \<or>
      (\<exists>t \<in> set (passed w w'). on_disk L T (rc_cert_path rc) (rc_key_source rc) t (rc_current rc')))"

lemma swapped_keep: "w_snaps w' = w_snaps w @ ts \<Longrightarrow> swapped L T w w' rc rc"
  by (simp add: swapped_def)

lemma swapped_trans:
  assumes "swapped L T w w1 rc rc1" and "swapped L T w1 w2 rc1 rc2"
  shows "swapped L T w w2 rc rc2"
proof -
  obtain ts us where h: "w_snaps w1 = w_snaps w @ ts" "w_snaps w2 = w_snaps w1 @ us"
    using assms by (auto simp: swapped_def)
  have "passed w w2 = passed w w1 @ passed w1 w2" by (rule passed_trans [OF h])
  with assms h show ?thesis by (auto simp: swapped_def)
qed

lemma renewal_tick_swapped:
  assumes "renewal_tick L T prov clock E c tpm rc w = (r, w')"
  shows "\<exists>rc'. r = Inr rc' \<and> swapped L T w w' rc rc'"
proof -
  let ?check = "io_attempt (cert_needs_renewal L clock E (nc_cert_file c))"
  have g: "grows (io_then (sleep E (renewal_interval c)) ?check)" by (intro grows_rules)
  obtain w1 due w2 where w1: "sleep E (renewal_interval c) w = (Inr (), w1)" and w2: "?check w1 = (Inr due, w2)"
    by (simp add: sleep_def io_attempt_run)
  have st: "io_then (sleep E (renewal_interval c)) n w = n w1" for n :: "'b cmd"
    using w1 by (simp add: io_then_def io_bind_def)
  have bd: "io_bind ?check f w1 = f due w2" for f :: "err + bool \<Rightarrow> 'b cmd"
    using w2 by (simp add: io_bind_def)
  have "io_then (sleep E (renewal_interval c)) ?check w = (Inr due, w2)" by (simp add: st w2)
  from growsD [OF g this] obtain ts where ts: "w_snaps w2 = w_snaps w @ ts" by blast
  have run: "(case due of
        Inr True \<Rightarrow>
          io_bind (io_attempt (reenroll L E c tpm)) (\<lambda>r.
            case r of
              Inl _ \<Rightarrow> io_ret rc
            | Inr _ \<Rightarrow> io_bind (reload L T prov E rc) (\<lambda>(_, rc'). io_ret rc'))
      | Inr False \<Rightarrow> io_ret rc
      | Inl _ \<Rightarrow> io_ret rc) w2 = (r, w')"
    using assms unfolding renewal_tick_def st bd .
  show ?thesis
  proof (cases "due = Inr True")
    case False
    with run have "r = Inr rc" "w' = w2" by (auto split: sum.splits bool.splits)
    with ts show ?thesis by (auto intro: swapped_keep)
  next
    case True
    obtain q w3 where q: "reenroll L E c tpm w2 = (q, w3)" by (cases "reenroll L E c tpm w2")
    obtain us where us: "w_snaps w3 = w_snaps w2 @ us" using growsD [OF grows_reenroll q] by blast
    show ?thesis
    proof (cases q)
      case (Inl e)
      with run True q have "r = Inr rc" "w' = w3" by (simp_all add: io_defs)
      with ts us show ?thesis by (auto intro: swapped_keep)
    next
      case (Inr u)
      obtain p w4 where p: "reload L T prov E rc w3 = (p, w4)" by (cases "reload L T prov E rc w3")
      obtain res rc' where res: "p = Inr (res, rc')" and spec: "rc_cert_path rc' = rc_cert_path rc"
        "rc_key_source rc' = rc_key_source rc" "rc_poisoned rc' = rc_poisoned rc"
        "case res of Inl _ \<Rightarrow> rc' = rc
         | Inr _ \<Rightarrow> on_disk L T (rc_cert_path rc) (rc_key_source rc) (w_fs w3) (rc_current rc') \<and>
             w_fs w3 \<in> set (passed w3 w4)"
        using reload_spec [OF p] by blast
      have "grows (reload L T prov E rc)" unfolding reload_def by (intro grows_rules)
      then obtain vs where vs: "w_snaps w4 = w_snaps w3 @ vs" using growsD p by blast
      have "swapped L T w3 w4 rc rc'" using spec vs by (cases res) (auto simp: swapped_def)
      moreover have "swapped L T w w3 rc rc" using ts us by (auto intro: swapped_keep)
      moreover have "r = Inr rc'" "w' = w4"
        using run True q Inr p res by (simp_all add: io_defs)
      ultimately show ?thesis by (auto intro: swapped_trans)
    qed
  qed
qed

lemma renewal_loop_swapped:
  "renewal_loop L T prov clock E c tpm n rc w = (r, w') \<Longrightarrow> \<exists>rc'. r = Inr rc' \<and> swapped L T w w' rc rc'"
proof (induction n arbitrary: rc w)
  case 0
  then show ?case by (auto intro: swapped_keep [of _ _ "[]"])
next
  case (Suc n)
  obtain q w1 where q: "renewal_tick L T prov clock E c tpm rc w = (q, w1)"
    by (cases "renewal_tick L T prov clock E c tpm rc w")
  obtain rc1 where rc1: "q = Inr rc1" "swapped L T w w1 rc rc1" using renewal_tick_swapped [OF q] by blast
  have "renewal_loop L T prov clock E c tpm n rc1 w1 = (r, w')"
    using Suc.prems q rc1(1) by (simp add: io_bind_def)
  from Suc.IH [OF this] rc1(2) show ?case by (auto intro: swapped_trans)
qed

section \<open>An example\<close>

text \<open>Keys named by their bytes, every CA accepted, and a clock past the certificate's end.\<close>

definition sample_tls :: tls_lib where
  "sample_tls = \<lparr>tl_private_key = (\<lambda>pem. Inr (Some pem)), tl_load_key = (\<lambda>k. Inr (LoadedKey k)),
     tl_add_root = (\<lambda>_ _. Inr ()), tl_verifier = (\<lambda>_. Inr ())\<rparr>"

definition late_clock :: "event list \<Rightarrow> nat option" where
  "late_clock t = Some 1000"

definition sample_resolver :: reloadable_cert where
  "sample_resolver = \<lparr>rc_cert_path = nc_cert_file sample_conf, rc_key_source = KeyFile (nc_key_file sample_conf),
     rc_current = \<lparr>ck_certs = [''leaf''], ck_key = LoadedKey ''key''\<rparr>, rc_poisoned = False\<rparr>"

lemma calm_read:
  "content (w_fs w) p = Some d \<Longrightarrow> read_file calm p w = (Inr d, log (ReadFile p) Done (put_fs (w_fs w) w))"
  by (auto simp: read_file_def prim_def fs_read_def content_def split: entry.splits)

lemma enrolled_est_ca: "content (w_fs enrolled) (path_of ''/e'') = Some ''EST CA''"
proof -
  have t: "is_target (path_of ''/e'')" "path_of ''/e'' \<notin> {nc_cert_file sample_conf, nc_key_file sample_conf, nc_client_ca sample_conf}"
    by code_simp+
  obtain w1 where w1: "w_fs w1 = w_fs sample_disk"
    and run: "bootstrap_enroll sample_lib calm sample_conf None sample_disk =
      put_items (write_atomic calm) (identity_items sample_conf ''leaf'' ''key'' @ [ca_item sample_conf ''ca'']) w1"
    by (rule sample_bootstrap)
  let ?its = "identity_items sample_conf ''leaf'' ''key'' @ [ca_item sample_conf ''ca'']"
  have tgt: "\<forall>it \<in> set ?its. is_target (item_path it)" using sample_items by blast
  have "put_items (write_atomic calm) ?its w1 = (Inr (), enrolled)" using run enrolled_facts(1) by simp
  moreover have "path_of ''/e'' \<notin> item_path ` set ?its" using t(2) by (auto simp: identity_items_def ca_item_def)
  ultimately show ?thesis
    using wa.puts_frame [OF tgt _ t(1), of w1 calm] w1 sample_disk_facts(1,4) by simp
qed

lemma sample_reenroll:
  assumes "w_fs w = w_fs enrolled"
  obtains w' where "reenroll sample_lib calm sample_conf None w = (Inr (), w')"
    and "content (w_fs w') (nc_cert_file sample_conf) = Some ''leaf2''"
    and "content (w_fs w') (nc_key_file sample_conf) = Some ''key''"
proof -
  let ?c = "nc_cert_file sample_conf" and ?k = "nc_key_file sample_conf"
  let ?ids = "identity_items sample_conf ''leaf2'' ''key''"
  have rd: "read_file calm ?c v = (Inr ''leaf'', log (ReadFile ?c) Done (put_fs (w_fs v) v))"
    "read_file calm ?k v = (Inr ''key'', log (ReadFile ?k) Done (put_fs (w_fs v) v))"
    "read_file calm (path_of ''/e'') v = (Inr ''EST CA'', log (ReadFile (path_of ''/e'')) Done (put_fs (w_fs v) v))"
    if "w_fs v = w_fs enrolled" for v
    using that enrolled_facts(4,5) enrolled_est_ca by (simp_all add: calm_read)
  have ids: "write_identity sample_lib calm sample_conf ''leaf2'' ''key'' = put_items (write_atomic calm) ?ids"
    by (rule ext) (simp add: write_identity_items sample_lib_sel)
  define w1 where "w1 = snd (io_bind (read_file calm ?c) (\<lambda>c. io_bind (read_file calm ?k) (\<lambda>k.
      io_bind (build_est_config sample_lib calm sample_conf (ClientCert c k)) (\<lambda>cfg.
      io_then (est_client_new sample_lib cfg) (io_then (generate_node_csr sample_lib ''n1'')
        (lib_call ''simple_reenroll'' [''csr''] (\<lambda>t. Inr ())))))) w)"
  have run: "reenroll sample_lib calm sample_conf None w = put_items (write_atomic calm) ?ids w1"
    and fs: "w_fs w1 = w_fs enrolled"
    using assms unfolding w1_def
    by (simp_all add: reenroll_def build_est_config_def est_client_new_def generate_node_csr_def lib_call_def io_defs ids
        sample_lib_sel sample_est rd Let_def)
  have tgt: "\<forall>it \<in> set ?ids. is_target (item_path it) \<and> path_parent (item_path it) = Some pki_dir"
    using sample_paths by (auto simp: identity_items_def pki_paths_ok_def)
  have ok: "wf_fs (w_fs w1)" "flat pki_dir (w_fs w1)" using fs enrolled_facts(2,3) by simp_all
  obtain w' where w': "put_items (write_atomic calm) ?ids w1 = (Inr (), w')"
    using puts_succeed [OF tgt _ ok(2), of calm] by (cases "put_items (write_atomic calm) ?ids w1") simp
  have new: "content (w_fs w') (item_path it) = Some (item_data it)" if "it \<in> set ?ids" for it
    by (rule wa.puts_done [OF _ _ ok(1) w' that]) (use tgt sample_paths(1) in \<open>auto simp: identity_items_def pki_paths_ok_def\<close>)
  show thesis
    by (rule that [of w']) (use run w' new [of "?ids ! 0"] new [of "?ids ! 1"] in \<open>simp_all add: identity_items_def\<close>)
qed

section \<open>Properties\<close>

text \<open>
  Renewal never takes the server down: through any number of turns of the renewal loop,
  whatever the EST server, the disk and the clock do, the loop goes on and the resolver has an
  identity to serve. It is the one served before, or a chain and a key that were together on
  disk in one state in between (with a TPM, the token's key and a chain from disk).
\<close>

lemma renewal_keeps_serving:
  assumes "\<not> rc_poisoned rc" and "renewal_loop L T prov clock E c tpm n rc w = (r, w')"
  shows "\<exists>rc' ck. r = Inr rc' \<and> resolve rc' = Some ck \<and>
    (ck = rc_current rc \<or> (\<exists>t \<in> set (passed w w'). on_disk L T (rc_cert_path rc) (rc_key_source rc) t ck))"
  using renewal_loop_swapped [OF assms(2)] assms(1) by (auto simp: swapped_def resolve_def)

lemma renewal_keeps_serving_example:
  "\<exists>rc' ck. fst (renewal_loop sample_lib sample_tls True late_clock calm sample_conf None 2 sample_resolver enrolled) = Inr rc' \<and>
     resolve rc' = Some ck"
proof -
  let ?r = "renewal_loop sample_lib sample_tls True late_clock calm sample_conf None 2 sample_resolver enrolled"
  have "\<not> rc_poisoned sample_resolver" by (simp add: sample_resolver_def)
  from renewal_keeps_serving [OF this prod.collapse [of ?r, symmetric]] show ?thesis by blast
qed

text \<open>
  C26. A renewed certificate is served without a restart: in a turn in which the check finds the
  certificate due, the re-enrollment succeeds and the new files load, the resolver afterwards
  serves exactly what was loaded from the new files.
\<close>

theorem renewed_cert_served:
  assumes "\<not> rc_poisoned rc"
    and "sleep E (renewal_interval c) w = (Inr (), w1)"
    and "cert_needs_renewal L clock E (nc_cert_file c) w1 = (Inr True, w2)"
    and "reenroll L E c tpm w2 = (Inr (), w3)"
    and "build_certified_key L T prov E (rc_cert_path rc) (rc_key_source rc) w3 = (Inr ck, w4)"
  shows "renewal_tick L T prov clock E c tpm rc w = (Inr (rc\<lparr>rc_current := ck\<rparr>), w4) \<and>
    resolve (rc\<lparr>rc_current := ck\<rparr>) = Some ck \<and> on_disk L T (rc_cert_path rc) (rc_key_source rc) (w_fs w3) ck"
  using assms build_certified_key_Inr [OF assms(5)]
  by (simp add: renewal_tick_def reload_def resolve_def io_defs)

theorem renewed_cert_served_witness:
  "\<exists>rc'. fst (renewal_tick sample_lib sample_tls True late_clock calm sample_conf None sample_resolver enrolled) = Inr rc' \<and>
     resolve rc' = Some \<lparr>ck_certs = [''leaf2''], ck_key = LoadedKey ''key''\<rparr>"
proof -
  let ?c = "nc_cert_file sample_conf" and ?k = "nc_key_file sample_conf"
  obtain w1 where w1: "sleep calm (renewal_interval sample_conf) enrolled = (Inr (), w1)" "w_fs w1 = w_fs enrolled"
    by (simp add: sleep_def calm_def)
  obtain w2 where w2: "cert_needs_renewal sample_lib late_clock calm ?c w1 = (Inr True, w2)" "w_fs w2 = w_fs enrolled"
    using w1(2) enrolled_facts(4)
    by (simp add: cert_needs_renewal_def calm_read sample_lib_sel late_clock_def needs_renewal_def io_defs)
  obtain w3 where w3: "reenroll sample_lib calm sample_conf None w2 = (Inr (), w3)"
    "content (w_fs w3) ?c = Some ''leaf2''" "content (w_fs w3) ?k = Some ''key''"
    by (rule sample_reenroll [OF w2(2)])
  obtain w4 where w4: "build_certified_key sample_lib sample_tls True calm (rc_cert_path sample_resolver)
      (rc_key_source sample_resolver) w3 = (Inr \<lparr>ck_certs = [''leaf2''], ck_key = LoadedKey ''key''\<rparr>, w4)"
    using w3(2,3)
    by (simp add: build_certified_key_def load_signing_key_def load_certs_def load_key_def sample_resolver_def
        calm_read sample_lib_sel sample_tls_def io_defs)
  have "\<not> rc_poisoned sample_resolver" by (simp add: sample_resolver_def)
  from renewed_cert_served [OF this w1(1) w2(1) w3(1) w4] show ?thesis by auto
qed

end
