(* ===== verification/Workload_Safety.thy ===== *)
theory Workload_Safety
  imports Workload Put_Success
begin

text \<open>
  What the Kubernetes profile guarantees: the order in which its files appear, idempotence,
  and what an accepted intent can put into the rendered files.
\<close>

section \<open>Lines of the rendered files\<close>

lemma addr_char_plain: "list_all addr_char s \<Longrightarrow> plain_line s"
  by (auto simp: plain_line_def list_all_iff addr_char_def char_class_defs newline_def)

lemma domain_char_plain: "\<forall>c \<in> set s. domain_char c \<Longrightarrow> plain_line s"
  by (auto simp: plain_line_def domain_char_def char_class_defs newline_def)

lemma parse_ip_plain: "parse_ip a \<noteq> None \<Longrightarrow> plain_line a"
  using parse_ip_chars [of a] addr_char_plain [of a] by (auto simp: list_all_iff)

lemma token_char_plain: "list_all (\<lambda>c. is_lower c \<or> is_digit c) s \<Longrightarrow> plain_line s"
  by (auto simp: plain_line_def list_all_iff char_class_defs newline_def)

lemma token_plain: "valid_bootstrap_token t \<Longrightarrow> plain_line t"
  using token_char_plain by (auto simp: valid_bootstrap_token_iff plain_line_append)
    (simp add: plain_line_def newline_def)

lemma ca_path_plain: "plain_line CLUSTER_CA_PATH"
  by code_simp

definition kubelet_config_lines :: "node_intent \<Rightarrow> string list" where
  "kubelet_config_lines i =
     [''apiVersion: kubelet.config.k8s.io/v1beta1'', ''kind: KubeletConfiguration'', ''cgroupDriver: cgroupfs'',
      ''containerRuntimeEndpoint: unix:///run/containerd/containerd.sock'',
      ''clusterDomain: '' @ ni_cluster_domain i, ''clusterDNS:''] @
     map (\<lambda>a. ''  - '' @ a) (ni_cluster_dns i) @
     [''rotateCertificates: true'', ''authentication:'', ''  anonymous:'', ''    enabled: false'', ''  webhook:'',
      ''    enabled: true'', ''  x509:'', ''    clientCAFile: '' @ CLUSTER_CA_PATH, ''authorization:'', ''  mode: Webhook'']"

definition kubeconfig_head :: "string list" where
  "kubeconfig_head =
     [''apiVersion: v1'', ''kind: Config'', ''clusters:'', ''- name: default'', ''  cluster:'',
      ''    certificate-authority: '' @ CLUSTER_CA_PATH]"

definition kubeconfig_rest :: "node_intent \<Rightarrow> string list" where
  "kubeconfig_rest i =
     [''contexts:'', ''- name: default'', ''  context:'', ''    cluster: default'', ''    user: kubelet-bootstrap'',
      ''current-context: default'', ''users:'', ''- name: kubelet-bootstrap'', ''  user:'',
      ''    token: '' @ ni_bootstrap_token i]"

lemma plain_consts:
  "list_all plain_line kubeconfig_head"
  "list_all plain_line (butlast (kubeconfig_rest i))" "plain_line ''    token: ''" "plain_line ''    server: ''"
  "plain_line ''clusterDomain: ''" "plain_line ''  - ''"
  by (code_simp, simp add: kubeconfig_rest_def, code_simp+)

lemma kubeconfig_rest_plain: "valid_bootstrap_token (ni_bootstrap_token i) \<Longrightarrow> list_all plain_line (kubeconfig_rest i)"
proof -
  assume "valid_bootstrap_token (ni_bootstrap_token i)"
  then have "plain_line (''    token: '' @ ni_bootstrap_token i)"
    unfolding plain_line_append using token_plain plain_consts(3) by blast
  moreover have "kubeconfig_rest i = butlast (kubeconfig_rest i) @ [''    token: '' @ ni_bootstrap_token i]"
    by (simp add: kubeconfig_rest_def)
  ultimately show ?thesis using plain_consts(2) [of i] by (metis list_all_append list.pred_inject(1,2))
qed

lemma render_kubelet_config_unlines: "render_kubelet_config i = unlines (kubelet_config_lines i)"
  by (simp add: render_kubelet_config_def kubelet_config_lines_def unlines_def comp_def)

lemma render_kubeconfig_unlines:
  "render_bootstrap_kubeconfig i =
     unlines (kubeconfig_head @ (''    server: '' @ ni_api_server i) # kubeconfig_rest i)"
  by (simp add: render_bootstrap_kubeconfig_def kubeconfig_head_def kubeconfig_rest_def)

lemma kubelet_config_lines_plain:
  assumes "validate from_pem i = Inr ()"
  shows "list_all plain_line (kubelet_config_lines i)"
proof -
  have d: "plain_line (''clusterDomain: '' @ ni_cluster_domain i)"
    unfolding plain_line_append using assms plain_consts(5) domain_char_plain by (simp add: validate_iff)
  have a: "list_all plain_line (map (\<lambda>a. ''  - '' @ a) (ni_cluster_dns i))"
    unfolding list_all_iff set_map
  proof safe
    fix x
    assume "x \<in> set (ni_cluster_dns i)"
    with assms have "parse_ip x \<noteq> None" by (simp add: validate_iff)
    then show "plain_line (''  - '' @ x)" unfolding plain_line_append using plain_consts(6) parse_ip_plain by blast
  qed
  have c: "list_all plain_line [''apiVersion: kubelet.config.k8s.io/v1beta1'', ''kind: KubeletConfiguration'',
      ''cgroupDriver: cgroupfs'', ''containerRuntimeEndpoint: unix:///run/containerd/containerd.sock'']"
    "plain_line ''clusterDNS:''"
    "list_all plain_line [''rotateCertificates: true'', ''authentication:'', ''  anonymous:'', ''    enabled: false'',
      ''  webhook:'', ''    enabled: true'', ''  x509:'', ''    clientCAFile: '' @ CLUSTER_CA_PATH,
      ''authorization:'', ''  mode: Webhook'']"
    by code_simp+
  show ?thesis
    using a c d unfolding kubelet_config_lines_def list_all_append list.pred_inject by blast
qed

section \<open>An example\<close>

definition kubelet_dir :: path where
  "kubelet_dir = path_of ''/var/lib/nodeos/k8s/kubelet''"

lemma k8s_parents: "\<forall>it \<in> set (k8s_items i). is_target (item_path it) \<and> path_parent (item_path it) = Some kubelet_dir"
proof -
  have "path_parent (path_of CLUSTER_CA_PATH) = Some kubelet_dir" "path_parent (path_of KUBELET_CONFIG_PATH) = Some kubelet_dir"
    "path_parent (path_of BOOTSTRAP_KUBECONFIG_PATH) = Some kubelet_dir"
    by code_simp+
  then show ?thesis using k8s_items_facts(1) [of i] by (auto simp: k8s_items_def)
qed

lemma k8s_reconcile_succeeds:
  assumes "validate from_pem i = Inr ()" and "flat kubelet_dir (w_fs w)"
    and "\<And>t it o'. it \<in> set (k8s_items i) \<Longrightarrow> write_op (item_path it) o' \<Longrightarrow> env_fault E t o' = None"
  shows "fst (k8s_reconcile from_pem E (Some i) w) = Inr () \<and>
         flat kubelet_dir (w_fs (snd (k8s_reconcile from_pem E (Some i) w)))"
  using puts_succeed [OF k8s_parents assms(3,2)] assms(1) by (simp add: k8s_reconcile_puts)

definition sample_intent :: node_intent where
  "sample_intent =
     \<lparr>ni_api_server = ''https://[2001:db8::1]:6443'', ni_cluster_ca = ''CA'',
      ni_bootstrap_token = ''abcdef.0123456789abcdef'', ni_cluster_dns = [''fd00::a''],
      ni_cluster_domain = ''cluster.local'', ni_node_labels = [], ni_node_taints = []\<rparr>"

text \<open>A certificate parser that accepts two texts.\<close>

definition sample_pem :: "string \<Rightarrow> err + unit" where
  "sample_pem s = (if s = ''CA'' \<or> s = ''CA2'' then Inr () else Inl (Lib ''pem''))"

lemma sample_intent_valid: "validate sample_pem sample_intent = Inr ()"
  by code_simp

lemma empty_world: "wf_fs (w_fs (world_of empty_fs))" "flat d (w_fs (world_of empty_fs))"
  by (simp_all add: world_of_def wf_samples flat_empty)

lemma sample_reconcile:
  "k8s_reconcile sample_pem calm (Some sample_intent) (world_of empty_fs) =
     (Inr (), snd (k8s_reconcile sample_pem calm (Some sample_intent) (world_of empty_fs)))"
  using k8s_reconcile_succeeds [OF sample_intent_valid empty_world(2), of calm]
  by (simp add: prod_eq_iff calm_def)

section \<open>Properties\<close>

text \<open>
  C21. The check of an intent is equivalent to a grammar, with one gap. \<open>validate\<close> accepts an intent
  exactly if the API server is \<open>https://\<close>, a bracketed text that parses as an IPv6 address, and then
  either nothing or a colon and any text whatever, where the comment in the code allows only a port; the
  token is six and sixteen lower-case letters or digits around a dot, the CA parses, there is at least
  one DNS entry and each is an IP address, and the domain is non-empty and made of letters, digits,
  dots and hyphens.
\<close>

theorem validate_exact:
  "validate from_pem i = Inr () \<longleftrightarrow>
     (\<exists>host. parse_ipv6 host \<noteq> None \<and>
        (ni_api_server i = ''https://['' @ host @ '']'' \<or> (\<exists>unchecked. ni_api_server i = ''https://['' @ host @ '']:'' @ unchecked))) \<and>
     (\<exists>a s. ni_bootstrap_token i = a @ ''.'' @ s \<and> length a = 6 \<and> length s = 16 \<and>
        list_all (\<lambda>c. is_lower c \<or> is_digit c) (a @ s)) \<and>
     \<not> isl (from_pem (ni_cluster_ca i)) \<and> ni_cluster_dns i \<noteq> [] \<and>
     list_all (\<lambda>a. parse_ip a \<noteq> None) (ni_cluster_dns i) \<and>
     ni_cluster_domain i \<noteq> [] \<and> list_all domain_char (ni_cluster_domain i)"
proof -
  have "(\<exists>host tail. u = ''https://['' @ host @ '']'' @ tail \<and> parse_ipv6 host \<noteq> None \<and> (tail = [] \<or> hd tail = CHR '':'')) \<longleftrightarrow>
      (\<exists>host. parse_ipv6 host \<noteq> None \<and>
        (u = ''https://['' @ host @ '']'' \<or> (\<exists>unchecked. u = ''https://['' @ host @ '']:'' @ unchecked)))"
    (is "?L \<longleftrightarrow> ?R") for u
  proof
    assume ?L
    then obtain host tail where "u = ''https://['' @ host @ '']'' @ tail" "parse_ipv6 host \<noteq> None"
      "tail = [] \<or> hd tail = CHR '':''" by blast
    then show ?R by (cases tail) auto
  qed fastforce
  then show ?thesis
    unfolding validate_iff validate_api_server_iff valid_bootstrap_token_iff list_all_iff by blast
qed

text \<open>
  C30. An accepted intent cannot change the structure of the kubelet configuration: whatever its
  contents, the rendered \<open>config.yaml\<close> has exactly the intended lines, with the domain and the DNS
  addresses each on their own line.
\<close>

theorem kubelet_config_injection_free:
  assumes "validate from_pem i = Inr ()"
  shows "str_lines (render_kubelet_config i) = kubelet_config_lines i"
  unfolding render_kubelet_config_unlines
  by (rule str_lines_unlines [OF kubelet_config_lines_plain [OF assms]])

theorem kubelet_config_injection_free_witness:
  "length (str_lines (render_kubelet_config sample_intent)) = 17"
  using kubelet_config_injection_free [OF sample_intent_valid]
  by (simp add: kubelet_config_lines_def sample_intent_def)

text \<open>
  C36. The bootstrap kubeconfig is not protected in the same way: \<open>validate_api_server\<close> accepts
  anything after the colon, so an accepted intent can carry a line break there, and the text
  behind it becomes a line of its own in the rendered kubeconfig, for instance one that turns off
  TLS verification.
\<close>

theorem kubeconfig_injection:
  assumes "validate from_pem i = Inr ()" and "plain_line l"
  shows "validate from_pem (i\<lparr>ni_api_server := ''https://[::1]:'' @ [newline] @ l\<rparr>) = Inr () \<and>
    str_lines (render_bootstrap_kubeconfig (i\<lparr>ni_api_server := ''https://[::1]:'' @ [newline] @ l\<rparr>)) =
      kubeconfig_head @ [''    server: https://[::1]:'', l] @ kubeconfig_rest i"
proof
  let ?i = "i\<lparr>ni_api_server := ''https://[::1]:'' @ [newline] @ l\<rparr>"
  have "parse_ipv6 ''::1'' \<noteq> None" by code_simp
  then have "validate_api_server (''https://['' @ ''::1'' @ '']'' @ '':'' @ [newline] @ l) = Inr ()"
    unfolding validate_api_server_iff by (intro exI conjI) auto
  then have "validate_api_server (''https://[::1]:'' @ [newline] @ l) = Inr ()" by simp
  with assms(1) show "validate from_pem ?i = Inr ()" by (simp add: validate_iff)
  have "render_bootstrap_kubeconfig ?i = unlines (kubeconfig_head @ [''    server: https://[::1]:'', l] @ kubeconfig_rest i)"
    unfolding render_kubeconfig_unlines by (simp add: unlines_def kubeconfig_rest_def)
  moreover have "plain_line ''    server: https://[::1]:''" by code_simp
  then have "list_all plain_line (kubeconfig_head @ [''    server: https://[::1]:'', l] @ kubeconfig_rest i)"
    using plain_consts(1) kubeconfig_rest_plain [of i] assms
    unfolding list_all_append list.pred_inject by (simp add: validate_iff)
  ultimately show "str_lines (render_bootstrap_kubeconfig ?i) =
      kubeconfig_head @ [''    server: https://[::1]:'', l] @ kubeconfig_rest i"
    by (simp add: str_lines_unlines)
qed

theorem kubeconfig_injection_witness:
  "''    insecure-skip-tls-verify: true'' \<in> set (str_lines (render_bootstrap_kubeconfig
     (sample_intent\<lparr>ni_api_server := ''https://[::1]:'' @ [newline] @ ''    insecure-skip-tls-verify: true''\<rparr>)))"
proof -
  have "plain_line ''    insecure-skip-tls-verify: true''" by code_simp
  from kubeconfig_injection [OF sample_intent_valid this] show ?thesis by auto
qed

text \<open>
  The start marker comes last: in every state that \<open>reconcile\<close> passes through, whatever fails, a
  bootstrap kubeconfig that differs from the one before is the new one, and then the cluster CA
  and the kubelet configuration beside it are the new ones too. On a node that had none, the
  marker therefore never exists beside an incomplete set.
\<close>

lemma marker_written_last:
  assumes "wf_fs (w_fs w)" and "k8s_reconcile from_pem E (Some i) w = (r, w')" and "t \<in> set (passed w w')"
    and "content t (path_of BOOTSTRAP_KUBECONFIG_PATH) \<noteq> content (w_fs w) (path_of BOOTSTRAP_KUBECONFIG_PATH)"
  shows "content t (path_of CLUSTER_CA_PATH) = Some (ni_cluster_ca i) \<and>
    content t (path_of KUBELET_CONFIG_PATH) = Some (render_kubelet_config i) \<and>
    content t (path_of BOOTSTRAP_KUBECONFIG_PATH) = Some (render_bootstrap_kubeconfig i)"
proof (cases "validate from_pem i")
  case (Inl e)
  with assms(2) have "w' = w" by (simp add: k8s_reconcile_puts)
  with assms(3) show ?thesis by (simp add: passed_def)
next
  case (Inr u)
  then have run: "put_items (write_atomic E) (k8s_items i) w = (r, w')"
    using assms(2) by (simp add: k8s_reconcile_puts)
  obtain ts where "w_snaps w' = w_snaps w @ ts" "\<forall>t \<in> set ts. commit_prefix (w_fs w) (k8s_items i) t"
    using wa.puts_hist [OF k8s_items_facts(1,2) assms(1), of E i] run by auto
  with assms(3) have cp: "commit_prefix (w_fs w) (butlast (k8s_items i) @ [last (k8s_items i)]) t"
    by (auto simp: passed_append k8s_items_def)
  have "content t (item_path it) = Some (item_data it)" if "it \<in> set (k8s_items i)" for it
    by (rule commit_prefix_last [OF cp]) (use assms(4) that in \<open>auto simp: k8s_items_def\<close>)
  from this [of "k8s_items i ! 0"] this [of "k8s_items i ! 1"] this [of "k8s_items i ! 2"] show ?thesis
    by (simp add: k8s_items_def)
qed

text \<open>The state after reconciling on an empty node.\<close>

definition sample_node :: world where
  "sample_node = snd (k8s_reconcile sample_pem calm (Some sample_intent) (world_of empty_fs))"

lemma sample_node_facts:
  "k8s_reconcile sample_pem calm (Some sample_intent) (world_of empty_fs) = (Inr (), sample_node)"
  "it \<in> set (k8s_items sample_intent) \<Longrightarrow> content (w_fs sample_node) (item_path it) = Some (item_data it)"
  "wf_fs (w_fs sample_node)" "flat kubelet_dir (w_fs sample_node)"
  "w_fs sample_node \<in> set (passed (world_of empty_fs) sample_node)"
proof -
  show run: "k8s_reconcile sample_pem calm (Some sample_intent) (world_of empty_fs) = (Inr (), sample_node)"
    using sample_reconcile by (simp add: sample_node_def)
  show new: "it \<in> set (k8s_items sample_intent) \<Longrightarrow> content (w_fs sample_node) (item_path it) = Some (item_data it)" for it
    by (rule k8s_done [OF empty_world(1) run])
  show "wf_fs (w_fs sample_node)"
    using k8s.keeps_wf [OF empty_world(1), of sample_pem calm "Some sample_intent"] run by simp
  show "flat kubelet_dir (w_fs sample_node)"
    using k8s_reconcile_succeeds [OF sample_intent_valid empty_world(2), of calm] run by (simp add: calm_def)
  have "put_items (write_atomic calm) (k8s_items sample_intent) (world_of empty_fs) = (Inr (), sample_node)"
    using run by (simp add: k8s_reconcile_puts sample_intent_valid)
  from keepsD [OF tracked_puts _ this] have "tracked empty_fs sample_node"
    by (simp add: tracked_def world_of_def)
  moreover have "w_fs sample_node \<noteq> empty_fs"
  proof
    assume "w_fs sample_node = empty_fs"
    with new [of "k8s_items sample_intent ! 0"] show False
      by (simp add: k8s_items_def content_def cur_def vers_def empty_fs_def)
  qed
  ultimately show "w_fs sample_node \<in> set (passed (world_of empty_fs) sample_node)"
    by (rule tracked_last) (simp add: world_of_def)
qed

lemma empty_content: "content (w_fs (world_of empty_fs)) p = None"
  by (simp add: world_of_def content_def cur_def vers_def empty_fs_def)

lemma marker_written_last_example:
  "content (w_fs sample_node) (path_of CLUSTER_CA_PATH) = Some ''CA''"
proof -
  have "content (w_fs sample_node) (path_of BOOTSTRAP_KUBECONFIG_PATH) \<noteq>
      content (w_fs (world_of empty_fs)) (path_of BOOTSTRAP_KUBECONFIG_PATH)"
    using sample_node_facts(2) [of "k8s_items sample_intent ! 2"] by (simp add: k8s_items_def empty_content)
  from marker_written_last [OF empty_world(1) sample_node_facts(1,5) this] show ?thesis
    by (simp add: sample_intent_def)
qed

text \<open>
  C37. Replacing an existing configuration has no such guarantee: where the kubelet configuration
  cannot be written, \<open>reconcile\<close> fails with the new cluster CA beside the old configuration and the
  old marker, so a kubelet gated on the marker starts against a mixed set.
\<close>

theorem reconcile_mixed:
  assumes "wf_fs (w_fs w)" and "validate from_pem i = Inr ()"
    and "k8s_reconcile from_pem E (Some i) w = (Inl (Ctx ''write kubelet config.yaml'' e), w')"
  shows "content (w_fs w') (path_of CLUSTER_CA_PATH) = Some (ni_cluster_ca i) \<and>
    content (w_fs w') (path_of KUBELET_CONFIG_PATH) = content (w_fs w) (path_of KUBELET_CONFIG_PATH) \<and>
    content (w_fs w') (path_of BOOTSTRAP_KUBECONFIG_PATH) = content (w_fs w) (path_of BOOTSTRAP_KUBECONFIG_PATH)"
proof -
  let ?ca = "path_of CLUSTER_CA_PATH" and ?cfg = "path_of KUBELET_CONFIG_PATH"
    and ?boot = "path_of BOOTSTRAP_KUBECONFIG_PATH"
  note t = k8s_paths_target and d = k8s_paths_distinct
  have run: "put_items (write_atomic E) (k8s_items i) w = (Inl (Ctx ''write kubelet config.yaml'' e), w')"
    using assms(2,3) by (simp add: k8s_reconcile_puts)
  obtain r1 w1 where r1: "write_atomic E ?ca (ni_cluster_ca i) False w = (r1, w1)"
    by (cases "write_atomic E ?ca (ni_cluster_ca i) False w")
  obtain r2 w2 where r2: "write_atomic E ?cfg (render_kubelet_config i) False w1 = (r2, w2)"
    by (cases "write_atomic E ?cfg (render_kubelet_config i) False w1")
  have w': "r1 = Inr ()" "r2 = Inl e" "w' = w2"
    using run r1 r2
    by (auto simp: k8s_items_def io_then_def io_bind_def io_ctx_def split: sum.splits prod.splits)
  have ok1: "wf_fs (w_fs w1)" using wa.put_ok [OF t(1) assms(1), of E "ni_cluster_ca i" False] r1 by simp
  have ca: "content (w_fs w1) ?ca = Some (ni_cluster_ca i)"
    using wa.put_done [OF t(1) assms(1)] r1 w' by simp
  have f1: "content (w_fs w1) q = content (w_fs w) q" if "is_target q" "q \<noteq> ?ca" for q
    using wa.put_frame [OF t(1) that assms(1), of E "ni_cluster_ca i" False] r1 by simp
  have f2: "content (w_fs w2) q = content (w_fs w1) q" if "is_target q" "q \<noteq> ?cfg" for q
    using wa.put_frame [OF t(2) that ok1, of E "render_kubelet_config i" False] r2 by simp
  have "content (w_fs w2) ?cfg = content (w_fs w1) ?cfg"
    using wa.put_fail [OF t(2) ok1] r2 w' by simp
  with ca f1 f2 t d w'(3) show ?thesis by simp
qed

text \<open>The node of the example, with a full disk from the second file on.\<close>

definition full_env :: env where
  "full_env = full_at (path_of KUBELET_CONFIG_PATH) 0x1A4"

lemma full_env_run:
  obtains e w' where
    "k8s_reconcile sample_pem full_env (Some (sample_intent\<lparr>ni_cluster_ca := ''CA2''\<rparr>)) sample_node =
       (Inl (Ctx ''write kubelet config.yaml'' e), w')"
proof -
  let ?i = "sample_intent\<lparr>ni_cluster_ca := ''CA2''\<rparr>"
  let ?ca = "path_of CLUSTER_CA_PATH" and ?cfg = "path_of KUBELET_CONFIG_PATH"
  have valid: "validate sample_pem ?i = Inr ()"
    using sample_intent_valid by (simp add: validate_iff sample_pem_def)
  have par: "path_parent ?ca = Some kubelet_dir" "path_parent ?cfg = Some kubelet_dir" "tmp_of ?ca \<noteq> tmp_of ?cfg"
    by code_simp+
  obtain w1 where w1: "write_atomic full_env ?ca ''CA2'' False sample_node = (Inr (), w1)" "flat kubelet_dir (w_fs w1)"
    unfolding full_env_def by (rule full_at_other [OF k8s_paths_target(1) par(1) sample_node_facts(4) par(3)])
  obtain e w2 where "write_atomic full_env ?cfg (render_kubelet_config ?i) False w1 = (Inl e, w2)"
    unfolding full_env_def by (rule full_at_fails [OF k8s_paths_target(2) par(2) w1(2), where m = "0x1A4" and b = False]) auto
  with w1 have
    "k8s_reconcile sample_pem full_env (Some ?i) sample_node = (Inl (Ctx ''write kubelet config.yaml'' e), w2)"
    by (simp add: k8s_reconcile_puts valid k8s_items_def io_then_def io_bind_def io_ctx_def)
  then show thesis by (rule that)
qed

theorem reconcile_mixed_witness:
  "(let w' = snd (k8s_reconcile sample_pem full_env (Some (sample_intent\<lparr>ni_cluster_ca := ''CA2''\<rparr>)) sample_node)
    in content (w_fs w') (path_of CLUSTER_CA_PATH) = Some ''CA2'' \<and>
       content (w_fs w') (path_of BOOTSTRAP_KUBECONFIG_PATH) = Some (render_bootstrap_kubeconfig sample_intent))"
proof -
  let ?i = "sample_intent\<lparr>ni_cluster_ca := ''CA2''\<rparr>"
  obtain e w' where run: "k8s_reconcile sample_pem full_env (Some ?i) sample_node =
      (Inl (Ctx ''write kubelet config.yaml'' e), w')" by (rule full_env_run)
  have valid: "validate sample_pem ?i = Inr ()"
    using sample_intent_valid by (simp add: validate_iff sample_pem_def)
  have "content (w_fs sample_node) (path_of BOOTSTRAP_KUBECONFIG_PATH) = Some (render_bootstrap_kubeconfig sample_intent)"
    using sample_node_facts(2) [of "k8s_items sample_intent ! 2"] by (simp add: k8s_items_def)
  with reconcile_mixed [OF sample_node_facts(3) valid run] run show ?thesis by simp
qed

text \<open>
  \<open>reconcile\<close> is idempotent, as the trait demands: when it has succeeded once, succeeding again
  with the same intent changes no file.
\<close>

lemma reconcile_idempotent:
  assumes "wf_fs (w_fs w)" and "k8s_reconcile from_pem E d w = (Inr x, w1)"
    and "k8s_reconcile from_pem E d w1 = (Inr y, w2)" and "is_target q"
  shows "content (w_fs w2) q = content (w_fs w1) q"
  by (rule k8s.idempotent [OF assms])

lemma reconcile_idempotent_example:
  "content (w_fs (snd (k8s_reconcile sample_pem calm (Some sample_intent) sample_node)))
     (path_of CLUSTER_CA_PATH) = Some ''CA''"
proof -
  let ?r = "k8s_reconcile sample_pem calm (Some sample_intent) sample_node"
  have "?r = (Inr (), snd ?r)"
    using k8s_reconcile_succeeds [OF sample_intent_valid sample_node_facts(4), of calm]
    by (simp add: prod_eq_iff calm_def)
  from reconcile_idempotent [OF empty_world(1) sample_node_facts(1) this k8s_paths_target(1)]
    sample_node_facts(2) [of "k8s_items sample_intent ! 0"]
  show ?thesis by (simp add: k8s_items_def sample_intent_def)
qed

end
