(* ===== verification/Api.thy ===== *)
theory Api
  imports Noded_Config Workload_Safety
begin

text \<open>
  The management API (crates/noded/src/main.rs): the handlers \<open>health\<close>, \<open>status\<close> and \<open>put_config\<close>,
  \<open>load_node_intent\<close>, and \<open>build_router\<close> with the authorization middleware in front.

  The JSON codec, the body extractor of axum and the text of an operating system error are the
  parameter \<open>api_lib\<close>; the clock is one too. Routing follows axum's documentation: an unknown path
  is 404, a known path with another method 405, and \<open>get\<close> also answers \<open>HEAD\<close>; the middleware runs
  before all of them.
\<close>

section \<open>The libraries\<close>

record api_lib =
  al_from_pem :: "string \<Rightarrow> err + unit"
  al_from_slice :: "string \<Rightarrow> err + raw_intent"
  al_to_vec :: "node_intent \<Rightarrow> err + string"
  al_extract :: "request \<Rightarrow> (nat \<times> string) + raw_intent"
  al_show_io :: "io_error \<Rightarrow> string"

text \<open>\<open>{err:#}\<close>: the contexts and the cause, outermost first.\<close>

fun show_err :: "api_lib \<Rightarrow> err \<Rightarrow> string" where
  "show_err A (Msg m) = m"
| "show_err A (Io e) = al_show_io A e"
| "show_err A (Lib m) = m"
| "show_err A (Ctx c e) = c @ '': '' @ show_err A e"
| "show_err A (Panic m) = m"

section \<open>Responses\<close>

record health_response =
  hr_status :: string
  hr_node_id :: string
  hr_unix_time :: nat

record status_response =
  st_node_id :: string
  st_os_version :: string
  st_kernel_version :: string
  st_immutable_root :: bool
  st_ssh_present :: bool
  st_shell_present :: bool
  st_package_manager_present :: bool
  st_workload_profile :: string
  st_workload_health :: workload_health

datatype json = HealthJson health_response | StatusJson status_response

text \<open>\<open>AppState\<close>.\<close>

record app_state =
  as_config :: noded_config
  as_workload :: workload

text \<open>A program that cannot fail, run by a handler on the world of the process.\<close>

definition on_world :: "'a cmd \<Rightarrow> server \<Rightarrow> (err + 'a) \<times> server" where
  "on_world m s = (case m (sr_world s) of (r, w) \<Rightarrow> (r, s\<lparr>sr_world := w\<rparr>))"

section \<open>Handlers\<close>

text \<open>Seconds since the epoch; 0 where the clock is before it.\<close>

definition health :: "(event list \<Rightarrow> nat option) \<Rightarrow> app_state \<Rightarrow> json handler" where
  "health clock st rq s =
     ((200, Json (HealthJson \<lparr>hr_status = ''ok'', hr_node_id = nc_node_id (as_config st),
        hr_unix_time = (case clock (w_trace (sr_world s)) of None \<Rightarrow> 0 | Some ns \<Rightarrow> ns div 1000000000)\<rparr>)), s)"

text \<open>\<open>path_exists(a) || path_exists(b) || ...\<close>\<close>

fun any_exists :: "env \<Rightarrow> string list \<Rightarrow> bool cmd" where
  "any_exists E [] = io_ret False"
| "any_exists E (p # ps) =
     io_bind (path_exists E (path_of p)) (\<lambda>b. if b then io_ret True else any_exists E ps)"

definition status_cmd :: "env \<Rightarrow> app_state \<Rightarrow> status_response cmd" where
  "status_cmd E st =
     io_bind (wl_health (as_workload st)) (\<lambda>workload_health.
     io_bind (any_exists E [''/usr/sbin/sshd'', ''/usr/bin/ssh'']) (\<lambda>ssh.
     io_bind (any_exists E [''/bin/sh'', ''/bin/bash'']) (\<lambda>shell.
     io_bind (any_exists E [''/usr/bin/apt'', ''/usr/bin/dnf'', ''/usr/bin/yum'', ''/usr/bin/apk'']) (\<lambda>pm.
       io_ret \<lparr>st_node_id = nc_node_id (as_config st), st_os_version = ''dev'', st_kernel_version = ''linux'',
         st_immutable_root = False, st_ssh_present = ssh, st_shell_present = shell,
         st_package_manager_present = pm, st_workload_profile = wl_name (as_workload st),
         st_workload_health = workload_health\<rparr>))))"

definition status :: "env \<Rightarrow> app_state \<Rightarrow> json handler" where
  "status E st rq s =
     (case on_world (status_cmd E st) s of
        (Inr r, s') \<Rightarrow> ((200, Json (StatusJson r)), s')
      | (Inl e, s') \<Rightarrow> ((500, Text []), s'))"

definition NODE_INTENT_PATH :: string where
  "NODE_INTENT_PATH = ''/var/lib/nodeos/k8s/node-intent.json''"

definition load_node_intent :: "api_lib \<Rightarrow> env \<Rightarrow> node_intent option cmd" where
  "load_node_intent A E =
     io_bind (io_attempt (read_file E (path_of NODE_INTENT_PATH))) (\<lambda>r.
       case r of
         Inl _ \<Rightarrow> io_ret None
       | Inr data \<Rightarrow>
           (case al_from_slice A data of Inr raw \<Rightarrow> io_ret (Some (intent_of_raw raw)) | Inl _ \<Rightarrow> io_ret None))"

text \<open>The body of \<open>put_config\<close> on a parsed intent.\<close>

definition apply_intent :: "api_lib \<Rightarrow> env \<Rightarrow> app_state \<Rightarrow> node_intent \<Rightarrow> server \<Rightarrow> json response \<times> server" where
  "apply_intent A E st i s =
     (let nl = [newline] in
      case validate (al_from_pem A) i of
        Inl e \<Rightarrow> ((400, Text (''invalid node intent: '' @ show_err A e @ nl)), s)
      | Inr _ \<Rightarrow>
          (case al_to_vec A i of
             Inl e \<Rightarrow> ((500, Text (''serialize node intent: '' @ show_err A e @ nl)), s)
           | Inr bytes \<Rightarrow>
               (case on_world (write_atomic E (path_of NODE_INTENT_PATH) bytes True) s of
                  (Inl e, s1) \<Rightarrow> ((500, Text (''persist node intent: '' @ show_err A e @ nl)), s1)
                | (Inr _, s1) \<Rightarrow>
                    (case on_world (wl_reconcile (as_workload st) (Some i)) s1 of
                       (Inr _, s2) \<Rightarrow> ((200, Text (''node intent applied'' @ nl)), s2)
                     | (Inl e, s2) \<Rightarrow> ((500, Text (''reconcile workload: '' @ show_err A e @ nl)), s2)))))"

definition put_config :: "api_lib \<Rightarrow> env \<Rightarrow> app_state \<Rightarrow> json handler" where
  "put_config A E st rq s =
     (case al_extract A rq of
        Inl (code, msg) \<Rightarrow> ((code, Text msg), s)
      | Inr raw \<Rightarrow> apply_intent A E st (intent_of_raw raw) s)"

section \<open>The router\<close>

definition routes :: "api_lib \<Rightarrow> env \<Rightarrow> (event list \<Rightarrow> nat option) \<Rightarrow> app_state \<Rightarrow> json handler" where
  "routes A E clock st rq =
     (let m = rq_method rq in
      if rq_path rq = ''/v1/healthz''
      then (if m = GET \<or> m = HEAD then health clock st rq else Pair (405, Text []))
      else if rq_path rq = ''/v1/status''
      then (if m = GET \<or> m = HEAD then status E st rq else Pair (405, Text []))
      else if rq_path rq = ''/v1/config''
      then (if m = PUT then put_config A E st rq else Pair (405, Text []))
      else Pair (404, Text []))"

definition build_router :: "api_lib \<Rightarrow> env \<Rightarrow> (event list \<Rightarrow> nat option) \<Rightarrow> app_state \<Rightarrow> json handler" where
  "build_router A E clock st = authorize (nc_authorization (as_config st)) (routes A E clock st)"

text \<open>Requests answered one after the other.\<close>

fun serve :: "api_lib \<Rightarrow> env \<Rightarrow> (event list \<Rightarrow> nat option) \<Rightarrow> app_state \<Rightarrow> request list \<Rightarrow> server \<Rightarrow> json response list \<times> server" where
  "serve A E clock st [] s = ([], s)"
| "serve A E clock st (rq # rqs) s =
     (case build_router A E clock st rq s of
        (resp, s1) \<Rightarrow> (case serve A E clock st rqs s1 of (resps, s2) \<Rightarrow> (resp # resps, s2)))"

end
