(* ===== verification/Api_Safety.thy ===== *)
theory Api_Safety
  imports Api
begin

text \<open>
  What the management API guarantees: who can change files through it, what a request to
  \<open>PUT /v1/config\<close> leaves behind on each of its outcomes, and that the persisted intent is what the
  next start re-applies.
\<close>

section \<open>Who can change files\<close>

text \<open>The file system now and the states it passed through.\<close>

definition files :: "server \<Rightarrow> fsys \<times> fsys list" where
  "files s = (w_fs (sr_world s), w_snaps (sr_world s))"

lemma any_exists_keeps: "keeps (\<lambda>w. P (w_fs w, w_snaps w)) (any_exists E ps)"
proof -
  have ex: "keeps (\<lambda>w. P (w_fs w, w_snaps w)) (path_exists E p)" for p
    by (rule keepsI) (simp add: path_exists_def Let_def)
  show ?thesis
  proof (induction ps)
    case Nil
    show ?case unfolding any_exists.simps by (rule keeps_ret)
  next
    case (Cons p ps)
    show ?case unfolding any_exists.simps by (intro keeps_rules ex Cons)
  qed
qed

lemma new_profile_health_keeps: "keeps (\<lambda>w. P (w_fs w, w_snaps w)) (wl_health (new_profile pem E p))"
proof -
  have ex: "keeps (\<lambda>w. P (w_fs w, w_snaps w)) (path_exists E q)" for q
    by (rule keepsI) (simp add: path_exists_def Let_def)
  show ?thesis
    by (cases p) (auto simp: new_profile_def k8s_health_def kvm_health_def from_binary_def intro!: keeps_rules ex)
qed

lemma health_quiet: "files (snd (health clock st rq s)) = files s"
  by (simp add: health_def)

lemma status_quiet:
  assumes "as_workload st = new_profile pem E p"
  shows "files (snd (status E st rq s)) = files s"
proof -
  have "keeps (\<lambda>w. (w_fs w, w_snaps w) = files s) (status_cmd E st)"
    unfolding status_cmd_def assms
    by (intro keeps_rules any_exists_keeps [of "\<lambda>f. f = files s"] new_profile_health_keeps [of "\<lambda>f. f = files s"])
  then have "(w_fs (snd (status_cmd E st (sr_world s))), w_snaps (snd (status_cmd E st (sr_world s)))) = files s"
    by (simp add: keeps_def files_def)
  then show ?thesis
    by (cases "status_cmd E st (sr_world s)"; cases "fst (status_cmd E st (sr_world s))")
      (auto simp: status_def on_world_def files_def)
qed

text \<open>The request may change files: an operator's valid intent.\<close>

definition may_change :: "api_lib \<Rightarrow> app_state \<Rightarrow> request \<Rightarrow> bool" where
  "may_change A st rq \<longleftrightarrow>
     rq_method rq = PUT \<and> rq_path rq = ''/v1/config'' \<and>
     (\<exists>i cn r. rq_identity rq = Some i \<and> ci_common_name i = Some cn \<and>
        role_for (nc_authorization (as_config st)) cn = Some r \<and> satisfies r Operator) \<and>
     (\<exists>raw. al_extract A rq = Inr raw \<and> validate (al_from_pem A) (intent_of_raw raw) = Inr ())"

lemma authorize_cases:
  obtains (deny) "sr_world (snd (authorize az next rq s)) = sr_world s"
      and "fst (fst (authorize az next rq s)) = 403"
      and "\<exists>req. required_role (rq_method rq) (rq_path rq) = Some req \<and>
        (\<forall>r. granted_role az rq = Some r \<longrightarrow> \<not> satisfies r req)"
  | (allow) s0 where "authorize az next rq s = next rq s0" and "sr_world s0 = sr_world s"
      and "\<And>req. required_role (rq_method rq) (rq_path rq) = Some req \<Longrightarrow>
        \<exists>r. granted_role az rq = Some r \<and> satisfies r req"
proof (cases "decide (required_role (rq_method rq) (rq_path rq)) (granted_role az rq)")
  case d: (Pair b reason)
  show thesis
  proof (cases b)
    case True
    define s0 where "s0 = snd (authorize az (\<lambda>_ s. ((403, Text []), s)) rq s)"
    have "authorize az next rq s = next rq s0" "sr_world s0 = sr_world s"
      using True by (simp_all add: s0_def authorize_def d)
    then show thesis using True d allow by (auto simp: decide_def split: option.splits if_splits)
  next
    case False
    then have "sr_world (snd (authorize az next rq s)) = sr_world s" "fst (fst (authorize az next rq s)) = 403"
      by (simp_all add: authorize_def d)
    moreover have "\<exists>req. required_role (rq_method rq) (rq_path rq) = Some req \<and>
        (\<forall>r. granted_role az rq = Some r \<longrightarrow> \<not> satisfies r req)"
      using d False by (auto simp: decide_def split: option.splits if_splits)
    ultimately show thesis by (rule deny)
  qed
qed

lemma put_config_quiet:
  assumes "\<not> (\<exists>raw. al_extract A rq = Inr raw \<and> validate (al_from_pem A) (intent_of_raw raw) = Inr ())"
  shows "sr_world (snd (put_config A E st rq s)) = sr_world s"
proof (cases "al_extract A rq")
  case (Inl p)
  then show ?thesis by (simp add: put_config_def split: prod.split)
next
  case (Inr raw)
  with assms obtain e where "validate (al_from_pem A) (intent_of_raw raw) = Inl e"
    by (cases "validate (al_from_pem A) (intent_of_raw raw)") auto
  with Inr show ?thesis by (simp add: put_config_def apply_intent_def)
qed

lemma router_silent:
  assumes "as_workload st = new_profile pem E p" and "\<not> may_change A st rq"
  shows "files (snd (build_router A E clock st rq s)) = files s"
proof -
  let ?az = "nc_authorization (as_config st)"
  show ?thesis
  proof (cases rule: authorize_cases [of ?az "routes A E clock st" rq s])
    case deny
    then show ?thesis by (simp add: build_router_def files_def)
  next
    case (allow s0)
    show ?thesis
    proof (cases "rq_method rq = PUT \<and> rq_path rq = ''/v1/config''")
      case True
      then have "required_role (rq_method rq) (rq_path rq) = Some Operator" by (simp add: required_role_def)
      from allow(3) [OF this] obtain r where "granted_role ?az rq = Some r" "satisfies r Operator" by blast
      with assms(2) True have "\<not> (\<exists>raw. al_extract A rq = Inr raw \<and> validate (al_from_pem A) (intent_of_raw raw) = Inr ())"
        by (auto simp: may_change_def granted_role_def split: option.splits)
      from put_config_quiet [OF this] True allow(1,2) show ?thesis
        by (simp add: build_router_def routes_def Let_def files_def)
    next
      case False
      have "files s0 = files s" using allow(2) by (simp add: files_def)
      with False show ?thesis
        using allow(1) status_quiet [OF assms(1)] health_quiet by (auto simp: build_router_def routes_def Let_def)
    qed
  qed
qed

lemma router_quiet:
  "as_workload st = new_profile pem E p \<Longrightarrow> \<not> may_change A st rq \<Longrightarrow>
     w_fs (sr_world (snd (build_router A E clock st rq s))) = w_fs (sr_world s)"
  using router_silent [of st pem E p A rq clock s] by (simp add: files_def)

section \<open>The persisted intent\<close>

lemma intent_path: "is_target (path_of NODE_INTENT_PATH)" "path_of NODE_INTENT_PATH \<notin> k8s_owned"
  by code_simp+

text \<open>The law of the JSON codec: what it writes, it reads back.\<close>

definition codec_law :: "api_lib \<Rightarrow> bool" where
  "codec_law A \<longleftrightarrow>
     (\<forall>i bytes. al_to_vec A i = Inr bytes \<longrightarrow>
        (\<exists>raw. al_from_slice A bytes = Inr raw \<and> intent_of_raw raw = i))"

lemma load_persisted:
  assumes "codec_law A" and "al_to_vec A i = Inr bytes"
    and "content (w_fs w) (path_of NODE_INTENT_PATH) = Some bytes"
    and "env_fault E (w_trace w) (ReadFile (path_of NODE_INTENT_PATH)) = None"
  shows "\<exists>w'. load_node_intent A E w = (Inr (Some i), w') \<and> w_fs w' = w_fs w"
proof -
  obtain raw where raw: "al_from_slice A bytes = Inr raw" "intent_of_raw raw = i"
    using assms(1,2) unfolding codec_law_def by blast
  from assms(3) obtain n where n: "cur (w_fs w) (path_of NODE_INTENT_PATH) = FileAt n" "i_data (fs_inodes (w_fs w) n) = bytes"
    by (auto simp: content_def split: entry.splits)
  with assms(4) raw show ?thesis
    by (simp add: load_node_intent_def read_file_def prim_def fs_read_def io_defs)
qed

text \<open>The outcomes of \<open>put_config\<close> on a parsed intent.\<close>

lemma apply_intent_cases:
  assumes "apply_intent A E st i s = ((code, body), s')"
  obtains (invalid) e where "validate (al_from_pem A) i = Inl e" "code = 400" "s' = s"
  | (unserialised) e where "validate (al_from_pem A) i = Inr ()" "al_to_vec A i = Inl e" "code = 500" "s' = s"
  | (unpersisted) bytes e where "validate (al_from_pem A) i = Inr ()" "al_to_vec A i = Inr bytes" "code = 500"
      "write_atomic E (path_of NODE_INTENT_PATH) bytes True (sr_world s) = (Inl e, sr_world s')"
  | (reconciled) bytes w1 r where "validate (al_from_pem A) i = Inr ()" "al_to_vec A i = Inr bytes"
      "write_atomic E (path_of NODE_INTENT_PATH) bytes True (sr_world s) = (Inr (), w1)"
      "wl_reconcile (as_workload st) (Some i) w1 = (r, sr_world s')" "code = (if isl r then 500 else 200)"
proof (cases "validate (al_from_pem A) i")
  case (Inl e)
  with assms invalid show thesis by (auto simp: apply_intent_def)
next
  case v: (Inr u)
  show thesis
  proof (cases "al_to_vec A i")
    case (Inl e)
    with v assms unserialised show thesis by (auto simp: apply_intent_def)
  next
    case b: (Inr bytes)
    obtain q w1 where q: "write_atomic E (path_of NODE_INTENT_PATH) bytes True (sr_world s) = (q, w1)"
      by (cases "write_atomic E (path_of NODE_INTENT_PATH) bytes True (sr_world s)")
    show thesis
    proof (cases q)
      case (Inl e)
      with v b q assms show thesis by (intro unpersisted [of bytes e]) (auto simp: apply_intent_def on_world_def)
    next
      case (Inr u')
      obtain r w2 where "wl_reconcile (as_workload st) (Some i) w1 = (r, w2)"
        by (cases "wl_reconcile (as_workload st) (Some i) w1")
      with v b q Inr assms show thesis
        by (intro reconciled [of bytes w1 r]) (auto simp: apply_intent_def on_world_def Let_def split: sum.splits)
    qed
  qed
qed

lemma not_isl_unit: "\<not> isl (r :: err + unit) \<Longrightarrow> r = Inr ()"
  by (cases r) simp_all

text \<open>Both profiles leave the intent file alone.\<close>

lemma reconcile_keeps_intent:
  assumes "wf_fs (w_fs w)"
  shows "content (w_fs (snd (wl_reconcile (new_profile pem E p) d w))) (path_of NODE_INTENT_PATH) =
      content (w_fs w) (path_of NODE_INTENT_PATH)"
proof (cases p)
  case K8s
  then show ?thesis using k8s.frame [OF assms intent_path] by (simp add: new_profile_def)
next
  case Kvm
  then show ?thesis using kvm.frame [OF assms intent_path(1)] by (simp add: new_profile_def)
qed

section \<open>What every request keeps\<close>

lemma apply_intent_keeps:
  assumes "\<And>bytes. keeps P (write_atomic E (path_of NODE_INTENT_PATH) bytes True)"
    and "keeps P (wl_reconcile (as_workload st) (Some i))"
    and "P (sr_world s)" and "apply_intent A E st i s = (resp, s')"
  shows "P (sr_world s')"
proof -
  obtain code body where run: "apply_intent A E st i s = ((code, body), s')" using assms(4) by (cases resp) auto
  then show ?thesis
  proof (cases rule: apply_intent_cases)
    case (unpersisted bytes e)
    then show ?thesis using keepsD [OF assms(1,3)] by blast
  next
    case (reconciled bytes w1 r)
    then show ?thesis using keepsD [OF assms(1,3)] keepsD [OF assms(2)] by blast
  qed (use assms(3) in simp_all)
qed

lemma router_keeps:
  assumes "keeps P (status_cmd E st)"
    and "\<And>bytes. keeps P (write_atomic E (path_of NODE_INTENT_PATH) bytes True)"
    and "\<And>i. keeps P (wl_reconcile (as_workload st) (Some i))"
    and "P (sr_world s)" and "build_router A E clock st rq s = (resp, s')"
  shows "P (sr_world s')"
proof -
  have st: "P (sr_world (snd (status E st rq s0)))" if "P (sr_world s0)" for s0
    using assms(1) that
    by (cases "status_cmd E st (sr_world s0)"; cases "fst (status_cmd E st (sr_world s0))")
      (auto simp: status_def on_world_def keeps_def)
  have pc: "P (sr_world (snd (put_config A E st rq s0)))" if "P (sr_world s0)" for s0
  proof (cases "al_extract A rq")
    case (Inl m)
    then show ?thesis using that by (simp add: put_config_def split: prod.split)
  next
    case (Inr raw)
    have "P (sr_world (snd (apply_intent A E st (intent_of_raw raw) s0)))"
      by (rule apply_intent_keeps [OF assms(2,3) that prod.collapse [symmetric]])
    with Inr show ?thesis by (simp add: put_config_def)
  qed
  have rt: "P (sr_world (snd (routes A E clock st rq s0)))" if "P (sr_world s0)" for s0
    using st [OF that] pc [OF that] that by (simp add: routes_def health_def Let_def)
  have "P (sr_world (snd (build_router A E clock st rq s)))"
    unfolding build_router_def authorize_def Let_def using rt assms(4) by (simp split: prod.split)
  with assms(5) show ?thesis by simp
qed

text \<open>One audit record per request, under consecutive numbers.\<close>

lemma on_world_audit: "on_world m s = (r, s') \<Longrightarrow> sr_next_id s' = sr_next_id s \<and> sr_audit s' = sr_audit s"
  by (auto simp: on_world_def split: prod.splits)

lemma apply_intent_audit:
  "apply_intent A E st i s = (resp, s') \<Longrightarrow> sr_next_id s' = sr_next_id s \<and> sr_audit s' = sr_audit s"
  by (auto simp: apply_intent_def Let_def dest!: on_world_audit split: sum.splits prod.splits)

lemma routes_audit: "routes A E clock st rq s = (resp, s') \<Longrightarrow> sr_next_id s' = sr_next_id s \<and> sr_audit s' = sr_audit s"
  by (auto simp: routes_def health_def status_def put_config_def Let_def
      dest!: on_world_audit apply_intent_audit split: if_splits sum.splits prod.splits)

lemma router_audit:
  assumes "build_router A E clock st rq s = (resp, s')"
  shows "sr_next_id s' = sr_next_id s + 1 \<and> (\<exists>a. sr_audit s' = sr_audit s @ [a] \<and> au_id a = sr_next_id s)"
  using assms unfolding build_router_def authorize_def Let_def
  by (auto dest!: routes_audit split: prod.splits if_splits)

section \<open>An example\<close>

text \<open>
  A codec that writes a marker and reads it back as the sample intent, an operator, and a node
  without files.
\<close>

definition sample_raw :: raw_intent where
  "sample_raw = \<lparr>ri_api_server = ''https://[2001:db8::1]:6443'', ri_cluster_ca = ''CA'',
     ri_bootstrap_token = ''abcdef.0123456789abcdef'', ri_cluster_dns = Some [''fd00::a''],
     ri_cluster_domain = None, ri_node_labels = None, ri_node_taints = None\<rparr>"

definition sample_api :: api_lib where
  "sample_api = \<lparr>al_from_pem = sample_pem,
     al_from_slice = (\<lambda>d. if d = ''I'' then Inr sample_raw else Inl (Lib ''json'')),
     al_to_vec = (\<lambda>i. if i = sample_intent then Inr ''I'' else Inl (Lib ''json'')),
     al_extract = (\<lambda>rq. if rq_body rq = ''I'' then Inr sample_raw else Inl (422, ''json'')), al_show_io = (\<lambda>_. ''io'')\<rparr>"

definition ops_config :: noded_config where
  "ops_config =
     \<lparr>nc_listen_addr = default_listen_addr, nc_node_id = ''n1'', nc_profile = K8s,
      nc_cert_file = path_of ''/p/c'', nc_key_file = path_of ''/p/k'', nc_client_ca = path_of ''/p/a'',
      nc_est = \<lparr>ec_server_url = ''https://e'', ec_bearer_token = ''t'', ec_ca_cert_file = path_of ''/e'', ec_label = None\<rparr>,
      nc_renew_check_interval_secs = 3600,
      nc_authorization = [\<lparr>rb_role = Operator, rb_subjects = [''ops'']\<rparr>], nc_tpm = None\<rparr>"

definition ops_state :: "env \<Rightarrow> app_state" where
  "ops_state E = \<lparr>as_config = ops_config, as_workload = new_profile sample_pem E K8s\<rparr>"

definition ops_put :: request where
  "ops_put = \<lparr>rq_method = PUT, rq_path = ''/v1/config'',
     rq_identity = Some \<lparr>ci_common_name = Some ''ops''\<rparr>, rq_body = ''I''\<rparr>"

definition fresh_server :: server where
  "fresh_server = \<lparr>sr_world = world_of empty_fs, sr_next_id = 1, sr_audit = []\<rparr>"

lemma sample_raw_intent: "intent_of_raw sample_raw = sample_intent"
  by (simp add: sample_raw_def sample_intent_def intent_of_raw_def default_cluster_domain_def)

lemma sample_codec: "codec_law sample_api"
  by (auto simp: codec_law_def sample_api_def sample_raw_intent split: if_splits)

lemma ops_workload: "as_workload (ops_state E) = new_profile (al_from_pem sample_api) E K8s"
  by (simp add: ops_state_def sample_api_def)

lemma sample_api_sel: "al_from_pem sample_api = sample_pem" "al_to_vec sample_api sample_intent = Inr ''I''"
  by (simp_all add: sample_api_def)

lemma ops_extract: "al_extract sample_api ops_put = Inr sample_raw"
  by (simp add: sample_api_def ops_put_def)

definition intent_dir :: path where
  "intent_dir = path_of ''/var/lib/nodeos/k8s''"

lemma intent_parent: "path_parent (path_of NODE_INTENT_PATH) = Some intent_dir"
  by code_simp

lemma intent_dirs:
  "path_file_name (path_of NODE_INTENT_PATH) = Some ''node-intent.json''"
  "path_of NODE_INTENT_PATH \<notin> set (path_prefixes kubelet_dir)"
  "tmp_of (path_of NODE_INTENT_PATH) \<notin> set (path_prefixes kubelet_dir)"
  "list_all (\<lambda>q. path_parent q \<noteq> Some kubelet_dir) (path_prefixes intent_dir)"
  by code_simp+

text \<open>No operation fails whose failure would be an error of a configuration request.\<close>

definition config_writable :: "env \<Rightarrow> bool" where
  "config_writable E \<longleftrightarrow>
     (\<forall>t o' q. write_op q o' \<and> (q = path_of NODE_INTENT_PATH \<or> q \<in> k8s_owned) \<longrightarrow> env_fault E t o' = None)"

text \<open>Nothing but files is in the way of the intent and of the kubelet's configuration.\<close>

definition config_clear :: "fsys \<Rightarrow> bool" where
  "config_clear s \<longleftrightarrow> wf_fs s \<and> clear_way s (path_of NODE_INTENT_PATH) \<and> flat kubelet_dir s"

text \<open>Writing the intent leaves the way to the kubelet's files free.\<close>

lemma intent_write:
  assumes "config_clear (w_fs w)" and "config_writable E"
  obtains w1 where "write_atomic E (path_of NODE_INTENT_PATH) bytes True w = (Inr (), w1)"
    and "wf_fs (w_fs w1)" and "flat kubelet_dir (w_fs w1)"
proof -
  let ?p = "path_of NODE_INTENT_PATH"
  have ok: "wf_fs (w_fs w)" "clear_way (w_fs w) ?p" "flat kubelet_dir (w_fs w)"
    using assms(1) by (simp_all add: config_clear_def)
  obtain r w1 where r: "write_atomic E ?p bytes True w = (r, w1)" by (cases "write_atomic E ?p bytes True w")
  have "r = Inr ()"
    using write_atomic_succeeds [OF intent_path(1) ok(2), of E bytes True] assms(2) r
    unfolding config_writable_def by (metis fst_conv)
  moreover have "wf_fs (w_fs w1)" using wa.put_ok [OF intent_path(1) ok(1), of E bytes True] r by simp
  moreover have "flat kubelet_dir (w_fs w1)"
    by (rule keepsD [OF flat_keeps_other [OF intent_parent] ok(3) r]) (use intent_dirs in \<open>auto simp: list_all_iff\<close>)
  ultimately show thesis using r that by blast
qed

text \<open>A valid intent is then applied, and all its files are there.\<close>

lemma put_applies:
  assumes "config_clear (w_fs (sr_world s))" and "config_writable E"
    and "as_workload st = new_profile (al_from_pem A) E K8s" and "al_extract A rq = Inr raw"
    and "validate (al_from_pem A) (intent_of_raw raw) = Inr ()" and "al_to_vec A (intent_of_raw raw) = Inr bytes"
  obtains s' where "put_config A E st rq s = ((200, Text (''node intent applied'' @ [newline])), s')"
    and "flat kubelet_dir (w_fs (sr_world s'))"
    and "content (w_fs (sr_world s')) (path_of NODE_INTENT_PATH) = Some bytes"
    and "\<forall>it \<in> set (k8s_items (intent_of_raw raw)). content (w_fs (sr_world s')) (item_path it) = Some (item_data it)"
proof -
  let ?i = "intent_of_raw raw" and ?pem = "al_from_pem A"
  have ok: "wf_fs (w_fs (sr_world s))" using assms(1) by (simp add: config_clear_def)
  obtain w1 where w1: "write_atomic E (path_of NODE_INTENT_PATH) bytes True (sr_world s) = (Inr (), w1)"
    "wf_fs (w_fs w1)" "flat kubelet_dir (w_fs w1)" by (rule intent_write [OF assms(1,2)])
  have "env_fault E t o' = None" if "it \<in> set (k8s_items ?i)" "write_op (item_path it) o'" for t it o'
    using assms(2) that k8s_items_facts(3) [of ?i] unfolding config_writable_def by blast
  then obtain w2 where w2: "k8s_reconcile ?pem E (Some ?i) w1 = (Inr (), w2)" "flat kubelet_dir (w_fs w2)"
    using k8s_reconcile_succeeds [OF assms(5) w1(3), of E] by (cases "k8s_reconcile ?pem E (Some ?i) w1") auto
  have "content (w_fs w1) (path_of NODE_INTENT_PATH) = Some bytes"
    by (rule wa.put_done [OF intent_path(1) ok w1(1)])
  then have c: "content (w_fs w2) (path_of NODE_INTENT_PATH) = Some bytes"
    using k8s.frame [OF w1(2) intent_path, of ?pem E "Some ?i"] w2 by simp
  show thesis
    by (rule that [of "s\<lparr>sr_world := w2\<rparr>"])
      (use assms(3-6) w1(1) w2 c k8s_done [OF w1(2) w2(1)] in
        \<open>simp_all add: put_config_def apply_intent_def on_world_def new_profile_def Let_def\<close>)
qed

lemma flat_config_clear: "wf_fs s \<Longrightarrow> flat intent_dir s \<Longrightarrow> flat kubelet_dir s \<Longrightarrow> config_clear s"
  by (simp add: config_clear_def flat_clear [OF _ intent_parent intent_path(1)])

lemma calm_writable: "config_writable calm"
  by (simp add: config_writable_def calm_def)

lemma sample_put_at:
  assumes "wf_fs (w_fs (sr_world s))" and "flat intent_dir (w_fs (sr_world s))" and "flat kubelet_dir (w_fs (sr_world s))"
    and "as_workload st = new_profile sample_pem calm K8s" and "al_extract sample_api rq = Inr sample_raw"
  obtains s' where "put_config sample_api calm st rq s = ((200, Text (''node intent applied'' @ [newline])), s')"
    and "flat kubelet_dir (w_fs (sr_world s'))"
    and "content (w_fs (sr_world s')) (path_of NODE_INTENT_PATH) = Some ''I''"
    and "content (w_fs (sr_world s')) (path_of BOOTSTRAP_KUBECONFIG_PATH) \<noteq> None"
proof (rule put_applies [OF flat_config_clear [OF assms(1-3)] calm_writable])
  show "as_workload st = new_profile (al_from_pem sample_api) calm K8s" using assms(4) by (simp add: sample_api_sel)
  show "al_extract sample_api rq = Inr sample_raw" by (rule assms(5))
  show "validate (al_from_pem sample_api) (intent_of_raw sample_raw) = Inr ()"
    by (simp add: sample_api_sel sample_raw_intent sample_intent_valid)
  show "al_to_vec sample_api (intent_of_raw sample_raw) = Inr ''I''" by (simp add: sample_api_sel sample_raw_intent)
  fix s'
  assume "put_config sample_api calm st rq s = ((200, Text (''node intent applied'' @ [newline])), s')"
    and "flat kubelet_dir (w_fs (sr_world s'))" and "content (w_fs (sr_world s')) (path_of NODE_INTENT_PATH) = Some ''I''"
    and k: "\<forall>it \<in> set (k8s_items (intent_of_raw sample_raw)). content (w_fs (sr_world s')) (item_path it) = Some (item_data it)"
  moreover from k have "content (w_fs (sr_world s')) (path_of BOOTSTRAP_KUBECONFIG_PATH) \<noteq> None"
    by (simp add: k8s_items_def)
  ultimately show thesis by (intro that)
qed

lemma sample_put:
  assumes "sr_world s = world_of empty_fs"
  obtains s' where "put_config sample_api calm (ops_state calm) ops_put s =
      ((200, Text (''node intent applied'' @ [newline])), s')"
    and "flat kubelet_dir (w_fs (sr_world s'))"
    and "content (w_fs (sr_world s')) (path_of NODE_INTENT_PATH) = Some ''I''"
    and "content (w_fs (sr_world s')) (path_of BOOTSTRAP_KUBECONFIG_PATH) \<noteq> None"
  by (rule sample_put_at [of s "ops_state calm" ops_put]) (simp_all add: assms empty_world ops_state_def ops_extract)

lemma sample_serve:
  obtains s' where "serve sample_api calm (\<lambda>_. None) (ops_state calm) [ops_put] fresh_server =
      ([(200, Text (''node intent applied'' @ [newline]))], s')"
    and "content (w_fs (sr_world s')) (path_of NODE_INTENT_PATH) = Some ''I''"
proof -
  let ?next = "routes sample_api calm (\<lambda>_. None) (ops_state calm)"
  define s0 where "s0 = snd (authorize (nc_authorization ops_config) (\<lambda>_ s. ((0, Text [] :: json body), s)) ops_put fresh_server)"
  have allow: "authorize (nc_authorization ops_config) ?next ops_put fresh_server = ?next ops_put s0"
    "sr_world s0 = world_of empty_fs"
    by (simp_all add: authorize_def decide_def granted_role_def required_role_def role_for_def ops_config_def
        ops_put_def satisfies_def fresh_server_def Let_def s0_def)
  obtain s' where p: "put_config sample_api calm (ops_state calm) ops_put s0 =
      ((200, Text (''node intent applied'' @ [newline])), s')"
    and c: "content (w_fs (sr_world s')) (path_of NODE_INTENT_PATH) = Some ''I''"
    by (rule sample_put [OF allow(2)])
  have "rq_method ops_put = PUT" "rq_path ops_put = ''/v1/config''"
    "nc_authorization (as_config (ops_state calm)) = nc_authorization ops_config"
    by (simp_all add: ops_put_def ops_state_def)
  with p allow(1) that [OF _ c] show thesis by (simp add: build_router_def routes_def)
qed

section \<open>Properties\<close>

text \<open>
  Only an operator changes files through the API: if any sequence of requests leaves the file
  system different, one of them is a \<open>PUT /v1/config\<close> from a client whose certificate name is
  bound to operator or a higher role, and its body is an intent that passes validation.
\<close>

lemma api_changes_need_operator:
  assumes "as_workload st = new_profile pem E p" and "serve A E clock st rqs s = (resps, s')"
    and "w_fs (sr_world s') \<noteq> w_fs (sr_world s)"
  shows "\<exists>rq. rq \<in> set rqs \<and> may_change A st rq"
  using assms(2,3)
proof (induction rqs arbitrary: s resps)
  case Nil
  then show ?case by simp
next
  case (Cons rq rqs)
  obtain resp s1 resps' where one: "build_router A E clock st rq s = (resp, s1)"
    and rest: "serve A E clock st rqs s1 = (resps', s')"
    using Cons.prems(1) by (auto split: prod.splits)
  show ?case
  proof (cases "w_fs (sr_world s1) = w_fs (sr_world s)")
    case True
    with Cons.IH [OF rest] Cons.prems(2) show ?thesis by auto
  next
    case False
    then have "may_change A st rq" using router_quiet [OF assms(1), of A rq clock s] one by auto
    then show ?thesis by auto
  qed
qed

lemma api_changes_need_operator_example:
  "may_change sample_api (ops_state calm) ops_put"
proof -
  obtain s' where run: "serve sample_api calm (\<lambda>_. None) (ops_state calm) [ops_put] fresh_server =
      ([(200, Text (''node intent applied'' @ [newline]))], s')"
    and "content (w_fs (sr_world s')) (path_of NODE_INTENT_PATH) = Some ''I''"
    by (rule sample_serve)
  then have "w_fs (sr_world s') \<noteq> w_fs (sr_world fresh_server)" by (auto simp: fresh_server_def empty_content)
  from api_changes_need_operator [OF ops_workload run this] show ?thesis by simp
qed

text \<open>
  The outcomes of \<open>PUT /v1/config\<close>. An invalid intent is 400 and changes nothing. Where the
  answer is 500 because the intent could not be serialised or persisted, no file of the node has
  changed. Otherwise the intent was persisted before the workload was touched and is still
  there, whether reconciling succeeded (200) or not (500).
\<close>

lemma put_config_outcomes:
  assumes "as_workload st = new_profile (al_from_pem A) E p" and "wf_fs (w_fs (sr_world s))"
    and "al_extract A rq = Inr raw" and "put_config A E st rq s = ((code, body), s')"
  shows "(code = 400 \<longleftrightarrow> isl (validate (al_from_pem A) (intent_of_raw raw))) \<and>
    (code = 400 \<longrightarrow> s' = s) \<and>
    (code = 500 \<longrightarrow>
       (\<forall>q. is_target q \<longrightarrow> content (w_fs (sr_world s')) q = content (w_fs (sr_world s)) q) \<or>
       (\<exists>bytes. al_to_vec A (intent_of_raw raw) = Inr bytes \<and>
          content (w_fs (sr_world s')) (path_of NODE_INTENT_PATH) = Some bytes)) \<and>
    (code = 200 \<longrightarrow> (\<exists>bytes. al_to_vec A (intent_of_raw raw) = Inr bytes \<and>
          content (w_fs (sr_world s')) (path_of NODE_INTENT_PATH) = Some bytes)) \<and>
    code \<in> {200, 400, 500}"
proof -
  let ?i = "intent_of_raw raw" and ?p = "path_of NODE_INTENT_PATH"
  have run: "apply_intent A E st ?i s = ((code, body), s')" using assms(3,4) by (simp add: put_config_def)
  from run show ?thesis
  proof (cases rule: apply_intent_cases)
    case (unpersisted bytes e)
    have "content (w_fs (sr_world s')) q = content (w_fs (sr_world s)) q" if "is_target q" for q
    proof (cases "q = ?p")
      case True
      then show ?thesis using wa.put_fail [OF intent_path(1) assms(2) unpersisted(4)] by simp
    next
      case False
      from wa.put_frame [OF intent_path(1) that False assms(2), of E bytes True] unpersisted(4) show ?thesis by simp
    qed
    with unpersisted show ?thesis by simp
  next
    case (reconciled bytes w1 r)
    have w1: "wf_fs (w_fs w1)" using wa.put_ok [OF intent_path(1) assms(2), of E bytes True] reconciled(3) by simp
    have "content (w_fs w1) ?p = Some bytes" by (rule wa.put_done [OF intent_path(1) assms(2) reconciled(3)])
    with reconcile_keeps_intent [OF w1, of "al_from_pem A" E p "Some ?i"] reconciled(4)
    have "content (w_fs (sr_world s')) ?p = Some bytes" by (simp add: assms(1))
    with reconciled show ?thesis by auto
  qed auto
qed


lemma put_config_outcomes_example:
  "content (w_fs (sr_world (snd (put_config sample_api calm (ops_state calm) ops_put fresh_server))))
     (path_of NODE_INTENT_PATH) = Some ''I''"
proof -
  have fresh: "sr_world fresh_server = world_of empty_fs" by (simp add: fresh_server_def)
  obtain s' where run: "put_config sample_api calm (ops_state calm) ops_put fresh_server =
      ((200, Text (''node intent applied'' @ [newline])), s')"
    by (rule sample_put [OF fresh])
  have "wf_fs (w_fs (sr_world fresh_server))" using empty_world(1) by (simp add: fresh)
  from put_config_outcomes [OF ops_workload this ops_extract run]
  have "\<exists>bytes. al_to_vec sample_api (intent_of_raw sample_raw) = Inr bytes \<and>
      content (w_fs (sr_world s')) (path_of NODE_INTENT_PATH) = Some bytes" by simp
  then show ?thesis by (auto simp: run sample_raw_intent sample_api_sel)
qed

text \<open>
  C24. The accepted intent survives a restart: after a 200, the next start of the node that can read
  the file loads exactly that intent, and re-applying it changes no file.
\<close>

theorem intent_survives_restart:
  assumes "codec_law A" and "as_workload st = new_profile (al_from_pem A) E K8s"
    and "wf_fs (w_fs (sr_world s))" and "al_extract A rq = Inr raw"
    and "put_config A E st rq s = ((200, body), s')"
    and "w_fs w2 = w_fs (sr_world s')"
    and "env_fault E2 (w_trace w2) (ReadFile (path_of NODE_INTENT_PATH)) = None"
    and "load_node_intent A E2 w2 = (Inr d, w3)"
    and "k8s_reconcile (al_from_pem A) E2 d w3 = (Inr u, w4)" and "is_target q"
  shows "d = Some (intent_of_raw raw) \<and> content (w_fs w4) q = content (w_fs w2) q"
proof -
  let ?i = "intent_of_raw raw" and ?p = "path_of NODE_INTENT_PATH"
  have run: "apply_intent A E st ?i s = ((200, body), s')" using assms(4,5) by (simp add: put_config_def)
  from run obtain bytes w1 where bytes: "al_to_vec A ?i = Inr bytes"
    and w1: "write_atomic E ?p bytes True (sr_world s) = (Inr (), w1)"
    and rec: "k8s_reconcile (al_from_pem A) E (Some ?i) w1 = (Inr (), sr_world s')"
    by (cases rule: apply_intent_cases) (auto simp: assms(2) new_profile_def split: if_splits sum.splits dest!: not_isl_unit)
  have ok1: "wf_fs (w_fs w1)" using wa.put_ok [OF intent_path(1) assms(3), of E bytes True] w1 by simp
  have ok2: "wf_fs (w_fs (sr_world s'))" using k8s.keeps_wf [OF ok1, of "al_from_pem A" E "Some ?i"] rec by simp
  have "content (w_fs w1) ?p = Some bytes" by (rule wa.put_done [OF intent_path(1) assms(3) w1])
  then have "content (w_fs (sr_world s')) ?p = Some bytes"
    using k8s.frame [OF ok1 intent_path, of "al_from_pem A" E "Some ?i"] rec by simp
  from load_persisted [OF assms(1) bytes _ assms(7)] this assms(6,8)
  have d: "d = Some ?i" and w3: "w_fs w3 = w_fs (sr_world s')" by auto
  have "content (w_fs w4) q = content (w_fs (sr_world s')) q"
  proof (cases "q \<in> k8s_owned")
    case True
    then obtain it where it: "it \<in> set (k8s_items ?i)" "q = item_path it"
      using k8s_items_facts(3) [of ?i] by blast
    have ok3: "wf_fs (w_fs w3)" using ok2 by (simp add: w3)
    from k8s_done [OF ok3 assms(9) [unfolded d] it(1)] k8s_done [OF ok1 rec it(1)] it(2) show ?thesis by simp
  next
    case False
    with k8s.frame [OF _ assms(10) False, of w3 "al_from_pem A" E2 d] ok2 assms(9) show ?thesis by (simp add: w3)
  qed
  with d assms(6) show ?thesis by simp
qed

theorem intent_survives_restart_witness:
  "(let w2 = sr_world (snd (put_config sample_api calm (ops_state calm) ops_put fresh_server))
    in fst (load_node_intent sample_api calm w2) = Inr (Some sample_intent))"
proof -
  let ?p = "path_of NODE_INTENT_PATH"
  have fresh: "sr_world fresh_server = world_of empty_fs" by (simp add: fresh_server_def)
  obtain s' where run: "put_config sample_api calm (ops_state calm) ops_put fresh_server =
      ((200, Text (''node intent applied'' @ [newline])), s')"
    and flat: "flat kubelet_dir (w_fs (sr_world s'))" and c: "content (w_fs (sr_world s')) ?p = Some ''I''"
    by (rule sample_put [OF fresh])
  have ok: "wf_fs (w_fs (sr_world fresh_server))" using empty_world(1) by (simp add: fresh)
  have nf: "env_fault calm t o' = None" for t o' by (simp add: calm_def)
  obtain w3 where w3: "load_node_intent sample_api calm (sr_world s') = (Inr (Some sample_intent), w3)" "w_fs w3 = w_fs (sr_world s')"
    using load_persisted [OF sample_codec sample_api_sel(2) c nf] by blast
  obtain w4 where w4: "k8s_reconcile (al_from_pem sample_api) calm (Some sample_intent) w3 = (Inr (), w4)"
    using k8s_reconcile_succeeds [OF sample_intent_valid, of w3 calm] flat w3(2) nf
    by (cases "k8s_reconcile sample_pem calm (Some sample_intent) w3") (simp add: sample_api_sel)
  from intent_survives_restart [OF sample_codec ops_workload ok ops_extract run refl nf w3(1) w4 intent_path(1)] w3(1)
  show ?thesis by (simp add: run sample_raw_intent)
qed

end
