(* ===== verification/Noded_Run.thy ===== *)
theory Noded_Run
  imports Pkcs11 Server_Cert Api_Safety
begin

text \<open>
  The life of \<open>noded\<close> (crates/noded/src/main.rs): \<open>main\<close>, \<open>run\<close> up to the listening socket with its two
  retry loops. What follows, the running node, is in \<open>Noded_Serve\<close>.
\<close>

section \<open>Everything that is not the program\<close>

text \<open>
  \<open>nl_verify t roots chain\<close>: the client certificate verifier of rustls, built on \<open>roots\<close>, accepts
  \<open>chain\<close> at the point of the run whose trace is \<open>t\<close>.
\<close>

record noded_lib =
  nl_est :: est_lib
  nl_pk :: pk_lib
  nl_rand :: "nat \<Rightarrow> nat"
  nl_tls :: tls_lib
  nl_api :: api_lib
  nl_clock :: "event list \<Rightarrow> nat option"
  nl_fips :: bool
  nl_install :: "string + unit"
  nl_runtime :: "err + unit"
  nl_yaml :: config_parser
  nl_toml :: config_parser
  nl_show_addr :: "sock_addr \<Rightarrow> string"
  nl_bind :: "event list \<Rightarrow> sock_addr \<Rightarrow> err + unit"
  nl_from_der :: "der \<Rightarrow> subject option"
  nl_verify :: "event list \<Rightarrow> der list \<Rightarrow> der list \<Rightarrow> bool"

section \<open>Retrying\<close>

text \<open>
  The loop around enrollment: \<open>k\<close> is how many more attempts may follow a failed one,
  \<open>MAX - attempt\<close> in the code. Between two attempts it sleeps five seconds. The result is the last
  attempt's.
\<close>

fun retry :: "env \<Rightarrow> nat \<Rightarrow> unit cmd \<Rightarrow> (err + unit) cmd" where
  "retry E 0 m = io_attempt m"
| "retry E (Suc k) m =
     io_bind (io_attempt m) (\<lambda>r.
       case r of
         Inr _ \<Rightarrow> io_ret r
       | Inl _ \<Rightarrow> io_then (sleep E 5000) (retry E k m))"

definition BOOTSTRAP_ATTEMPTS :: nat where "BOOTSTRAP_ATTEMPTS = 30"
definition REENROLL_ATTEMPTS :: nat where "REENROLL_ATTEMPTS = 6"

definition bootstrap_retrying :: "noded_lib \<Rightarrow> env \<Rightarrow> noded_config \<Rightarrow> tpm_identity option \<Rightarrow> unit cmd" where
  "bootstrap_retrying B E c tpm =
     io_bind (retry E (BOOTSTRAP_ATTEMPTS - 1) (bootstrap_enroll (nl_est B) E c tpm)) (\<lambda>r.
       case r of Inr _ \<Rightarrow> io_ret () | Inl err \<Rightarrow> io_err (Ctx ''EST bootstrap enrollment'' err))"

text \<open>At start a renewal is tried where it is due; its failure is only logged.\<close>

definition renew_at_start :: "noded_lib \<Rightarrow> env \<Rightarrow> noded_config \<Rightarrow> tpm_identity option \<Rightarrow> unit cmd" where
  "renew_at_start B E c tpm =
     io_bind (io_attempt (cert_needs_renewal (nl_est B) (nl_clock B) E (nc_cert_file c))) (\<lambda>due.
       case due of
         Inr True \<Rightarrow> io_ignore (retry E (REENROLL_ATTEMPTS - 1) (reenroll (nl_est B) E c tpm))
       | Inr False \<Rightarrow> io_ret ()
       | Inl _ \<Rightarrow> io_ret ())"

section \<open>Starting\<close>

record node =
  nd_state :: app_state
  nd_resolver :: reloadable_cert
  nd_tls :: tls_server_config
  nd_tpm :: "tpm_identity option"

definition open_tpm :: "noded_lib \<Rightarrow> env \<Rightarrow> noded_config \<Rightarrow> tpm_identity option cmd" where
  "open_tpm B E c =
     (case nc_tpm c of
        Some cfg \<Rightarrow>
          io_bind (io_ctx ''open TPM-resident node key'' (pkcs11_open (nl_pk B) (nl_rand B) E cfg))
            (\<lambda>i. io_ret (Some i))
      | None \<Rightarrow> io_ret None)"

definition load_resolver :: "noded_lib \<Rightarrow> env \<Rightarrow> noded_config \<Rightarrow> tpm_identity option \<Rightarrow> reloadable_cert cmd" where
  "load_resolver B E c tpm =
     (case tpm of
        Some i \<Rightarrow> io_ctx ''load node server certificate (TPM)''
          (from_tpm (nl_est B) (nl_tls B) True E (nc_cert_file c) (signing_key_of i))
      | None \<Rightarrow> io_ctx ''load node server certificate''
          (from_files (nl_est B) (nl_tls B) True E (nc_cert_file c) (nc_key_file c)))"

text \<open>After the identity is there: certificate, TLS, the persisted intent, the socket.\<close>

definition bring_up :: "noded_lib \<Rightarrow> env \<Rightarrow> noded_config \<Rightarrow> tpm_identity option \<Rightarrow> node cmd" where
  "bring_up B E c tpm =
     (let workload = new_profile (al_from_pem (nl_api B)) E (nc_profile c) in
      io_bind (load_resolver B E c tpm) (\<lambda>resolver.
      io_bind (io_ctx ''build TLS config'' (build_server_config (nl_est B) (nl_tls B) E c)) (\<lambda>tls.
      io_bind (load_node_intent (nl_api B) E) (\<lambda>intent.
      io_then (io_ignore (wl_reconcile workload intent))
      (io_then (io_ctx (''bind '' @ nl_show_addr B (nc_listen_addr c))
         (lib_call ''bind'' [] (\<lambda>t. nl_bind B t (nc_listen_addr c))))
        (io_ret \<lparr>nd_state = \<lparr>as_config = c, as_workload = workload\<rparr>, nd_resolver = resolver,
                 nd_tls = tls, nd_tpm = tpm\<rparr>))))))"

definition noded_start :: "noded_lib \<Rightarrow> env \<Rightarrow> noded_config \<Rightarrow> node cmd" where
  "noded_start B E c =
     io_bind (open_tpm B E c) (\<lambda>tpm.
     io_bind (node_pki_present E c) (\<lambda>present.
     io_then (if present then renew_at_start B E c tpm else bootstrap_retrying B E c tpm)
       (bring_up B E c tpm)))"

definition set_var :: "string \<Rightarrow> string \<Rightarrow> unit cmd" where
  "set_var name val = lib_call ''set_var'' [name, val] (\<lambda>_. Inr ())"

text \<open>Built with the feature \<open>fips\<close>, a provider that cannot be installed ends the process.\<close>

definition install_crypto_provider :: "noded_lib \<Rightarrow> unit cmd" where
  "install_crypto_provider B =
     (if nl_fips B
      then (case nl_install B of
              Inl err \<Rightarrow> io_err (Msg (''install FIPS crypto provider: '' @ err))
            | Inr _ \<Rightarrow> io_ret ())
      else io_ret ())"

definition noded_main :: "noded_lib \<Rightarrow> env \<Rightarrow> string option \<Rightarrow> node cmd" where
  "noded_main B E arg =
     io_then (install_crypto_provider B)
     (io_bind (io_ctx ''load config'' (load_noded_config (nl_yaml B) (nl_toml B) E
        (path_of (or_default ''/etc/nodeos/noded.yaml'' arg)))) (\<lambda>c.
      io_then (case nc_tpm c of
          None \<Rightarrow> io_ret ()
        | Some t \<Rightarrow>
            io_then (io_ctx (''create PKCS#11 store '' @ show_comps (tc_store t)) (create_dir_all E (tc_store t)))
            (io_then (set_var ''TPM2_PKCS11_STORE'' (show_comps (tc_store t)))
              (set_var ''TPM2_PKCS11_TCTI'' (tc_tcti t))))
      (io_then (io_ctx ''build tokio runtime'' (io_lift (nl_runtime B)))
        (noded_start B E c))))"

text \<open>
  A node that is up has passed the crypto check and its configuration has been accepted, so what
  holds of \<open>noded_start\<close> holds of the process.
\<close>

lemma noded_main_started:
  assumes "noded_main B E arg w = (Inr nd, w')"
  obtains c w1 w2 where "nl_fips B \<Longrightarrow> nl_install B = Inr ()"
    and "load_noded_config (nl_yaml B) (nl_toml B) E (path_of (or_default ''/etc/nodeos/noded.yaml'' arg)) w = (Inr c, w1)"
    and "noded_start B E c w2 = (Inr nd, w')"
  using assms unfolding noded_main_def
  by (elim io_then_InrE io_bind_InrE, intro that)
    (auto simp: install_crypto_provider_def io_ret_def io_err_def split: if_splits sum.splits)

section \<open>Retrying, bounded\<close>







section \<open>The token\<close>

lemma emits_retry:
  assumes "emits Q m" and "\<And>ms r. Q (Sleep ms, r)"
  shows "emits Q (retry E k m)"
proof (induction k)
  case 0
  show ?case unfolding retry.simps using assms(1) by (rule emits_attempt)
next
  case (Suc k)
  have "emits Q (case r of Inr _ \<Rightarrow> io_ret r | Inl _ \<Rightarrow> io_then (sleep E 5000) (retry E k m))" for r
    using Suc by (cases r) (simp_all only: sum.case, rule emits_then, rule emits_sleep, rule assms(2), assumption, rule emits_ret)
  then show ?case unfolding retry.simps using assms(1) by (intro emits_bind emits_attempt)
qed

text \<open>The client, if the event creates one, talks to the configured server with the node's certificate.\<close>

abbreviation by_cert :: "noded_config \<Rightarrow> event \<Rightarrow> bool" where
  "by_cert c \<equiv> client_as c [''client-cert'', ''client-resolver'']"

lemma by_cert_quiet: "client_event e = None \<Longrightarrow> by_cert c e"
  by (rule client_as_quiet)

text \<open>Everything but enrolling creates no client at all.\<close>

abbreviation silent :: "event \<Rightarrow> bool" where
  "silent e \<equiv> client_event e = None"

lemma silent_check: "emits silent (cert_needs_renewal L clock E p)"
proof -
  have "emits silent (\<lambda>w. case clock (w_trace w) of None \<Rightarrow> (Inl e, w) | Some now \<Rightarrow> (Inr (f now), w))"
    for e and f :: "nat \<Rightarrow> bool"
    by (auto simp: emits_def split: option.split)
  then show ?thesis
    unfolding cert_needs_renewal_def by (intro emits_rules) simp
qed

lemma silent_load_certs: "emits silent (build_certified_key L T prov E p src)"
proof -
  have "emits silent (load_signing_key T prov E src)"
    unfolding load_signing_key_def load_key_def
    by (cases src) (auto intro!: emits_rules split: option.split)
  then show ?thesis
    unfolding build_certified_key_def load_certs_def by (intro emits_rules) simp_all
qed

lemma silent_reconcile: "emits silent (wl_reconcile (new_profile pem E p) d)"
proof -
  have wa: "emits silent (write_atomic E q x b)" for q x b
    by (rule emits_write_atomic_quiet)
  show ?thesis
    by (cases p; cases d)
      (auto simp: new_profile_def k8s_reconcile_def kvm_reconcile_def intro!: emits_rules wa)
qed

lemma silent_load_intent: "emits silent (load_node_intent A E)"
proof -
  have "emits silent (case r of
         Inl _ \<Rightarrow> io_ret None
       | Inr data \<Rightarrow>
           (case al_from_slice A data of Inr raw \<Rightarrow> io_ret (Some (intent_of_raw raw)) | Inl _ \<Rightarrow> io_ret None))" for r
    by (auto split: sum.split intro!: emits_rules)
  then show ?thesis unfolding load_node_intent_def by (intro emits_rules) simp
qed

lemma silent_bring_up: "emits silent (bring_up B E c tpm)"
proof -
  have lr: "emits silent (load_resolver B E c tpm)"
    unfolding load_resolver_def from_files_def from_tpm_def reloadable_new_def
    by (cases tpm) (auto intro!: emits_bind emits_ctx emits_ret silent_load_certs)
  have ts: "emits silent (build_server_config L T E c)" for L T
    unfolding build_server_config_def load_client_roots_def load_certs_def
    by (intro emits_rules) simp_all
  show ?thesis
    unfolding bring_up_def Let_def
    by (intro emits_bind emits_then emits_ctx emits_ignore emits_ret lr ts silent_load_intent silent_reconcile emits_lib)
      simp
qed

lemmas by_cert_of_silent = emits_weaken [OF _ by_cert_quiet]

lemmas emits_check = silent_check [THEN by_cert_of_silent]

lemmas emits_load_certs = silent_load_certs [THEN by_cert_of_silent]

lemmas emits_reconcile = silent_reconcile [THEN by_cert_of_silent]

lemmas emits_bring_up = silent_bring_up [THEN by_cert_of_silent]

lemma emits_renew_at_start: "emits (by_cert c) (renew_at_start B E c tpm)"
proof -
  have r: "emits (by_cert c) (retry E k (reenroll (nl_est B) E c tpm))" for k
    by (rule emits_retry [OF reenroll_clients]) (simp add: client_as_def)
  have "emits (by_cert c) (case due of
         Inr True \<Rightarrow> io_ignore (retry E (REENROLL_ATTEMPTS - 1) (reenroll (nl_est B) E c tpm))
       | Inr False \<Rightarrow> io_ret ()
       | Inl _ \<Rightarrow> io_ret ())" for due
    by (auto split: sum.split bool.split intro!: emits_rules r)
  then show ?thesis unfolding renew_at_start_def by (intro emits_bind emits_attempt emits_check)
qed

text \<open>A started node has the workload of its profile and an unpoisoned resolver.\<close>

lemma load_resolver_fresh: "load_resolver B E c tpm w = (Inr rc, w') \<Longrightarrow> \<not> rc_poisoned rc"
  unfolding load_resolver_def from_files_def from_tpm_def reloadable_new_def
  by (cases tpm) (auto elim!: io_bind_InrE)

lemma bring_up_node:
  assumes "bring_up B E c tpm w = (Inr nd, w')"
  shows "nd_state nd = \<lparr>as_config = c, as_workload = new_profile (al_from_pem (nl_api B)) E (nc_profile c)\<rparr> \<and>
    \<not> rc_poisoned (nd_resolver nd) \<and> nd_tpm nd = tpm"
  using assms unfolding bring_up_def Let_def
  by (auto elim!: io_bind_InrE io_then_InrE dest!: load_resolver_fresh)

lemma noded_start_node:
  assumes "noded_start B E c w = (Inr nd, w')"
  shows "nd_state nd = \<lparr>as_config = c, as_workload = new_profile (al_from_pem (nl_api B)) E (nc_profile c)\<rparr> \<and>
    \<not> rc_poisoned (nd_resolver nd)"
  using assms unfolding noded_start_def by (auto elim!: io_bind_InrE io_then_InrE dest!: bring_up_node)

section \<open>An example\<close>

text \<open>The sample libraries together, with an early clock; the socket is the parameter \<open>b\<close>.\<close>

definition sample_libs :: "(err + unit) \<Rightarrow> noded_lib" where
  "sample_libs b =
     \<lparr>nl_est = sample_lib, nl_pk = sample_token, nl_rand = (\<lambda>_. 0), nl_tls = sample_tls, nl_api = sample_api,
      nl_clock = (\<lambda>_. Some 100), nl_fips = True, nl_install = Inr (), nl_runtime = Inr (), nl_yaml = (\<lambda>_. Inl (Lib ''yaml'')),
      nl_toml = (\<lambda>_. Inl (Lib ''toml'')), nl_show_addr = (\<lambda>_. ''a''), nl_bind = (\<lambda>_ _. b),
      nl_from_der = (\<lambda>der. Some [(''2.5.4.3'', der)]), nl_verify = (\<lambda>_ roots chain. chain \<noteq> [] \<and> last chain \<in> set roots)\<rparr>"

lemma sample_libs_sel:
  "nl_est (sample_libs b) = sample_lib" "nl_tls (sample_libs b) = sample_tls" "nl_api (sample_libs b) = sample_api"
  "nl_clock (sample_libs b) t = Some 100" "nl_show_addr (sample_libs b) x = ''a''" "nl_bind (sample_libs b) t x = b"
  by (simp_all add: sample_libs_def)

lemma sample_tls_sel: "tl_private_key sample_tls pem = Inr (Some pem)" "tl_load_key sample_tls k = Inr (LoadedKey k)"
  "tl_add_root sample_tls rs c = Inr ()" "tl_verifier sample_tls rs = Inr ()"
  by (simp_all add: sample_tls_def)

lemma sample_start_facts:
  assumes "w_fs w = w_fs enrolled"
  shows "cert_needs_renewal sample_lib (nl_clock (sample_libs b)) calm (nc_cert_file sample_conf) w =
      (Inr False, log (ReadFile (nc_cert_file sample_conf)) Done (put_fs (w_fs w) w))"
    and "\<exists>w'. node_pki_present calm sample_conf w = (Inr True, w') \<and> w_fs w' = w_fs enrolled"
    and "\<exists>rc w'. load_resolver (sample_libs b) calm sample_conf None w = (Inr rc, w') \<and> w_fs w' = w_fs enrolled"
    and "\<exists>w'. build_server_config sample_lib sample_tls calm sample_conf w = (Inr \<lparr>ts_client_roots = [''ca'']\<rparr>, w') \<and>
      w_fs w' = w_fs enrolled"
proof -
  have present: "cur (w_fs enrolled) p \<noteq> Absent" if "content (w_fs enrolled) p = Some d" for p d
    using that by (auto simp: content_def)
  have files: "cur (w_fs enrolled) (nc_cert_file sample_conf) \<noteq> Absent" "cur (w_fs enrolled) (nc_key_file sample_conf) \<noteq> Absent"
    "cur (w_fs enrolled) (nc_client_ca sample_conf) \<noteq> Absent"
    using present [OF enrolled_facts(4)] present [OF enrolled_facts(5)] present [OF enrolled_facts(6)] by simp_all
  show "cert_needs_renewal sample_lib (nl_clock (sample_libs b)) calm (nc_cert_file sample_conf) w =
      (Inr False, log (ReadFile (nc_cert_file sample_conf)) Done (put_fs (w_fs w) w))"
    using assms enrolled_facts(4)
    by (simp add: cert_needs_renewal_def calm_read sample_lib_sel sample_libs_sel needs_renewal_def io_defs)
  show "\<exists>w'. node_pki_present calm sample_conf w = (Inr True, w') \<and> w_fs w' = w_fs enrolled"
    using assms files by (simp add: node_pki_present_def path_exists_def io_defs Let_def)
  show "\<exists>rc w'. load_resolver (sample_libs b) calm sample_conf None w = (Inr rc, w') \<and> w_fs w' = w_fs enrolled"
    using assms enrolled_facts(4,5)
    by (simp add: load_resolver_def from_files_def reloadable_new_def build_certified_key_def load_signing_key_def
        load_certs_def load_key_def calm_read sample_lib_sel sample_libs_sel sample_tls_sel io_defs)
  show "\<exists>w'. build_server_config sample_lib sample_tls calm sample_conf w = (Inr \<lparr>ts_client_roots = [''ca'']\<rparr>, w') \<and>
      w_fs w' = w_fs enrolled"
    using assms enrolled_facts(6)
    by (simp add: build_server_config_def load_client_roots_def load_certs_def calm_read sample_lib_sel sample_tls_sel io_defs)
qed

text \<open>Enrollment has not touched the directories of the intent and of the kubelet.\<close>

lemma enrolled_dirs:
  "flat intent_dir (w_fs enrolled)" "flat kubelet_dir (w_fs enrolled)"
  "content (w_fs enrolled) (path_of NODE_INTENT_PATH) = None"
proof -
  obtain w1 where w1: "w_fs w1 = w_fs sample_disk"
    and run: "bootstrap_enroll sample_lib calm sample_conf None sample_disk =
      put_items (write_atomic calm) (identity_items sample_conf ''leaf'' ''key'' @ [ca_item sample_conf ''ca'']) w1"
    by (rule sample_bootstrap)
  let ?its = "identity_items sample_conf ''leaf'' ''key'' @ [ca_item sample_conf ''ca'']"
  have succ: "put_items (write_atomic calm) ?its w1 = (Inr (), enrolled)" using run enrolled_facts(1) by simp
  have disk: "flat d (w_fs w1)" if "path_of ''/e'' \<notin> set (path_prefixes d)" for d
    unfolding w1 sample_disk_def world_of_def using that by (simp add: flat_add_file flat_empty)
  have out: "list_all (\<lambda>it. elsewhere intent_dir (item_path it)) ?its" "list_all (\<lambda>it. elsewhere kubelet_dir (item_path it)) ?its"
    "path_of ''/e'' \<notin> set (path_prefixes intent_dir)" "path_of ''/e'' \<notin> set (path_prefixes kubelet_dir)"
    "list_all (\<lambda>it. item_path it \<noteq> path_of NODE_INTENT_PATH) ?its" "content (w_fs sample_disk) (path_of NODE_INTENT_PATH) = None"
    by code_simp+
  show "flat intent_dir (w_fs enrolled)" by (rule keepsD [OF flat_puts [OF out(1)] disk [OF out(3)] succ])
  show "flat kubelet_dir (w_fs enrolled)" by (rule keepsD [OF flat_puts [OF out(2)] disk [OF out(4)] succ])
  have "content (w_fs (snd (put_items (write_atomic calm) ?its w1))) (path_of NODE_INTENT_PATH) =
      content (w_fs w1) (path_of NODE_INTENT_PATH)"
    using sample_items out(5) sample_disk_facts(1) w1
    by (intro wa.puts_frame intent_path) (auto simp: list_all_iff)
  then show "content (w_fs enrolled) (path_of NODE_INTENT_PATH) = None" using out(6) by (simp add: succ w1)
qed

lemma sample_intent_file:
  assumes "w_fs w = w_fs enrolled"
  shows "\<exists>w'. load_node_intent sample_api calm w = (Inr None, w') \<and> w_fs w' = w_fs enrolled"
  using enrolled_dirs(3) assms
  by (auto simp: load_node_intent_def io_bind_def io_attempt_run read_file_def prim_def fs_read_def content_def
      split: entry.splits)

text \<open>The sample node starts, unless the socket cannot be bound.\<close>

lemma sample_node_up:
  obtains w1 r w' where "node_pki_present calm sample_conf enrolled = (Inr True, w1)"
    and "noded_start (sample_libs b) calm sample_conf enrolled = (r, w')" and "isl r \<longleftrightarrow> isl b"
    and "w_fs w' = w_fs enrolled" and "\<And>nd. r = Inr nd \<Longrightarrow> ts_client_roots (nd_tls nd) = [''ca'']"
proof -
  let ?B = "sample_libs b"
  obtain w1 where w1: "node_pki_present calm sample_conf enrolled = (Inr True, w1)" "w_fs w1 = w_fs enrolled"
    using sample_start_facts(2) [OF refl] by blast
  define w2 where "w2 = log (ReadFile (nc_cert_file sample_conf)) Done (put_fs (w_fs w1) w1)"
  have w2: "w_fs w2 = w_fs enrolled" by (simp add: w2_def w1)
  obtain rc w3 where w3: "load_resolver ?B calm sample_conf None w2 = (Inr rc, w3)" "w_fs w3 = w_fs enrolled"
    using sample_start_facts(3) [OF w2] by blast
  obtain w4 where w4: "build_server_config sample_lib sample_tls calm sample_conf w3 = (Inr \<lparr>ts_client_roots = [''ca'']\<rparr>, w4)"
    "w_fs w4 = w_fs enrolled"
    using sample_start_facts(4) [OF w3(2)] by blast
  obtain w5 where w5: "load_node_intent sample_api calm w4 = (Inr None, w5)" "w_fs w5 = w_fs enrolled"
    using sample_intent_file [OF w4(2)] by blast
  have "renew_at_start ?B calm sample_conf None w1 = (Inr (), w2)"
    using sample_start_facts(1) [OF w1(2), of b]
    by (simp add: renew_at_start_def io_bind_def io_attempt_run sample_libs_sel w2_def)
  then have "noded_start ?B calm sample_conf enrolled = bring_up ?B calm sample_conf None w2"
    using w1(1) by (simp add: noded_start_def open_tpm_def sample_conf_def io_bind_def io_then_def)
  moreover have "wl_reconcile (new_profile sample_pem calm (nc_profile sample_conf)) None w5 = (Inr (), w5)"
    by (simp add: sample_conf_def new_profile_def k8s_reconcile_def)
  then obtain r w' where "bring_up ?B calm sample_conf None w2 = (r, w')" "isl r \<longleftrightarrow> isl b" "w_fs w' = w_fs w5"
    "\<And>nd. r = Inr nd \<Longrightarrow> ts_client_roots (nd_tls nd) = [''ca'']"
    using w3(1) w4(1) w5(1)
    by (cases b) (simp_all add: bring_up_def io_bind_def io_then_def io_ctx_def io_ignore_run lib_call_def sample_libs_sel
        sample_api_sel Let_def)
  ultimately show thesis using w1(1) w5(2) that by simp
qed

section \<open>A start on given files\<close>

text \<open>What a \<open>write_identity\<close> that failed between its renames has left.\<close>

lemma half_written_files:
  assumes "pki_paths_ok c" and "wf_fs (w_fs w)" and "write_identity L E c cert key w = (Inl (Ctx ''write node key'' e), w1)"
    and "content (w_fs w) (nc_key_file c) = Some old" and "content (w_fs w) (nc_client_ca c) = Some ca"
    and "el_to_pem L cert = Inr pem"
  shows "content (w_fs w1) (nc_cert_file c) = Some pem" and "content (w_fs w1) (nc_key_file c) = Some old"
    and "content (w_fs w1) (nc_client_ca c) = Some ca"
proof -
  show "content (w_fs w1) (nc_cert_file c) = Some pem" "content (w_fs w1) (nc_key_file c) = Some old"
    using identity_half_written [OF assms(1-3)] assms(4,6) by auto
  have "keeps (\<lambda>v. wf_fs (w_fs v) \<and> content (w_fs v) (nc_client_ca c) = Some ca) (write_identity L E c cert key)"
    unfolding write_identity_def using assms(1)
    by (intro keeps_rules write_atomic_keeps_other) (auto simp: pki_paths_ok_def)
  from keepsD [OF this _ assms(3)] assms(2,5) show "content (w_fs w1) (nc_client_ca c) = Some ca" by simp
qed

lemma read_file_content:
  assumes "content (w_fs w) p = Some d" and "\<And>t q. env_fault E t (ReadFile q) = None"
  shows "read_file E p w = (Inr d, log (ReadFile p) Done (put_fs (w_fs w) w))"
  using assms by (auto simp: read_file_def prim_def fs_read_def content_def split: entry.splits)

lemma pki_found:
  assumes "content (w_fs w) (nc_cert_file c) = Some pem" and "content (w_fs w) (nc_key_file c) = Some key"
    and "content (w_fs w) (nc_client_ca c) = Some ca" and "nc_tpm c = None" and "\<And>t p. env_fault E t (Exists p) = None"
  obtains w' where "node_pki_present E c w = (Inr True, w')" and "w_fs w' = w_fs w"
proof -
  have present: "cur (w_fs w) p \<noteq> Absent" if "content (w_fs w) p = Some d" for p d
    using that by (auto simp: content_def)
  show thesis
    using that present [OF assms(1)] present [OF assms(2)] present [OF assms(3)] assms(4,5)
    by (simp add: node_pki_present_def path_exists_def io_defs Let_def)
qed

lemma renewal_not_due:
  assumes "content (w_fs w) (nc_cert_file c) = Some pem" and "\<And>t q. env_fault E t (ReadFile q) = None"
    and "el_validity (nl_est B) pem = Inr (nb, na)" and "\<And>t. nl_clock B t = Some now" and "\<not> needs_renewal nb na now"
  shows "\<exists>w'. renew_at_start B E c tpm w = (Inr (), w') \<and> w_fs w' = w_fs w \<and>
    (\<exists>es. w_trace w' = w_trace w @ es \<and> list_all silent es)"
  using assms(3-5) read_file_content [OF assms(1,2)]
  by (simp add: renew_at_start_def cert_needs_renewal_def io_defs)

text \<open>A node comes up on the certificate and key in its files, matching or not.\<close>

lemma bring_up_files:
  assumes "content (w_fs w) (nc_cert_file c) = Some pem" and "content (w_fs w) (nc_key_file c) = Some key"
    and "\<And>t q. env_fault E t (ReadFile q) = None" and "el_pem_chain (nl_est B) pem = Inr chain"
    and "tl_private_key (nl_tls B) key = Inr (Some der)" and "tl_load_key (nl_tls B) der = Inr k"
    and "\<And>v. w_fs v = f \<Longrightarrow> \<not> isl (fst (build_server_config (nl_est B) (nl_tls B) E c v))"
    and "\<And>t. nl_bind B t (nc_listen_addr c) = Inr ()" and "w_fs w = f"
  obtains nd w' where "bring_up B E c None w = (Inr nd, w')" and "rc_current (nd_resolver nd) = \<lparr>ck_certs = chain, ck_key = k\<rparr>"
proof -
  obtain rc w1 where w1: "load_resolver B E c None w = (Inr rc, w1)" "w_fs w1 = w_fs w"
    "rc_current rc = \<lparr>ck_certs = chain, ck_key = k\<rparr>"
    using assms(1,2,4-6)
    by (simp add: load_resolver_def from_files_def reloadable_new_def build_certified_key_def load_signing_key_def
        load_certs_def load_key_def read_file_content [OF _ assms(3)] io_defs)
  obtain ts w2 where w2: "build_server_config (nl_est B) (nl_tls B) E c w1 = (Inr ts, w2)"
    using assms(7) [of w1] w1(2) assms(9)
    by (cases "build_server_config (nl_est B) (nl_tls B) E c w1"; cases "fst (build_server_config (nl_est B) (nl_tls B) E c w1)") auto
  obtain d w3 where w3: "load_node_intent (nl_api B) E w2 = (Inr d, w3)"
    by (cases "load_node_intent (nl_api B) E w2"; cases "fst (load_node_intent (nl_api B) E w2)")
      (auto simp: load_node_intent_def io_bind_def io_attempt_run split: sum.splits)
  have "\<exists>nd w'. bring_up B E c None w = (Inr nd, w') \<and> nd_resolver nd = rc"
    by (simp add: bring_up_def Let_def io_bind_def io_then_def io_ctx_def io_ignore_run lib_call_def w1 w2 w3 assms(8))
  with that w1(3) show thesis by auto
qed

section \<open>Properties\<close>



text \<open>
  C28. A node that finds its PKI complete starts whatever happens to renewal and to the workload:
  the start can fail only where the certificate cannot be loaded, the TLS configuration cannot be
  built or the socket cannot be bound.
\<close>

theorem start_best_effort:
  assumes "open_tpm B E c w = (Inr tpm, w1)" and "node_pki_present E c w1 = (Inr True, w2)"
    and "noded_start B E c w = (Inl err, w')"
  shows "\<exists>m e. err = Ctx m e \<and> m \<in> {''load node server certificate (TPM)'', ''load node server certificate'',
    ''build TLS config'', ''bind '' @ nl_show_addr B (nc_listen_addr c)}"
proof -
  have "fst (renew_at_start B E c tp v) = Inr ()" for tp v
    unfolding renew_at_start_def
    by (auto simp: io_bind_def io_attempt_run split: sum.split bool.split)
  then obtain w3 where w3: "renew_at_start B E c tpm w2 = (Inr (), w3)"
    by (cases "renew_at_start B E c tpm w2") (metis fst_conv)
  have run: "bring_up B E c tpm w3 = (Inl err, w')"
    using assms w3 by (simp add: noded_start_def io_bind_def io_then_def)
  have intent: "\<exists>d. fst (load_node_intent A E v) = Inr d" for A v
    by (auto simp: load_node_intent_def io_bind_def io_attempt_run split: sum.split)
  from run show ?thesis
    unfolding bring_up_def Let_def load_resolver_def
    using intent [of "nl_api B"]
    by (auto simp: io_bind_def io_then_def io_ctx_def io_ignore_run split: prod.splits sum.splits option.splits)
      (metis fst_conv sum.distinct(1))+
qed

theorem start_best_effort_witness:
  "\<exists>m e. fst (noded_start (sample_libs (Inl (Lib ''in use''))) calm sample_conf enrolled) = Inl (Ctx m e) \<and>
     m \<in> {''load node server certificate (TPM)'', ''load node server certificate'', ''build TLS config'', ''bind a''}"
proof -
  let ?B = "sample_libs (Inl (Lib ''in use''))"
  obtain w1 r w' where p: "node_pki_present calm sample_conf enrolled = (Inr True, w1)"
    and r: "noded_start ?B calm sample_conf enrolled = (r, w')" "isl r \<longleftrightarrow> isl (Inl (Lib ''in use'') :: err + unit)"
    by (rule sample_node_up)
  obtain err where err: "r = Inl err" using r(2) by (cases r) simp_all
  have "open_tpm ?B calm sample_conf enrolled = (Inr None, enrolled)" by (simp add: open_tpm_def sample_conf_def)
  from start_best_effort [OF this p r(1) [unfolded err]] show ?thesis by (auto simp: r err sample_libs_sel)
qed

text \<open>
  C40. A half-written renewal is not repaired. When \<open>write_identity\<close> has failed between its two
  renames, the next start, all of it from opening the token to binding the socket, finds its PKI complete and, the new
  certificate not being due for renewal, creates no EST client, so it does not enroll again. It loads the new certificate chain with
  the old key without an error and comes up, where the TLS configuration can be built and the socket bound: the node serves an
  identity whose parts do not belong together, although it is documented to be replaced atomically.
\<close>

theorem mismatched_identity_starts:
  assumes "pki_paths_ok c" and "wf_fs (w_fs w)" and "nc_tpm c = None"
    and "write_identity (nl_est B) E c cert key w = (Inl (Ctx ''write node key'' e), w1)"
    and "content (w_fs w) (nc_key_file c) = Some old" and "content (w_fs w) (nc_client_ca c) = Some ca"
    and "el_to_pem (nl_est B) cert = Inr pem" and "el_pem_chain (nl_est B) pem = Inr chain"
    and "tl_private_key (nl_tls B) old = Inr (Some der)" and "tl_load_key (nl_tls B) der = Inr k"
    and "el_validity (nl_est B) pem = Inr (nb, na)" and "\<And>t. nl_clock B t = Some now" and "\<not> needs_renewal nb na now"
    and "\<And>v. w_fs v = w_fs w1 \<Longrightarrow> \<not> isl (fst (build_server_config (nl_est B) (nl_tls B) E2 c v))"
    and "\<And>t. nl_bind B t (nc_listen_addr c) = Inr ()"
    and "\<And>t p. env_fault E2 t (Exists p) = None" and "\<And>t p. env_fault E2 t (ReadFile p) = None"
    and "w_fs w2 = w_fs w1"
  shows "\<exists>nd w3 es. noded_start B E2 c w2 = (Inr nd, w3) \<and> rc_current (nd_resolver nd) = \<lparr>ck_certs = chain, ck_key = k\<rparr> \<and>
    w_trace w3 = w_trace w2 @ es \<and> list_all (\<lambda>ev. client_event ev = None) es"
proof -
  have files: "content (w_fs w2) (nc_cert_file c) = Some pem" "content (w_fs w2) (nc_key_file c) = Some old"
    "content (w_fs w2) (nc_client_ca c) = Some ca"
    using half_written_files [OF assms(1,2,4-7)] by (simp_all add: assms(18))
  obtain w3 where w3: "node_pki_present E2 c w2 = (Inr True, w3)" "w_fs w3 = w_fs w2"
    by (rule pki_found [OF files assms(3,16)])
  obtain w4 where w4: "renew_at_start B E2 c None w3 = (Inr (), w4)" "w_fs w4 = w_fs w2" "\<exists>es. w_trace w4 = w_trace w3 @ es \<and> list_all silent es"
    using renewal_not_due [OF _ assms(17,11-13), of w3 c None] files(1) w3(2) by auto
  obtain nd w5 where w5: "bring_up B E2 c None w4 = (Inr nd, w5)" "rc_current (nd_resolver nd) = \<lparr>ck_certs = chain, ck_key = k\<rparr>"
    by (rule bring_up_files [OF _ _ assms(17,8-10,14,15), where w = w4]) (use files w4(2) assms(18) in auto)
  have run: "noded_start B E2 c w2 = (Inr nd, w5)"
    using w3(1) w4(1) w5(1) assms(3) by (simp add: noded_start_def open_tpm_def io_bind_def io_then_def)
  have "emits silent (node_pki_present E2 c)"
    unfolding node_pki_present_def by (intro emits_rules) simp_all
  from emitsD [OF this w3(1)] obtain es1 where "w_trace w3 = w_trace w2 @ es1" "list_all silent es1" .
  moreover obtain es2 where "w_trace w4 = w_trace w3 @ es2" "list_all silent es2" using w4(3) by blast
  moreover obtain es3 where "w_trace w5 = w_trace w4 @ es3" "list_all silent es3" by (rule emitsD [OF silent_bring_up w5(1)])
  ultimately show ?thesis using run w5(2) by (intro exI [of _ nd] exI [of _ w5] exI [of _ "es1 @ es2 @ es3"]) simp
qed

theorem mismatched_identity_starts_witness:
  "\<exists>w1 nd w3 es.
     snd (write_identity sample_lib (full_at (nc_key_file sample_conf) 0x180) sample_conf ''leaf2'' ''key2'' enrolled) = w1 \<and>
     noded_start (sample_libs (Inr ())) calm sample_conf w1 = (Inr nd, w3) \<and>
     rc_current (nd_resolver nd) = \<lparr>ck_certs = [''leaf2''], ck_key = LoadedKey ''key''\<rparr> \<and>
     w_trace w3 = w_trace w1 @ es \<and> list_all (\<lambda>ev. client_event ev = None) es"
proof -
  let ?B = "sample_libs (Inr ())"
  obtain e w1 where run: "write_identity sample_lib (full_at (nc_key_file sample_conf) 0x180) sample_conf ''leaf2'' ''key2'' enrolled =
      (Inl (Ctx ''write node key'' e), w1)" by (rule sample_half_written)
  have nt: "nc_tpm sample_conf = None" by (simp add: sample_conf_def)
  have run': "write_identity (nl_est ?B) (full_at (nc_key_file sample_conf) 0x180) sample_conf ''leaf2'' ''key2'' enrolled =
      (Inl (Ctx ''write node key'' e), w1)" using run by (simp add: sample_libs_sel)
  have libs: "el_to_pem (nl_est ?B) ''leaf2'' = Inr ''leaf2''" "el_pem_chain (nl_est ?B) ''leaf2'' = Inr [''leaf2'']"
    "tl_private_key (nl_tls ?B) ''key'' = Inr (Some ''key'')" "tl_load_key (nl_tls ?B) ''key'' = Inr (LoadedKey ''key'')"
    "el_validity (nl_est ?B) ''leaf2'' = Inr (0, 900)" "\<And>t. nl_clock ?B t = Some 100" "\<not> needs_renewal 0 900 100"
    "\<And>t. nl_bind ?B t (nc_listen_addr sample_conf) = Inr ()"
    by (simp_all add: sample_libs_sel sample_lib_sel sample_tls_sel needs_renewal_def)
  have ca: "content (w_fs w1) (nc_client_ca sample_conf) = Some ''ca''"
    by (rule half_written_files(3) [OF sample_paths(1) enrolled_facts(2) run' enrolled_facts(5,6) libs(1)])
  have tls: "\<not> isl (fst (build_server_config (nl_est ?B) (nl_tls ?B) calm sample_conf v))" if "w_fs v = w_fs w1" for v
    using ca that
    by (simp add: build_server_config_def load_client_roots_def load_certs_def calm_read sample_lib_sel sample_libs_sel sample_tls_sel io_defs)
  from mismatched_identity_starts [OF sample_paths(1) enrolled_facts(2) nt run' enrolled_facts(5,6) libs(1-7) tls libs(8)
      calm_fault calm_fault refl] run
  show ?thesis by simp
qed

end
