(* ===== verification/Noded_Serve.thy ===== *)
theory Noded_Serve
  imports Noded_Run
begin

text \<open>
  The running node (crates/noded/src/main.rs, the end of \<open>run\<close>): the accept loop, the connections it
  spawns, the requests on them and the renewal task, as a labelled transition system, with what
  holds in every state a started node reaches.
\<close>

section \<open>The accept loop and the connections\<close>

text \<open>
  A connection is in its handshake, open with the identity bound to it, or over. The node is over once
  it has an outcome, the result of \<open>run\<close>; the tasks it spawned end with it.
\<close>

datatype connection = Handshaking | Open client_identity | Closed

record running =
  rn_server :: server
  rn_resolver :: reloadable_cert
  rn_conns :: "connection list"
  rn_outcome :: "(err + unit) option"

datatype node_event =
    Accepted
  | AcceptFailed io_error
  | CtrlC
  | HandshakeOk nat "der list"
  | HandshakeFailed nat
  | Requested nat request "json response"
  | ConnectionEnded nat
  | RenewalTurn

abbreviation rn_world :: "running \<Rightarrow> world" where
  "rn_world x \<equiv> sr_world (rn_server x)"

definition running_start :: "node \<Rightarrow> world \<Rightarrow> running" where
  "running_start nd w =
     \<lparr>rn_server = \<lparr>sr_world = w, sr_next_id = 1, sr_audit = []\<rparr>, rn_resolver = nd_resolver nd,
      rn_conns = [], rn_outcome = None\<rparr>"

text \<open>
  The steps. An accepted connection gets a task of its own; an error of \<open>accept\<close> is returned by
  \<open>run\<close>. The handshake needs a certificate from the resolver and a client chain that the verifier
  accepts; a resumed session stands on the verification of an earlier handshake, so the chain is
  one that was accepted now or before. Its leaf gives the identity of the connection, which is bound to
  every request on it. A request and a turn of the renewal loop are each one step; writes of two
  requests at the same time are the subject of \<open>Concurrent_Writes\<close>.
\<close>

inductive node_step :: "noded_lib \<Rightarrow> env \<Rightarrow> node \<Rightarrow> running \<Rightarrow> node_event \<Rightarrow> running \<Rightarrow> bool"
  for B :: noded_lib and E :: env and nd :: node where
  accepted: "rn_outcome x = None \<Longrightarrow>
     node_step B E nd x Accepted (x\<lparr>rn_conns := rn_conns x @ [Handshaking]\<rparr>)"
| accept_failed: "rn_outcome x = None \<Longrightarrow>
     node_step B E nd x (AcceptFailed e) (x\<lparr>rn_outcome := Some (Inl (Ctx ''accept TCP connection'' (Io e)))\<rparr>)"
| ctrl_c: "rn_outcome x = None \<Longrightarrow> node_step B E nd x CtrlC (x\<lparr>rn_outcome := Some (Inr ())\<rparr>)"
| handshake_ok: "rn_outcome x = None \<Longrightarrow> i < length (rn_conns x) \<Longrightarrow> rn_conns x ! i = Handshaking \<Longrightarrow>
     resolve (rn_resolver x) = Some ck \<Longrightarrow>
     w_trace (rn_world x) = t @ es \<Longrightarrow> nl_verify B t (ts_client_roots (nd_tls nd)) chain \<Longrightarrow>
     node_step B E nd x (HandshakeOk i chain)
       (x\<lparr>rn_conns := (rn_conns x)[i := Open (peer_identity (nl_from_der B) (Some chain))]\<rparr>)"
| handshake_failed: "rn_outcome x = None \<Longrightarrow> i < length (rn_conns x) \<Longrightarrow> rn_conns x ! i = Handshaking \<Longrightarrow>
     node_step B E nd x (HandshakeFailed i) (x\<lparr>rn_conns := (rn_conns x)[i := Closed]\<rparr>)"
| requested: "rn_outcome x = None \<Longrightarrow> i < length (rn_conns x) \<Longrightarrow> rn_conns x ! i = Open identity \<Longrightarrow>
     rq_identity rq = Some identity \<Longrightarrow>
     build_router (nl_api B) E (nl_clock B) (nd_state nd) rq (rn_server x) = (resp, s') \<Longrightarrow>
     node_step B E nd x (Requested i rq resp) (x\<lparr>rn_server := s'\<rparr>)"
| connection_ended: "rn_outcome x = None \<Longrightarrow> i < length (rn_conns x) \<Longrightarrow> rn_conns x ! i = Open identity \<Longrightarrow>
     node_step B E nd x (ConnectionEnded i) (x\<lparr>rn_conns := (rn_conns x)[i := Closed]\<rparr>)"
| renewal_turn: "rn_outcome x = None \<Longrightarrow>
     renewal_tick (nl_est B) (nl_tls B) True (nl_clock B) E (as_config (nd_state nd)) (nd_tpm nd) (rn_resolver x) (rn_world x) =
       (Inr rc', w') \<Longrightarrow>
     node_step B E nd x RenewalTurn (x\<lparr>rn_server := (rn_server x)\<lparr>sr_world := w'\<rparr>, rn_resolver := rc'\<rparr>)"

inductive node_reach :: "noded_lib \<Rightarrow> env \<Rightarrow> node \<Rightarrow> world \<Rightarrow> node_event list \<Rightarrow> running \<Rightarrow> bool"
  for B :: noded_lib and E :: env and nd :: node and w :: world where
  reach_start: "node_reach B E nd w [] (running_start nd w)"
| reach_step: "node_reach B E nd w evs x \<Longrightarrow> node_step B E nd x ev y \<Longrightarrow> node_reach B E nd w (evs @ [ev]) y"

inductive_cases node_stepE: "node_step B E nd x ev y"

section \<open>What requests and renewals add\<close>

lemma emits_tick: "emits (by_cert c) (renewal_tick L T prov clock E c tpm rc)"
proof -
  have rl: "emits (by_cert c) (reload L T prov E rc)"
    unfolding reload_def
    by (intro emits_bind emits_attempt emits_load_certs) (auto split: sum.split intro!: emits_rules)
  have re: "emits (by_cert c) (case r of Inl _ \<Rightarrow> io_ret rc
      | Inr _ \<Rightarrow> io_bind (reload L T prov E rc) (\<lambda>(_, rc'). io_ret rc'))" for r :: "err + unit"
    by (cases r) (auto intro!: emits_bind emits_ret rl split: prod.split)
  have "emits (by_cert c) (case due of
          Inr True \<Rightarrow> io_bind (io_attempt (reenroll L E c tpm)) (\<lambda>r. case r of Inl _ \<Rightarrow> io_ret rc
            | Inr _ \<Rightarrow> io_bind (reload L T prov E rc) (\<lambda>(_, rc'). io_ret rc'))
        | Inr False \<Rightarrow> io_ret rc
        | Inl _ \<Rightarrow> io_ret rc)" for due
    by (auto split: sum.split bool.split intro!: emits_ret emits_bind emits_attempt reenroll_clients re)
  then show ?thesis
    unfolding renewal_tick_def
    by (intro emits_then emits_bind emits_attempt emits_check emits_sleep by_cert_quiet) simp
qed

text \<open>Facts that only speak of what was added to the trace or to the history are kept by requests.\<close>

lemma emits_keeps: "emits Q m \<Longrightarrow> keeps (\<lambda>w. \<exists>es. w_trace w = t @ es \<and> list_all Q es) m"
  unfolding emits_def keeps_def by (metis append.assoc list_all_append)

lemma grows_keeps: "grows m \<Longrightarrow> keeps (\<lambda>w. \<exists>ts. w_snaps w = t @ ts) m"
  unfolding grows_def keeps_def by (metis append.assoc)

lemma emits_status_cmd:
  assumes "as_workload st = new_profile pem E p"
  shows "emits (by_cert c) (status_cmd E st)"
proof -
  have ex: "emits (by_cert c) (path_exists E q)" for q by (intro emits_rules by_cert_quiet) simp
  have any: "emits (by_cert c) (any_exists E ps)" for ps
    by (induction ps) (simp_all only: any_exists.simps, rule emits_ret, intro emits_bind ex emits_if emits_ret)
  have "emits (by_cert c) (wl_health (new_profile pem E p))"
    by (cases p) (auto simp: new_profile_def k8s_health_def kvm_health_def from_binary_def intro!: emits_bind ex emits_ret)
  then show ?thesis unfolding status_cmd_def assms by (intro emits_bind any emits_ret)
qed

lemma grows_status:
  assumes "as_workload st = new_profile pem E p"
  shows "grows (status_cmd E st)"
proof -
  have ex: "grows (path_exists E q)" for q by (simp add: grows_def path_exists_def Let_def)
  have any: "grows (any_exists E ps)" for ps
    by (induction ps) (simp_all only: any_exists.simps, rule grows_ret, intro grows_bind ex grows_if grows_ret)
  have "grows (wl_health (new_profile pem E p))"
    by (cases p) (auto simp: new_profile_def k8s_health_def kvm_health_def from_binary_def intro!: grows_bind ex grows_ret)
  then show ?thesis unfolding status_cmd_def assms by (intro grows_bind any grows_ret)
qed

lemma grows_reconcile: "grows (wl_reconcile (new_profile pem E p) d)"
  by (cases p; cases d) (auto simp: new_profile_def k8s_reconcile_def kvm_reconcile_def intro!: grows_rules)

lemma router_by_cert:
  assumes "as_workload st = new_profile pem E p" and "build_router A E clock st rq s = (resp, s')"
    and "\<exists>es. w_trace (sr_world s) = t @ es \<and> list_all (by_cert c) es"
  shows "\<exists>es. w_trace (sr_world s') = t @ es \<and> list_all (by_cert c) es"
proof -
  have wa: "emits (by_cert c) (write_atomic E q x b)" for q x b
    by (rule emits_write_atomic_quiet) (rule by_cert_quiet)
  note keep = emits_keeps [where Q = "by_cert c" and t = t]
  show ?thesis
    by (rule router_keeps [OF keep [OF emits_status_cmd [OF assms(1)]] keep [OF wa] _ assms(3,2)])
      (unfold assms(1), rule keep [OF emits_reconcile])
qed

lemma router_grows:
  assumes "as_workload st = new_profile pem E p" and "build_router A E clock st rq s = (resp, s')"
  shows "\<exists>ts. w_snaps (sr_world s') = w_snaps (sr_world s) @ ts"
proof -
  note keep = grows_keeps [where t = "w_snaps (sr_world s)"]
  have "\<exists>ts. w_snaps (sr_world s) = w_snaps (sr_world s) @ ts" by simp
  from router_keeps [OF keep [OF grows_status [OF assms(1)]] keep [OF grows_write_atomic] _ this assms(2)]
  show ?thesis unfolding assms(1) using keep [OF grows_reconcile] by blast
qed

section \<open>Reachable states\<close>

text \<open>What a step does to the parts: the world changes by a request or a turn of the renewal only.\<close>

lemma node_step_world:
  assumes "node_step B E nd x ev y"
  obtains (same) "rn_server y = rn_server x" and "rn_resolver y = rn_resolver x"
      and "\<not> (\<exists>i rq resp. ev = Requested i rq resp)" and "ev \<noteq> RenewalTurn"
  | (request) i identity rq resp where "ev = Requested i rq resp" and "i < length (rn_conns x)"
      and "rn_conns x ! i = Open identity" and "rq_identity rq = Some identity"
      and "build_router (nl_api B) E (nl_clock B) (nd_state nd) rq (rn_server x) = (resp, rn_server y)"
      and "rn_resolver y = rn_resolver x" and "rn_conns y = rn_conns x"
  | (turn) "ev = RenewalTurn" and "rn_conns y = rn_conns x"
      and "sr_next_id (rn_server y) = sr_next_id (rn_server x)" and "sr_audit (rn_server y) = sr_audit (rn_server x)"
      and "renewal_tick (nl_est B) (nl_tls B) True (nl_clock B) E (as_config (nd_state nd)) (nd_tpm nd)
        (rn_resolver x) (rn_world x) = (Inr (rn_resolver y), rn_world y)"
  using assms by (cases rule: node_step.cases) (auto intro: that)

text \<open>
  The audit log: numbered from one (modulo \<open>2 ^ 64\<close>), with one record per request, in their order,
  that names the request and the subject of its connection.
\<close>

definition audit_ok :: "server \<Rightarrow> bool" where
  "audit_ok s \<longleftrightarrow>
     sr_next_id s = of_nat (length (sr_audit s)) + 1 \<and>
     map au_id (sr_audit s) = map (\<lambda>k. of_nat k + 1) [0..<length (sr_audit s)]"

definition records :: "audit \<Rightarrow> request \<Rightarrow> bool" where
  "records a rq \<longleftrightarrow>
     au_method a = rq_method rq \<and> au_resource a = rq_path rq \<and>
     au_subject a = Option.bind (rq_identity rq) ci_common_name"

fun requests :: "node_event list \<Rightarrow> request list" where
  "requests [] = []"
| "requests (Requested i rq resp # evs) = rq # requests evs"
| "requests (ev # evs) = requests evs"

lemma requests_append [simp]: "requests (evs @ evs') = requests evs @ requests evs'"
  by (induction evs rule: requests.induct) simp_all

lemma requests_other: "\<not> (\<exists>i rq resp. ev = Requested i rq resp) \<Longrightarrow> requests [ev] = []"
  by (cases ev) auto

lemma in_requests: "rq \<in> set (requests evs) \<longleftrightarrow> (\<exists>i resp. Requested i rq resp \<in> set evs)"
  by (induction evs rule: requests.induct) auto

lemma router_records:
  assumes "build_router A E clock st rq s = (resp, s')"
  obtains a where "sr_next_id s' = sr_next_id s + 1" and "sr_audit s' = sr_audit s @ [a]" and "au_id a = sr_next_id s"
    and "records a rq"
proof -
  have "sr_next_id s' = sr_next_id s + 1 \<and> (\<exists>a. sr_audit s' = sr_audit s @ [a] \<and> au_id a = sr_next_id s \<and> records a rq)"
    using assms unfolding build_router_def authorize_def Let_def
    by (auto dest!: routes_audit simp: records_def bind_eq_Some_conv split: prod.splits if_splits option.splits)
  then show thesis using that by blast
qed

definition served_ok :: "noded_lib \<Rightarrow> node \<Rightarrow> world \<Rightarrow> running \<Rightarrow> bool" where
  "served_ok B nd w x \<longleftrightarrow> swapped (nl_est B) (nl_tls B) w (rn_world x) (nd_resolver nd) (rn_resolver x)"

lemma node_reach_inv:
  assumes "node_reach B E nd w evs x" and "as_workload (nd_state nd) = new_profile pem E p"
  shows "audit_ok (rn_server x) \<and> list_all2 records (sr_audit (rn_server x)) (requests evs) \<and> served_ok B nd w x"
  using assms(1)
proof (induction rule: node_reach.induct)
  case reach_start
  show ?case by (simp add: audit_ok_def served_ok_def swapped_def running_start_def)
next
  case (reach_step evs x ev y)
  from reach_step.hyps(2) show ?case
  proof (cases rule: node_step_world)
    case same
    with reach_step.IH show ?thesis by (simp add: served_ok_def requests_other)
  next
    case (request i identity rq resp)
    have "swapped (nl_est B) (nl_tls B) (rn_world x) (rn_world y) (rn_resolver x) (rn_resolver x)"
      using router_grows [OF assms(2) request(5)] by (auto intro: swapped_keep)
    then have "served_ok B nd w y" using reach_step.IH request by (auto simp: served_ok_def intro: swapped_trans)
    moreover obtain a where "sr_next_id (rn_server y) = sr_next_id (rn_server x) + 1"
      "sr_audit (rn_server y) = sr_audit (rn_server x) @ [a]" "au_id a = sr_next_id (rn_server x)" "records a rq"
      by (rule router_records [OF request(5)])
    ultimately show ?thesis using reach_step.IH request(1) by (auto simp: audit_ok_def intro: list_all2_appendI)
  next
    case turn
    then have "swapped (nl_est B) (nl_tls B) (rn_world x) (rn_world y) (rn_resolver x) (rn_resolver y)"
      using renewal_tick_swapped by blast
    with turn reach_step.IH show ?thesis by (auto simp: served_ok_def audit_ok_def intro: swapped_trans)
  qed
qed

lemma node_step_by_cert:
  assumes "node_step B E nd x ev y" and "as_workload (nd_state nd) = new_profile pem E p"
  shows "\<exists>es. w_trace (rn_world y) = w_trace (rn_world x) @ es \<and> list_all (by_cert (as_config (nd_state nd))) es"
  using assms(1)
proof (cases rule: node_step_world)
  case same
  then show ?thesis by simp
next
  case (request i identity rq resp)
  show ?thesis by (rule router_by_cert [OF assms(2) request(5)]) simp
next
  case turn
  show ?thesis by (rule keepsD [OF emits_keeps [OF emits_tick] _ turn(5)]) simp
qed

lemma node_reach_by_cert:
  assumes "node_reach B E nd w evs x" and "as_workload (nd_state nd) = new_profile pem E p"
  shows "\<exists>es. w_trace (rn_world x) = w_trace w @ es \<and> list_all (by_cert (as_config (nd_state nd))) es"
  using assms(1)
proof (induction rule: node_reach.induct)
  case reach_start
  show ?case by (simp add: running_start_def)
next
  case (reach_step evs x ev y)
  from node_step_by_cert [OF reach_step.hyps(2) assms(2)] reach_step.IH obtain es fs where
    "w_trace (rn_world x) = w_trace w @ es" "list_all (by_cert (as_config (nd_state nd))) es"
    "w_trace (rn_world y) = w_trace (rn_world x) @ fs" "list_all (by_cert (as_config (nd_state nd))) fs" by blast
  then show ?case by (intro exI [of _ "es @ fs"]) simp
qed

text \<open>
  An identity is vouched for when it was taken from a chain that the verifier, built on the client
  CAs loaded at start, has accepted at some point of the run.
\<close>

definition vouched :: "noded_lib \<Rightarrow> node \<Rightarrow> world \<Rightarrow> client_identity \<Rightarrow> bool" where
  "vouched B nd w identity \<longleftrightarrow>
     (\<exists>t es chain. w_trace w = t @ es \<and> nl_verify B t (ts_client_roots (nd_tls nd)) chain \<and>
        identity = peer_identity (nl_from_der B) (Some chain))"

lemma vouched_later: "vouched B nd w i \<Longrightarrow> w_trace w' = w_trace w @ es \<Longrightarrow> vouched B nd w' i"
  unfolding vouched_def by (metis append.assoc)

lemma in_update: "a \<in> set (xs[i := b]) \<Longrightarrow> a = b \<or> a \<in> set xs"
  using set_update_subset_insert [of xs i b] by blast

lemma node_step_conns:
  assumes "node_step B E nd x ev y" and "Open i \<in> set (rn_conns y)"
  shows "Open i \<in> set (rn_conns x) \<or> vouched B nd (rn_world x) i"
  using assms
proof (cases rule: node_step.cases)
  case (handshake_ok k ck t es chain)
  then have "vouched B nd (rn_world x) (peer_identity (nl_from_der B) (Some chain))" unfolding vouched_def by blast
  with handshake_ok(2) assms(2) show ?thesis by (auto dest: in_update)
qed (auto dest: in_update)

lemma node_reach_vouched:
  assumes "node_reach B E nd w evs x" and "as_workload (nd_state nd) = new_profile pem E p"
  shows "(\<forall>i. Open i \<in> set (rn_conns x) \<longrightarrow> vouched B nd (rn_world x) i) \<and>
    (\<forall>rq \<in> set (requests evs). \<exists>i. rq_identity rq = Some i \<and> vouched B nd (rn_world x) i)"
  using assms(1)
proof (induction rule: node_reach.induct)
  case reach_start
  show ?case by (simp add: running_start_def)
next
  case (reach_step evs x ev y)
  obtain es where es: "w_trace (rn_world y) = w_trace (rn_world x) @ es"
    using node_step_by_cert [OF reach_step.hyps(2) assms(2)] by blast
  note later = vouched_later [OF _ es]
  have "\<exists>i. rq_identity rq = Some i \<and> vouched B nd (rn_world y) i" if "rq \<in> set (requests [ev])" for rq
    using reach_step.hyps(2)
  proof (cases rule: node_step_world)
    case same
    with that show ?thesis by (simp add: requests_other)
  next
    case (request k identity rq' resp)
    then have "Open identity \<in> set (rn_conns x)" by (metis nth_mem)
    with request that reach_step.IH later show ?thesis by auto
  next
    case turn
    with that show ?thesis by simp
  qed
  moreover have "vouched B nd (rn_world y) i" if "Open i \<in> set (rn_conns y)" for i
    using node_step_conns [OF reach_step.hyps(2) that] reach_step.IH later by blast
  moreover have "\<exists>i. rq_identity rq = Some i \<and> vouched B nd (rn_world y) i" if "rq \<in> set (requests evs)" for rq
    using that reach_step.IH later by blast
  ultimately show ?case by auto
qed

lemma node_reach_change:
  assumes "node_reach B E nd w evs x" and "as_workload (nd_state nd) = new_profile pem E p"
    and "RenewalTurn \<notin> set evs" and "w_fs (rn_world x) \<noteq> w_fs w"
  shows "\<exists>rq \<in> set (requests evs). may_change (nl_api B) (nd_state nd) rq"
  using assms(1,3,4)
proof (induction rule: node_reach.induct)
  case reach_start
  then show ?case by (simp add: running_start_def)
next
  case (reach_step evs x ev y)
  from reach_step.hyps(2) show ?case
  proof (cases rule: node_step_world)
    case same
    with reach_step show ?thesis by auto
  next
    case (request i identity rq resp)
    show ?thesis
    proof (cases "may_change (nl_api B) (nd_state nd) rq")
      case True
      with request(1) show ?thesis by simp
    next
      case False
      from router_quiet [OF assms(2) this, of "nl_clock B" "rn_server x"] request reach_step show ?thesis by auto
    qed
  next
    case turn
    with reach_step.prems show ?thesis by simp
  qed
qed

text \<open>How an event ends the node, if it does.\<close>

fun ends :: "node_event \<Rightarrow> (err + unit) option" where
  "ends (AcceptFailed e) = Some (Inl (Ctx ''accept TCP connection'' (Io e)))"
| "ends CtrlC = Some (Inr ())"
| "ends ev = None"

lemma node_step_ends: "node_step B E nd x ev y \<Longrightarrow> rn_outcome x = None \<and> rn_outcome y = ends ev"
  by (cases rule: node_step.cases) auto

section \<open>An example\<close>

text \<open>An operator connects to the sample node and puts an intent.\<close>

definition ops_chain :: "der list" where
  "ops_chain = [''ops'', ''ca'']"

definition ops_events :: "node_event list" where
  "ops_events = [Accepted, HandshakeOk 0 ops_chain, Requested 0 ops_put (200, Text (''node intent applied'' @ [newline]))]"

lemma sample_node:
  obtains nd w where "noded_start (sample_libs (Inr ())) calm sample_conf enrolled = (Inr nd, w)"
    and "w_fs w = w_fs enrolled" and "ts_client_roots (nd_tls nd) = [''ca'']"
proof (rule sample_node_up [where b = "Inr ()"])
  fix w1 r w'
  assume r: "noded_start (sample_libs (Inr ())) calm sample_conf enrolled = (r, w')"
    "isl r \<longleftrightarrow> isl (Inr () :: err + unit)" "w_fs w' = w_fs enrolled"
    "\<And>nd. r = Inr nd \<Longrightarrow> ts_client_roots (nd_tls nd) = [''ca'']"
  then obtain nd where "r = Inr nd" by (cases r) simp_all
  with r that show thesis by blast
qed

lemma sample_router:
  assumes "as_config st = sample_conf" and "as_workload st = new_profile sample_pem calm K8s" and "w_fs (sr_world s) = w_fs enrolled"
  obtains s' where "build_router sample_api calm clock st ops_put s = ((200, Text (''node intent applied'' @ [newline])), s')"
    and "content (w_fs (sr_world s')) (path_of NODE_INTENT_PATH) = Some ''I''"
proof -
  let ?az = "nc_authorization sample_conf" and ?next = "routes sample_api calm clock st"
  define s0 where "s0 = snd (authorize ?az (\<lambda>_ s. ((0, Text [] :: json body), s)) ops_put s)"
  have allow: "authorize ?az ?next ops_put s = ?next ops_put s0" "sr_world s0 = sr_world s"
    by (simp_all add: authorize_def decide_def granted_role_def required_role_def role_for_def sample_conf_def
        ops_put_def satisfies_def Let_def s0_def)
  obtain s' where "put_config sample_api calm st ops_put s0 = ((200, Text (''node intent applied'' @ [newline])), s')"
    "content (w_fs (sr_world s')) (path_of NODE_INTENT_PATH) = Some ''I''"
    by (rule sample_put_at [of s0 st ops_put])
      (simp_all add: allow(2) assms enrolled_facts(2) enrolled_dirs ops_extract)
  moreover have "rq_method ops_put = PUT" "rq_path ops_put = ''/v1/config''" by (simp_all add: ops_put_def)
  ultimately show thesis using that allow(1) assms(1) by (simp add: build_router_def routes_def)
qed

lemma operator_run:
  assumes start: "noded_start (sample_libs (Inr ())) calm sample_conf enrolled = (Inr nd, w)"
    and fs: "w_fs w = w_fs enrolled" and roots: "ts_client_roots (nd_tls nd) = [''ca'']"
  obtains x where "node_reach (sample_libs (Inr ())) calm nd w ops_events x" and "w_fs (rn_world x) \<noteq> w_fs w"
    and "rn_outcome x = None"
proof -
  let ?B = "sample_libs (Inr ())" and ?id = "\<lparr>ci_common_name = Some ''ops''\<rparr>"
  note nd = noded_start_node [OF start]
  let ?x0 = "running_start nd w"
  let ?x1 = "?x0\<lparr>rn_conns := [Handshaking]\<rparr>" and ?x2 = "?x0\<lparr>rn_conns := [Open ?id]\<rparr>"
  have "node_step ?B calm nd ?x0 Accepted ?x1"
    using node_step.accepted [of ?x0 ?B calm nd] by (simp add: running_start_def)
  from reach_step [OF reach_start this] have r1: "node_reach ?B calm nd w [Accepted] ?x1" by simp
  have "valid_utf8 ''ops''" by code_simp
  then have id: "peer_identity (nl_from_der ?B) (Some ops_chain) = ?id"
    by (simp add: peer_identity_def sample_libs_def ops_chain_def)
  have "nl_verify ?B (w_trace w) (ts_client_roots (nd_tls nd)) ops_chain"
    by (simp add: roots sample_libs_def ops_chain_def)
  then have "node_step ?B calm nd ?x1 (HandshakeOk 0 ops_chain) ?x2"
    using node_step.handshake_ok [of ?x1 0 _ "w_trace w" "[]" ?B nd ops_chain calm] nd
    by (simp add: running_start_def id resolve_def)
  from reach_step [OF r1 this] have r2: "node_reach ?B calm nd w [Accepted, HandshakeOk 0 ops_chain] ?x2" by simp
  have st: "as_config (nd_state nd) = sample_conf" "as_workload (nd_state nd) = new_profile sample_pem calm K8s"
    using nd by (simp_all add: sample_libs_sel sample_api_sel) (simp add: sample_conf_def)
  have x2: "w_fs (rn_world ?x2) = w_fs enrolled" by (simp add: running_start_def fs)
  obtain s' where s': "build_router sample_api calm (nl_clock ?B) (nd_state nd) ops_put (rn_server ?x2) =
      ((200, Text (''node intent applied'' @ [newline])), s')"
    "content (w_fs (sr_world s')) (path_of NODE_INTENT_PATH) = Some ''I''"
    by (rule sample_router [OF st x2])
  have "rq_identity ops_put = Some ?id" by (simp add: ops_put_def)
  then have "node_step ?B calm nd ?x2 (Requested 0 ops_put (200, Text (''node intent applied'' @ [newline]))) (?x2\<lparr>rn_server := s'\<rparr>)"
    using s'(1) by (intro node_step.requested) (simp_all add: running_start_def sample_libs_sel)
  from reach_step [OF r2 this] have "node_reach ?B calm nd w ops_events (?x2\<lparr>rn_server := s'\<rparr>)" by (simp add: ops_events_def)
  moreover have "w_fs (sr_world s') \<noteq> w_fs w" using s'(2) enrolled_dirs(3) fs by auto
  ultimately show thesis using that by (simp add: running_start_def)
qed

section \<open>Properties\<close>

text \<open>
  C15. The bearer token is for bootstrap only: from the moment a starting node has found its PKI
  complete, through the rest of its start and every later state it reaches, whatever happens on its
  connections, each EST client it creates talks to the configured server and authenticates with the
  node's certificate, never with the token.
\<close>

theorem token_bootstrap_only:
  assumes "open_tpm B E c w = (Inr tpm, w1)" and "node_pki_present E c w1 = (Inr True, w2)"
    and "noded_start B E c w = (Inr nd, w3)" and "node_reach B E nd w3 evs x"
  shows "\<exists>es. w_trace (rn_world x) = w_trace w2 @ es \<and>
    list_all (client_as c [''client-cert'', ''client-resolver'']) es"
proof -
  let ?rest = "io_then (renew_at_start B E c tpm) (bring_up B E c tpm)"
  have "emits (by_cert c) ?rest" by (intro emits_then emits_renew_at_start emits_bring_up)
  moreover have "?rest w2 = (Inr nd, w3)" using assms(1,2,3) by (simp add: noded_start_def io_bind_def)
  ultimately obtain es where es: "w_trace w3 = w_trace w2 @ es" "list_all (by_cert c) es" by (rule emitsD)
  have nd: "as_config (nd_state nd) = c" "as_workload (nd_state nd) = new_profile (al_from_pem (nl_api B)) E (nc_profile c)"
    using noded_start_node [OF assms(3)] by simp_all
  from node_reach_by_cert [OF assms(4) nd(2)] obtain fs where
    "w_trace (rn_world x) = w_trace w3 @ fs" "list_all (by_cert c) fs" by (auto simp: nd(1))
  with es show ?thesis by (intro exI [of _ "es @ fs"]) simp
qed

theorem token_bootstrap_only_witness:
  "\<exists>nd w x es. noded_start (sample_libs (Inr ())) calm sample_conf enrolled = (Inr nd, w) \<and>
     node_reach (sample_libs (Inr ())) calm nd w ops_events x \<and>
     w_trace (rn_world x) = w_trace (snd (node_pki_present calm sample_conf enrolled)) @ es \<and>
     list_all (client_as sample_conf [''client-cert'', ''client-resolver'']) es"
proof -
  let ?B = "sample_libs (Inr ())"
  obtain nd w where nd: "noded_start ?B calm sample_conf enrolled = (Inr nd, w)"
    "w_fs w = w_fs enrolled" "ts_client_roots (nd_tls nd) = [''ca'']" by (rule sample_node)
  obtain x where x: "node_reach ?B calm nd w ops_events x" using operator_run [OF nd] by blast
  obtain w1 where p: "node_pki_present calm sample_conf enrolled = (Inr True, w1)"
    using sample_start_facts(2) [OF refl] by blast
  have "open_tpm ?B calm sample_conf enrolled = (Inr None, enrolled)" by (simp add: open_tpm_def sample_conf_def)
  from token_bootstrap_only [OF this p nd(1) x] p nd(1) x show ?thesis by auto
qed

text \<open>
  C8. In every state a started node reaches, in whatever order connections, requests and renewals
  come, it has an identity to serve, which is the one it started with or one that was on disk
  since; and the audit log holds one record for each request, in the order of the requests,
  numbered consecutively from one, with the method, the path and the subject of that request.
\<close>

theorem node_invariant:
  assumes "noded_start B E c w0 = (Inr nd, w)" and "node_reach B E nd w evs x"
  shows "(\<exists>ck. resolve (rn_resolver x) = Some ck \<and>
      (ck = rc_current (nd_resolver nd) \<or>
       (\<exists>t \<in> set (passed w (rn_world x)).
          on_disk (nl_est B) (nl_tls B) (rc_cert_path (nd_resolver nd)) (rc_key_source (nd_resolver nd)) t ck))) \<and>
    list_all2 records (sr_audit (rn_server x)) (requests evs) \<and>
    sr_next_id (rn_server x) = of_nat (length (requests evs)) + 1 \<and>
    map au_id (sr_audit (rn_server x)) = map (\<lambda>k. of_nat k + 1) [0..<length (requests evs)]"
proof -
  have nd: "as_workload (nd_state nd) = new_profile (al_from_pem (nl_api B)) E (nc_profile c)"
    "\<not> rc_poisoned (nd_resolver nd)"
    using noded_start_node [OF assms(1)] by simp_all
  note inv = node_reach_inv [OF assms(2) nd(1)]
  then have "length (sr_audit (rn_server x)) = length (requests evs)" by (auto dest: list_all2_lengthD)
  with inv nd(2) show ?thesis by (auto simp: audit_ok_def served_ok_def swapped_def resolve_def)
qed

theorem node_invariant_witness:
  "\<exists>nd w x. noded_start (sample_libs (Inr ())) calm sample_conf enrolled = (Inr nd, w) \<and>
     node_reach (sample_libs (Inr ())) calm nd w ops_events x \<and>
     resolve (rn_resolver x) \<noteq> None \<and> map au_id (sr_audit (rn_server x)) = [1]"
proof -
  let ?B = "sample_libs (Inr ())"
  obtain nd w where nd: "noded_start ?B calm sample_conf enrolled = (Inr nd, w)"
    "w_fs w = w_fs enrolled" "ts_client_roots (nd_tls nd) = [''ca'']" by (rule sample_node)
  obtain x where x: "node_reach ?B calm nd w ops_events x" using operator_run [OF nd] by blast
  from node_invariant [OF nd(1) x] nd(1) x show ?thesis by (auto simp: ops_events_def)
qed

text \<open>
  C12. Only an authenticated operator changes files through a running node. If the files differ from
  those at start and the renewal task has not run, then there was a \<open>PUT /v1/config\<close> with an intent
  that passes validation, from a subject bound to operator or a higher role; and the identity of the
  connection it came on was taken from a certificate chain that the verifier, built on the client CAs
  loaded at start, had accepted.
\<close>

theorem node_changes_authenticated:
  assumes "noded_start B E c w0 = (Inr nd, w)" and "node_reach B E nd w evs x"
    and "RenewalTurn \<notin> set evs" and "w_fs (rn_world x) \<noteq> w_fs w"
  shows "\<exists>i rq resp identity. Requested i rq resp \<in> set evs \<and> may_change (nl_api B) (nd_state nd) rq \<and>
    rq_identity rq = Some identity \<and> vouched B nd (rn_world x) identity"
proof -
  have wl: "as_workload (nd_state nd) = new_profile (al_from_pem (nl_api B)) E (nc_profile c)"
    using noded_start_node [OF assms(1)] by simp
  obtain rq where "rq \<in> set (requests evs)" "may_change (nl_api B) (nd_state nd) rq"
    using node_reach_change [OF assms(2) wl assms(3,4)] by blast
  moreover obtain identity where "rq_identity rq = Some identity" "vouched B nd (rn_world x) identity"
    using conjunct2 [OF node_reach_vouched [OF assms(2) wl]] calculation(1) by blast
  ultimately show ?thesis unfolding in_requests by blast
qed

theorem node_changes_authenticated_witness:
  "\<exists>nd w x. noded_start (sample_libs (Inr ())) calm sample_conf enrolled = (Inr nd, w) \<and>
     node_reach (sample_libs (Inr ())) calm nd w ops_events x \<and>
     may_change sample_api (nd_state nd) ops_put \<and> vouched (sample_libs (Inr ())) nd (rn_world x) \<lparr>ci_common_name = Some ''ops''\<rparr>"
proof -
  let ?B = "sample_libs (Inr ())"
  obtain nd w where nd: "noded_start ?B calm sample_conf enrolled = (Inr nd, w)"
    "w_fs w = w_fs enrolled" "ts_client_roots (nd_tls nd) = [''ca'']" by (rule sample_node)
  obtain x where x: "node_reach ?B calm nd w ops_events x" "w_fs (rn_world x) \<noteq> w_fs w" using operator_run [OF nd] by blast
  have "RenewalTurn \<notin> set ops_events" by (simp add: ops_events_def)
  from node_changes_authenticated [OF nd(1) x(1) this x(2)] nd(1) x(1) show ?thesis
    by (auto simp: ops_events_def ops_put_def sample_libs_sel)
qed

text \<open>
  A running node ends in exactly two ways: by the shutdown signal, with success, or by an error
  of \<open>accept\<close>, with that error under its context. No failed handshake, no request, no broken
  connection and no renewal ends it; until one of the two has come it takes connections, and
  afterwards nothing happens any more.
\<close>

lemma node_ends:
  assumes "node_reach B E nd w evs x"
  shows "rn_outcome x = (if evs = [] then None else ends (last evs)) \<and>
    list_all (\<lambda>ev. ends ev = None) (butlast evs) \<and>
    (if rn_outcome x = None
     then \<exists>y. node_step B E nd x Accepted y \<and> rn_conns y = rn_conns x @ [Handshaking]
     else \<not> (\<exists>ev y. node_step B E nd x ev y))"
proof -
  have "rn_outcome x = (if evs = [] then None else ends (last evs)) \<and> list_all (\<lambda>ev. ends ev = None) (butlast evs)"
    using assms
  proof (induction rule: node_reach.induct)
    case reach_start
    show ?case by (simp add: running_start_def)
  next
    case (reach_step evs x ev y)
    from node_step_ends [OF reach_step.hyps(2)] reach_step.IH show ?case
      by (cases evs rule: rev_cases) (auto simp: butlast_append)
  qed
  moreover have "\<exists>y. node_step B E nd x Accepted y \<and> rn_conns y = rn_conns x @ [Handshaking]" if "rn_outcome x = None"
    using node_step.accepted [OF that] by fastforce
  ultimately show ?thesis using node_step_ends by fastforce
qed

lemma node_ends_example:
  "\<exists>nd w x y. noded_start (sample_libs (Inr ())) calm sample_conf enrolled = (Inr nd, w) \<and>
     node_reach (sample_libs (Inr ())) calm nd w ops_events x \<and> rn_outcome x = None \<and>
     node_step (sample_libs (Inr ())) calm nd x Accepted y"
proof -
  let ?B = "sample_libs (Inr ())"
  obtain nd w where nd: "noded_start ?B calm sample_conf enrolled = (Inr nd, w)"
    "w_fs w = w_fs enrolled" "ts_client_roots (nd_tls nd) = [''ca'']" by (rule sample_node)
  obtain x where x: "node_reach ?B calm nd w ops_events x" "rn_outcome x = None" using operator_run [OF nd] by blast
  from node_ends [OF x(1)] nd(1) x show ?thesis by auto
qed

end
