(* ===== verification/Concurrent_Writes.thy ===== *)
theory Concurrent_Writes
  imports Put_Success
begin

text \<open>
  Several writers at the same time. The management server answers requests on several threads
  and the renewal task runs beside them, so calls of \<open>est::write_atomic\<close> can overlap. Here a call
  is a state machine whose steps are its system calls, a thread writes a list of files one after the
  other, and any thread may make the next step. Threads with separate targets do not disturb each
  other; two calls for one target do, because they share the temporary file.
\<close>

section \<open>A call, one system call at a time\<close>

text \<open>What a call does next; the handle is the open temporary file.\<close>

datatype pc =
    MakeDir
  | OpenTmp
  | WriteTmp nat
  | SyncTmp nat
  | RenameTmp
  | OpenParent
  | SyncParent
  | Finished "err + unit"

fun proceed :: "('a \<Rightarrow> pc) \<Rightarrow> (err + 'a) \<times> world \<Rightarrow> pc \<times> world" where
  "proceed k (Inl e, w) = (Finished (Inl e), w)"
| "proceed k (Inr x, w) = (k x, w)"

fun wa_step :: "env \<Rightarrow> path \<Rightarrow> string \<Rightarrow> bool \<Rightarrow> pc \<Rightarrow> world \<Rightarrow> pc \<times> world" where
  "wa_step E p d priv MakeDir w =
     (case path_parent p of
        None \<Rightarrow> (Finished (Inl (Msg (''path has no parent directory: '' @ show_comps p))), w)
      | Some parent \<Rightarrow>
          proceed (\<lambda>_. OpenTmp) (io_ctx (''create directory '' @ show_comps parent) (create_dir_all E parent) w))"
| "wa_step E p d priv OpenTmp w =
     (case path_file_name p of
        None \<Rightarrow> (Finished (Inl (Msg (''path has no file name: '' @ show_comps p))), w)
      | Some n \<Rightarrow>
          proceed WriteTmp (io_ctx (''open temp file '' @ show_comps (tmp_of p))
            (open_trunc E (tmp_of p) (if priv then 0x180 else 0x1A4)) w))"
| "wa_step E p d priv (WriteTmp h) w =
     proceed (\<lambda>_. SyncTmp h) (io_ctx (''write '' @ show_comps (tmp_of p)) (write_all E h d) w)"
| "wa_step E p d priv (SyncTmp h) w =
     proceed (\<lambda>_. RenameTmp) (io_ctx (''fsync '' @ show_comps (tmp_of p)) (sync_file E h) w)"
| "wa_step E p d priv RenameTmp w =
     proceed (\<lambda>_. OpenParent) (io_ctx (''rename '' @ show_comps (tmp_of p) @ '' -> '' @ show_comps p)
       (rename E (tmp_of p) p) w)"
| "wa_step E p d priv OpenParent w =
     proceed (\<lambda>dir. case dir of Inl _ \<Rightarrow> Finished (Inr ()) | Inr _ \<Rightarrow> SyncParent)
       (io_attempt (open_dir E (butlast p)) w)"
| "wa_step E p d priv SyncParent w =
     proceed (\<lambda>_. Finished (Inr ())) (io_ignore (sync_dir E (butlast p)) w)"
| "wa_step E p d priv (Finished r) w = (Finished r, w)"

text \<open>Steps in a row; a finished call stays as it is.\<close>

fun wa_steps :: "env \<Rightarrow> path \<Rightarrow> string \<Rightarrow> bool \<Rightarrow> nat \<Rightarrow> pc \<times> world \<Rightarrow> pc \<times> world" where
  "wa_steps E p d priv 0 x = x"
| "wa_steps E p d priv (Suc n) (c, w) = wa_steps E p d priv n (wa_step E p d priv c w)"

lemma wa_steps_Finished [simp]: "wa_steps E p d priv n (Finished r, w) = (Finished r, w)"
  by (induction n) simp_all

text \<open>What is left of a call in each of its states, and how many steps that are at most.\<close>

definition after_rename :: "env \<Rightarrow> path \<Rightarrow> unit cmd" where
  "after_rename E p = io_bind (io_attempt (open_dir E (butlast p)))
     (\<lambda>dir. case dir of Inl _ \<Rightarrow> io_ret () | Inr _ \<Rightarrow> io_ignore (sync_dir E (butlast p)))"

definition after_sync :: "env \<Rightarrow> path \<Rightarrow> unit cmd" where
  "after_sync E p = io_then (io_ctx (''rename '' @ show_comps (tmp_of p) @ '' -> '' @ show_comps p)
     (rename E (tmp_of p) p)) (after_rename E p)"

definition after_write :: "env \<Rightarrow> path \<Rightarrow> nat \<Rightarrow> unit cmd" where
  "after_write E p h = io_then (io_ctx (''fsync '' @ show_comps (tmp_of p)) (sync_file E h)) (after_sync E p)"

definition after_open :: "env \<Rightarrow> path \<Rightarrow> string \<Rightarrow> nat \<Rightarrow> unit cmd" where
  "after_open E p d h = io_then (io_ctx (''write '' @ show_comps (tmp_of p)) (write_all E h d)) (after_write E p h)"

definition after_mkdir :: "env \<Rightarrow> path \<Rightarrow> string \<Rightarrow> bool \<Rightarrow> unit cmd" where
  "after_mkdir E p d priv =
     (case path_file_name p of
        None \<Rightarrow> io_err (Msg (''path has no file name: '' @ show_comps p))
      | Some n \<Rightarrow> io_bind (io_ctx (''open temp file '' @ show_comps (tmp_of p))
          (open_trunc E (tmp_of p) (if priv then 0x180 else 0x1A4))) (after_open E p d))"

fun wa_rest :: "env \<Rightarrow> path \<Rightarrow> string \<Rightarrow> bool \<Rightarrow> pc \<Rightarrow> unit cmd" where
  "wa_rest E p d priv MakeDir = write_atomic E p d priv"
| "wa_rest E p d priv OpenTmp = after_mkdir E p d priv"
| "wa_rest E p d priv (WriteTmp h) = after_open E p d h"
| "wa_rest E p d priv (SyncTmp h) = after_write E p h"
| "wa_rest E p d priv RenameTmp = after_sync E p"
| "wa_rest E p d priv OpenParent = after_rename E p"
| "wa_rest E p d priv SyncParent = io_ignore (sync_dir E (butlast p))"
| "wa_rest E p d priv (Finished r) = io_lift r"

fun rank :: "pc \<Rightarrow> nat" where
  "rank MakeDir = 7"
| "rank OpenTmp = 6"
| "rank (WriteTmp h) = 5"
| "rank (SyncTmp h) = 4"
| "rank RenameTmp = 3"
| "rank OpenParent = 2"
| "rank SyncParent = 1"
| "rank (Finished r) = 0"

lemma write_atomic_rest:
  "path_parent p = Some parent \<Longrightarrow> write_atomic E p d priv =
     io_then (io_ctx (''create directory '' @ show_comps parent) (create_dir_all E parent)) (after_mkdir E p d priv)"
  using path_parent_Some [of p parent]
  by (cases "path_file_name p")
    (simp_all add: write_atomic_def after_mkdir_def after_open_def [abs_def] after_write_def after_sync_def after_rename_def
      tmp_of_eq Let_def)

lemma proceed_bind:
  assumes "\<And>x. f x = wa_rest E p d priv (k x)"
  shows "(case proceed k (m w) of (c', w1) \<Rightarrow> wa_rest E p d priv c' w1) = io_bind m f w"
  using assms by (cases "m w"; cases "fst (m w)") (auto simp: io_bind_def)

lemma wa_step_rest: "(case wa_step E p d priv c w of (c', w1) \<Rightarrow> wa_rest E p d priv c' w1) = wa_rest E p d priv c w"
proof (cases c)
  case MakeDir
  show ?thesis
  proof (cases "path_parent p")
    case None
    then show ?thesis by (simp add: MakeDir write_atomic_def io_defs)
  next
    case (Some parent)
    show ?thesis
      unfolding MakeDir wa_rest.simps(1) write_atomic_rest [OF Some] wa_step.simps Some option.case io_then_def
      by (intro proceed_bind) simp
  qed
next
  case OpenTmp
  show ?thesis
  proof (cases "path_file_name p")
    case None
    then show ?thesis by (simp add: OpenTmp after_mkdir_def io_defs)
  next
    case (Some n)
    show ?thesis
      unfolding OpenTmp wa_rest.simps(2) after_mkdir_def wa_step.simps Some option.case by (intro proceed_bind) simp
  qed
next
  case OpenParent
  show ?thesis
    unfolding OpenParent wa_rest.simps(6) after_rename_def wa_step.simps
    by (intro proceed_bind) (simp add: io_lift_def io_ret_def split: sum.split)
next
  case SyncParent
  show ?thesis by (simp add: SyncParent io_ignore_run)
next
  case (Finished r)
  show ?thesis by (simp add: Finished)
qed (simp_all only: wa_rest.simps wa_step.simps after_open_def after_write_def after_sync_def io_then_def,
  (intro proceed_bind; simp only: wa_rest.simps after_open_def after_write_def after_sync_def io_then_def)+)

lemma wa_step_rank: "wa_step E p d priv c w = (c', w1) \<Longrightarrow> rank c' \<le> rank c - 1"
  by (cases c; cases "wa_step E p d priv c w")
    (auto simp: io_attempt_run elim!: proceed.elims split: option.splits sum.splits)

lemma wa_steps_rest: "wa_steps E p d priv n (c, w) = (c', w1) \<Longrightarrow> wa_rest E p d priv c' w1 = wa_rest E p d priv c w"
proof (induction n arbitrary: c w)
  case 0
  then show ?case by simp
next
  case (Suc n)
  obtain c1 v where "wa_step E p d priv c w = (c1, v)" by (cases "wa_step E p d priv c w")
  with Suc wa_step_rest [of E p d priv c w] show ?case by simp
qed

lemma wa_steps_rank: "wa_steps E p d priv n (c, w) = (c', w1) \<Longrightarrow> rank c' \<le> rank c - n"
proof (induction n arbitrary: c w)
  case 0
  then show ?case by simp
next
  case (Suc n)
  obtain c1 v where st: "wa_step E p d priv c w = (c1, v)" by (cases "wa_step E p d priv c w")
  with Suc have "rank c' \<le> rank c1 - n" by simp
  with wa_step_rank [OF st] show ?case by linarith
qed

lemma rank_0: "rank c = 0 \<longleftrightarrow> (\<exists>r. c = Finished r)"
  by (cases c) simp_all

text \<open>Seven steps of a call are the call.\<close>

lemma wa_steps_write_atomic:
  assumes "write_atomic E p d priv w = (r, w')"
  shows "wa_steps E p d priv 7 (MakeDir, w) = (Finished r, w')"
proof -
  obtain c v where cv: "wa_steps E p d priv 7 (MakeDir, w) = (c, v)" by (cases "wa_steps E p d priv 7 (MakeDir, w)")
  with wa_steps_rank [OF cv] obtain q where "c = Finished q" using rank_0 by auto
  with wa_steps_rest [OF cv] assms cv show ?thesis by simp
qed

section \<open>Threads\<close>

text \<open>
  A thread writes its items in order, as \<open>put_items\<close> does, and stops at the first error.
\<close>

record thread =
  th_items :: "put_item list"
  th_next :: nat
  th_pc :: pc

definition thread_start :: "put_item list \<Rightarrow> thread" where
  "thread_start its = \<lparr>th_items = its, th_next = 0, th_pc = MakeDir\<rparr>"

definition thread_step :: "env \<Rightarrow> thread \<Rightarrow> world \<Rightarrow> thread \<times> world" where
  "thread_step E t w =
     (if th_next t < length (th_items t)
      then (case th_items t ! th_next t of
              (c, p, d, priv) \<Rightarrow>
                (case wa_step E p d priv (th_pc t) w of
                   (Finished (Inr _), w') \<Rightarrow> (t\<lparr>th_next := Suc (th_next t), th_pc := MakeDir\<rparr>, w')
                 | (pc', w') \<Rightarrow> (t\<lparr>th_pc := pc'\<rparr>, w')))
      else (t, w))"

definition th_result :: "thread \<Rightarrow> (err + unit) option" where
  "th_result t =
     (if th_next t < length (th_items t)
      then (case th_pc t of
              Finished (Inl e) \<Rightarrow> (case th_items t ! th_next t of (c, p, d, priv) \<Rightarrow> Some (Inl (Ctx c e)))
            | _ \<Rightarrow> None)
      else Some (Inr ()))"

text \<open>Any thread may make the next step.\<close>

inductive conc_step :: "env \<Rightarrow> thread list \<times> world \<Rightarrow> thread list \<times> world \<Rightarrow> bool" for E :: env where
  conc: "i < length ts \<Longrightarrow> thread_step E (ts ! i) w = (t, w') \<Longrightarrow> conc_step E (ts, w) (ts[i := t], w')"

inductive conc_reach :: "env \<Rightarrow> thread list \<times> world \<Rightarrow> thread list \<times> world \<Rightarrow> bool"
  for E :: env and x :: "thread list \<times> world" where
  conc_start: "conc_reach E x x"
| conc_more: "conc_reach E x y \<Longrightarrow> conc_step E y z \<Longrightarrow> conc_reach E x z"

inductive_cases conc_stepE: "conc_step E (ts, w) y"

section \<open>One call beside others\<close>

text \<open>
  What a call at \<open>pc\<close> relies on and has done so far, in a state \<open>s\<close> reached from \<open>s0\<close>: the temporary
  file is its own, and the target is as it was until the rename and new from then on.
\<close>

fun tmp_ok :: "fsys \<Rightarrow> path \<Rightarrow> string \<Rightarrow> pc \<Rightarrow> bool" where
  "tmp_ok s p d (WriteTmp h) \<longleftrightarrow> cur s (tmp_of p) = FileAt h \<and> i_data (fs_inodes s h) = []"
| "tmp_ok s p d (SyncTmp h) \<longleftrightarrow> cur s (tmp_of p) = FileAt h \<and> i_data (fs_inodes s h) = d"
| "tmp_ok s p d RenameTmp \<longleftrightarrow>
     (\<exists>h. cur s (tmp_of p) = FileAt h \<and> i_data (fs_inodes s h) = d \<and> i_synced (fs_inodes s h))"
| "tmp_ok s p d _ \<longleftrightarrow> True"

fun renamed :: "pc \<Rightarrow> bool" where
  "renamed OpenParent \<longleftrightarrow> True"
| "renamed SyncParent \<longleftrightarrow> True"
| "renamed (Finished (Inr _)) \<longleftrightarrow> True"
| "renamed _ \<longleftrightarrow> False"

definition call_ok :: "fsys \<Rightarrow> fsys \<Rightarrow> path \<Rightarrow> string \<Rightarrow> pc \<Rightarrow> bool" where
  "call_ok s0 s p d c \<longleftrightarrow> tmp_ok s p d c \<and> (if renamed c then installed s0 s p d else agree s0 s p)"

lemma installed_agree:
  assumes "installed s0 s p d" and "agree s t p"
  shows "installed s0 t p d"
proof -
  obtain i where i: "cur s p = FileAt i" "i_data (fs_inodes s i) = d" "i_synced (fs_inodes s i)"
    "set (vers s p) \<subseteq> insert (FileAt i) (set (vers s0 p) \<union> (if cur s0 p = Absent then {Directory} else {}))"
    "\<And>j. FileAt j \<in> set (vers s p) \<Longrightarrow> j \<noteq> i \<Longrightarrow> fs_inodes s j = fs_inodes s0 j"
    using assms(1) unfolding installed_def by blast
  have t: "cur t p = FileAt i" "set (vers t p) \<subseteq> set (vers s p)"
    "\<And>j. FileAt j \<in> set (vers t p) \<Longrightarrow> fs_inodes t j = fs_inodes s j"
    using assms(2) i(1) by (auto simp: agree_def)
  have "fs_inodes t i = fs_inodes s i" using t(1,3) cur_in_vers [of t p] by metis
  with i t show ?thesis unfolding installed_def by (intro exI [of _ i]) (auto simp: subset_iff)
qed

lemma agree_installed:
  assumes "agree s0 s p" and "installed s t p d"
  shows "installed s0 t p d"
  using assms unfolding installed_def agree_def
  by (elim exE) (rule exI, auto split: if_splits)

lemma tmp_ok_agree:
  assumes "tmp_ok s p d c" and "agree s t (tmp_of p)"
  shows "tmp_ok t p d c"
proof -
  have "cur t (tmp_of p) = FileAt h \<and> fs_inodes t h = fs_inodes s h" if "cur s (tmp_of p) = FileAt h" for h
    using assms(2) that cur_in_vers [of t "tmp_of p"] by (auto simp: agree_def)
  with assms(1) show ?thesis by (cases c) auto
qed

text \<open>A step of another thread that leaves target and temporary file alone does not disturb the call.\<close>

lemma call_ok_agree:
  "call_ok s0 s p d c \<Longrightarrow> agree s t p \<Longrightarrow> agree s t (tmp_of p) \<Longrightarrow> call_ok s0 t p d c"
  by (auto simp: call_ok_def intro: tmp_ok_agree installed_agree agree_trans)

text \<open>Its own step takes the call to its next state and touches nothing but target and temporary file.\<close>

definition step_ok :: "fsys \<Rightarrow> path \<Rightarrow> string \<Rightarrow> world \<Rightarrow> pc \<Rightarrow> world \<Rightarrow> bool" where
  "step_ok s0 p d w c' w' \<longleftrightarrow>
     wf_fs (w_fs w') \<and> call_ok s0 (w_fs w') p d c' \<and>
     (\<forall>q. q \<noteq> p \<longrightarrow> q \<noteq> tmp_of p \<longrightarrow> agree (w_fs w) (w_fs w') q)"

lemma proceed_ok:
  assumes "triple P m Q R" and "P w" and "proceed k (io_ctx x m w) = (c', w')"
    and "\<And>y v. Q y v \<Longrightarrow> G (k y) v" and "\<And>e v. R e v \<Longrightarrow> G (Finished (Inl (Ctx x e))) v"
  shows "G c' w'"
  using assms by (cases "m w"; cases "fst (m w)") (auto simp: io_ctx_def triple_def)

lemma step_ok_before:
  assumes "agree s0 (w_fs w) p" and "p \<noteq> tmp_of p" and "wa_before w p d w'" and "\<not> renamed c'" and "tmp_ok (w_fs w') p d c'"
  shows "step_ok s0 p d w c' w'"
  using assms by (auto simp: step_ok_def call_ok_def wa_before_def intro: agree_trans)

lemma step_ok_after:
  assumes "wa_after w p d w'" and "agree s0 (w_fs w) p" and "renamed c'" and "tmp_ok (w_fs w') p d c'"
  shows "step_ok s0 p d w c' w'"
  using assms by (auto simp: step_ok_def call_ok_def wa_after_def intro: agree_installed)

lemma wa_step_ok:
  assumes "is_target p" and "wf_fs (w_fs w)" and "call_ok s0 (w_fs w) p d c" and "wa_step E p d priv c w = (c', w')"
  shows "step_ok s0 p d w c' w'"
proof -
  obtain n where n: "path_file_name p = Some n" "\<not> is_tmp p" using assms(1) by (auto simp: is_target_def)
  obtain par where par: "path_parent p = Some par"
    using n(1) by (auto simp: path_file_name_def path_parent_def split: if_splits component.splits)
  note t = tmp_of_facts [OF n]
  have b: "wa_before w p d w" by (rule wa_before_start [OF assms(2)])
  note fail = step_ok_before [OF _ t(2), of s0 w d]
  show ?thesis
  proof (cases c)
    case MakeDir
    then have ag: "agree s0 (w_fs w) p" using assms(3) by (simp add: call_ok_def)
    show ?thesis
      by (rule proceed_ok [where G = "step_ok s0 p d w", OF wa_mkdir [OF t(2)] b assms(4) [unfolded MakeDir wa_step.simps par option.case]])
        (simp_all add: fail [OF ag])
  next
    case OpenTmp
    then have ag: "agree s0 (w_fs w) p" using assms(3) by (simp add: call_ok_def)
    show ?thesis
      by (rule proceed_ok [where G = "step_ok s0 p d w", OF wa_open [OF t(2,1)] b assms(4) [unfolded OpenTmp wa_step.simps n(1) option.case]])
        (simp_all add: wa_tmp_def fail [OF ag])
  next
    case (WriteTmp h)
    then have ag: "agree s0 (w_fs w) p" and wt: "wa_tmp w p d h (\<lambda>n. i_data n = []) w"
      using assms(3) b by (simp_all add: call_ok_def wa_tmp_def)
    show ?thesis
      by (rule proceed_ok [where G = "step_ok s0 p d w", OF wa_write [OF t(2,1)] wt assms(4) [unfolded WriteTmp wa_step.simps]])
        (simp_all add: wa_tmp_def fail [OF ag])
  next
    case (SyncTmp h)
    then have ag: "agree s0 (w_fs w) p" and wt: "wa_tmp w p d h (\<lambda>n. i_data n = d) w"
      using assms(3) b by (simp_all add: call_ok_def wa_tmp_def)
    show ?thesis
      by (rule proceed_ok [where G = "step_ok s0 p d w", OF wa_sync [OF t(2,1)] wt assms(4) [unfolded SyncTmp wa_step.simps]])
        (simp_all add: wa_tmp_def fail [OF ag])
  next
    case RenameTmp
    then obtain h where ag: "agree s0 (w_fs w) p" and wt: "wa_tmp w p d h (\<lambda>n. i_data n = d \<and> i_synced n) w"
      using assms(3) b by (auto simp: call_ok_def wa_tmp_def)
    show ?thesis
      by (rule proceed_ok [where G = "step_ok s0 p d w", OF wa_rename [OF t(2,1) n(2)] wt assms(4) [unfolded RenameTmp wa_step.simps]])
        (simp_all add: fail [OF ag] step_ok_after [OF _ ag])
  next
    case OpenParent
    then have "w_fs w' = w_fs w" "renamed c'" "tmp_ok (w_fs w') p d c'"
      using assms(4) by (auto simp: io_attempt_run open_dir_def prim_def split: option.splits sum.splits if_splits)
    with assms(2,3) show ?thesis by (auto simp: OpenParent step_ok_def call_ok_def)
  next
    case SyncParent
    then have s: "w_fs w' = w_fs w \<or> w_fs w' = fs_sync_dir (butlast p) (w_fs w)" "c' = Finished (Inr ())"
      using assms(4) by (auto simp: io_ignore_run sync_dir_def prim_def split: option.splits)
    with assms(2,3) show ?thesis
      by (auto simp: SyncParent step_ok_def call_ok_def wf_sync_dir installed_sync_dir agree_sync_dir)
  next
    case (Finished r)
    with assms show ?thesis by (simp add: step_ok_def)
  qed
qed

section \<open>Threads beside each other\<close>

lemma tmp_of_inj:
  assumes "is_target p" and "is_target q" and "tmp_of p = tmp_of q"
  shows "p = q"
proof -
  obtain n m where n: "path_file_name p = Some n" "path_file_name q = Some m"
    using assms(1,2) by (auto simp: is_target_def)
  then obtain d e where "p = d @ [Normal n]" "q = e @ [Normal m]" by (auto simp: path_file_name_Some)
  with assms(3) n show ?thesis by (simp add: tmp_of_def path_join_def tmp_name_def)
qed

text \<open>Targets that have nothing to do with each other.\<close>

definition apart :: "put_item list \<Rightarrow> bool" where
  "apart its \<longleftrightarrow>
     list_all (\<lambda>it. is_target (item_path it)) its \<and> distinct (map item_path its) \<and>
     list_all (\<lambda>it. list_all (\<lambda>it'. list_all (\<lambda>q. q \<noteq> item_path it' \<and> q \<noteq> tmp_of (item_path it'))
       (butlast (path_prefixes (item_path it)))) its) its"

definition touches :: "put_item list \<Rightarrow> path set" where
  "touches its = item_path ` set its \<union> tmp_of ` item_path ` set its"

definition thread_ok :: "fsys \<Rightarrow> fsys \<Rightarrow> thread \<Rightarrow> bool" where
  "thread_ok s0 s t \<longleftrightarrow>
     th_next t \<le> length (th_items t) \<and>
     (\<forall>k < th_next t. installed s0 s (item_path (th_items t ! k)) (item_data (th_items t ! k))) \<and>
     (th_next t < length (th_items t) \<longrightarrow>
        call_ok s0 s (item_path (th_items t ! th_next t)) (item_data (th_items t ! th_next t)) (th_pc t)) \<and>
     (\<forall>k. th_next t < k \<longrightarrow> k < length (th_items t) \<longrightarrow> agree s0 s (item_path (th_items t ! k)))"

lemma thread_ok_start: "thread_ok s s (thread_start its)"
  by (simp add: thread_ok_def thread_start_def call_ok_def)

lemma thread_ok_agree:
  assumes "thread_ok s0 s t" and "\<And>q. q \<in> touches (th_items t) \<Longrightarrow> agree s s' q"
  shows "thread_ok s0 s' t"
proof -
  have ag: "agree s s' (item_path (th_items t ! k))" "agree s s' (tmp_of (item_path (th_items t ! k)))"
    if "k < length (th_items t)" for k
    using that by (auto intro!: assms(2) simp: touches_def)
  with assms(1) show ?thesis
    unfolding thread_ok_def by (auto intro: installed_agree call_ok_agree agree_trans)
qed

lemma thread_step_ok:
  assumes "list_all (\<lambda>it. is_target (item_path it)) (th_items t)" and "distinct (map item_path (th_items t))"
    and "wf_fs (w_fs w)" and "thread_ok s0 (w_fs w) t" and "thread_step E t w = (t', w')"
  shows "wf_fs (w_fs w') \<and> thread_ok s0 (w_fs w') t' \<and> th_items t' = th_items t \<and>
    (\<forall>q. q \<notin> touches (th_items t) \<longrightarrow> agree (w_fs w) (w_fs w') q)"
proof (cases "th_next t < length (th_items t)")
  case False
  with assms show ?thesis by (simp add: thread_step_def)
next
  case True
  let ?its = "th_items t" and ?n = "th_next t"
  obtain c p d b where it: "?its ! ?n = (c, p, d, b)" by (cases "?its ! ?n")
  have p: "is_target p" and in_p: "(c, p, d, b) \<in> set ?its"
    using assms(1) True it nth_mem [OF True] by (auto simp: list_all_length)
  obtain c' where st: "wa_step E p d b (th_pc t) w = (c', w')"
    and t': "t' = (if \<exists>u. c' = Finished (Inr u) then t\<lparr>th_next := Suc ?n, th_pc := MakeDir\<rparr> else t\<lparr>th_pc := c'\<rparr>)"
    using assms(5) True it by (auto simp: thread_step_def split: prod.splits pc.splits sum.splits)
  have "call_ok s0 (w_fs w) p d (th_pc t)" using assms(4) True it by (simp add: thread_ok_def)
  from wa_step_ok [OF p assms(3) this st] have wf: "wf_fs (w_fs w')" and ok: "call_ok s0 (w_fs w') p d c'"
    and ag: "\<And>q. q \<noteq> p \<Longrightarrow> q \<noteq> tmp_of p \<Longrightarrow> agree (w_fs w) (w_fs w') q"
    by (simp_all add: step_ok_def)
  have others: "agree (w_fs w) (w_fs w') (item_path (?its ! k))" if "k < length ?its" "k \<noteq> ?n" for k
  proof (rule ag)
    show "item_path (?its ! k) \<noteq> p" using assms(2) that True it by (metis item_path.simps length_map nth_eq_iff_index_eq nth_map)
    show "item_path (?its ! k) \<noteq> tmp_of p"
      using assms(1) that(1) by (intro is_target_not_tmp [OF _ p]) (simp add: list_all_length)
  qed
  have rest: "\<forall>k < ?n. installed s0 (w_fs w') (item_path (?its ! k)) (item_data (?its ! k))"
    "\<forall>k. ?n < k \<longrightarrow> k < length ?its \<longrightarrow> agree s0 (w_fs w') (item_path (?its ! k))"
    using assms(4) True others unfolding thread_ok_def by (auto intro: installed_agree agree_trans)
  have "thread_ok s0 (w_fs w') t'"
  proof (cases "\<exists>u. c' = Finished (Inr u)")
    case fin: True
    then have "installed s0 (w_fs w') p d" using ok by (auto simp: call_ok_def)
    with rest True it fin show ?thesis by (auto simp: t' thread_ok_def less_Suc_eq call_ok_def)
  next
    case False
    with rest True it ok show ?thesis by (simp add: t' thread_ok_def)
  qed
  moreover have "agree (w_fs w) (w_fs w') q" if "q \<notin> touches ?its" for q
    using that in_p by (intro ag) (force simp: touches_def)+
  ultimately show ?thesis using wf by (simp add: t')
qed

definition conc_ok :: "put_item list list \<Rightarrow> fsys \<Rightarrow> thread list \<times> world \<Rightarrow> bool" where
  "conc_ok itss s0 x \<longleftrightarrow>
     wf_fs (w_fs (snd x)) \<and> map th_items (fst x) = itss \<and> (\<forall>t \<in> set (fst x). thread_ok s0 (w_fs (snd x)) t) \<and>
     (\<forall>q. q \<notin> touches (concat itss) \<longrightarrow> agree s0 (w_fs (snd x)) q)"

lemma touches_concat: "touches (concat itss) = (\<Union>its \<in> set itss. touches its)"
  by (auto simp: touches_def)

lemma apart_item: "apart its \<Longrightarrow> it \<in> set its \<Longrightarrow> is_target (item_path it)"
  by (simp add: apart_def list_all_iff)

lemma distinct_concat_nth:
  assumes "distinct (concat xss)" and "i < length xss" and "j < length xss" and "i \<noteq> j"
    and "x \<in> set (xss ! i)" and "x \<in> set (xss ! j)"
  shows False
proof -
  have "\<exists>i<length xss. \<exists>j<length xss. i < j \<and> x \<in> set (xss ! i) \<and> x \<in> set (xss ! j)"
    using assms by (metis linorder_neqE_nat)
  then obtain i j where ij: "i < j" "j < length xss" "x \<in> set (xss ! i)" "x \<in> set (xss ! j)" by auto
  then have "concat xss = concat (take j xss) @ xss ! j @ concat (drop (Suc j) xss)"
    by (metis concat.simps(2) concat_append id_take_nth_drop)
  moreover have "x \<in> set (concat (take j xss))"
  proof -
    have "xss ! i \<in> set (take j xss)" using ij(1,2) by (metis in_set_conv_nth length_take min.absorb4 nth_take)
    with ij(3) show ?thesis by auto
  qed
  ultimately show False using assms(1) ij(4) by (auto simp: distinct_append)
qed

lemma touches_disjoint:
  assumes "apart (concat itss)" and "i < length itss" and "j < length itss" and "i \<noteq> j"
    and "q \<in> touches (itss ! i)"
  shows "q \<notin> touches (itss ! j)"
proof
  assume "q \<in> touches (itss ! j)"
  have targets: "is_target (item_path it)" if "it \<in> set (itss ! k)" "k < length itss" for it k
    using that by (intro apart_item [OF assms(1)]) auto
  have ne: "item_path a \<noteq> item_path b" if "a \<in> set (itss ! i)" "b \<in> set (itss ! j)" for a b
  proof
    assume eq: "item_path a = item_path b"
    have "distinct (concat (map (map item_path) itss))"
      using assms(1) by (simp add: apart_def map_concat)
    moreover have "item_path a \<in> set (map item_path (itss ! i))" "item_path a \<in> set (map item_path (itss ! j))"
      using that(1) by (simp, metis that(2) eq image_eqI list.set_map)
    ultimately show False using distinct_concat_nth [of "map (map item_path) itss" i j] assms(2-4) by auto
  qed
  from assms(5) \<open>q \<in> touches (itss ! j)\<close> obtain a b where ab: "a \<in> set (itss ! i)" "b \<in> set (itss ! j)"
    and q: "q = item_path a \<or> q = tmp_of (item_path a)" "q = item_path b \<or> q = tmp_of (item_path b)"
    by (auto simp: touches_def)
  note ta = targets [OF ab(1) assms(2)] and tb = targets [OF ab(2) assms(3)]
  show False
    using q ne [OF ab] is_target_not_tmp [OF ta tb] is_target_not_tmp [OF tb ta] tmp_of_inj [OF ta tb] by metis
qed

lemma conc_step_ok:
  assumes "apart (concat itss)" and "conc_ok itss s0 x" and "conc_step E x y"
  shows "conc_ok itss s0 y"
  using assms(3)
proof cases
  case (conc i ts w t w')
  have its: "map th_items ts = itss" and ok: "\<And>j. j < length ts \<Longrightarrow> thread_ok s0 (w_fs w) (ts ! j)"
    and wf: "wf_fs (w_fs w)" and out: "\<And>q. q \<notin> touches (concat itss) \<Longrightarrow> agree s0 (w_fs w) q"
    using assms(2) by (simp_all add: conc(1) conc_ok_def)
  have item: "itss ! j = th_items (ts ! j)" if "j < length ts" for j using its that by auto
  have len: "length itss = length ts" using its by auto
  have in_i: "set (th_items (ts ! i)) \<subseteq> set (concat itss)" using conc(3) len item [OF conc(3)] by (force simp: in_set_conv_nth)
  have tg: "list_all (\<lambda>it. is_target (item_path it)) (th_items (ts ! i))"
    using assms(1) in_i by (auto simp: apart_def list_all_iff)
  have "distinct (map item_path (itss ! i))"
    using assms(1) conc(3) len by (auto simp: apart_def map_concat distinct_concat_iff)
  then have dis: "distinct (map item_path (th_items (ts ! i)))" by (simp add: item conc(3))
  from thread_step_ok [OF tg dis wf ok [OF conc(3)] conc(4)]
  have wf': "wf_fs (w_fs w')" and t: "thread_ok s0 (w_fs w') t" "th_items t = th_items (ts ! i)"
    and ag: "\<And>q. q \<notin> touches (itss ! i) \<Longrightarrow> agree (w_fs w) (w_fs w') q"
    by (simp_all add: item conc(3))
  have "thread_ok s0 (w_fs w') (ts[i := t] ! j)" if j: "j < length ts" for j
  proof (cases "j = i")
    case True
    with t j show ?thesis by simp
  next
    case False
    have "agree (w_fs w) (w_fs w') q" if "q \<in> touches (th_items (ts ! j))" for q
      using touches_disjoint [OF assms(1), of j i q] that j conc(3) len item False by (intro ag) auto
    with thread_ok_agree [OF ok [OF j]] False show ?thesis by simp
  qed
  then have "\<forall>u \<in> set (ts[i := t]). thread_ok s0 (w_fs w') u" by (auto simp: in_set_conv_nth)
  moreover have "map th_items (ts[i := t]) = itss" using its t(2) conc(3) by (auto simp: map_update list_update_same_conv)
  moreover have "agree s0 (w_fs w') q" if "q \<notin> touches (concat itss)" for q
  proof (rule agree_trans [OF out [OF that] ag])
    show "q \<notin> touches (itss ! i)" using that conc(3) len by (auto simp: touches_concat)
  qed
  ultimately show ?thesis using wf' by (simp add: conc(2) conc_ok_def)
qed

lemma conc_reach_ok:
  assumes "apart (concat itss)" and "conc_reach E x y" and "conc_ok itss s0 x"
  shows "conc_ok itss s0 y"
  using assms(2,3) by (induction rule: conc_reach.induct) (auto intro: conc_step_ok [OF assms(1)])

lemma conc_ok_start: "wf_fs (w_fs w) \<Longrightarrow> conc_ok itss (w_fs w) (map thread_start itss, w)"
  by (auto simp: conc_ok_def thread_ok_start comp_def thread_start_def [abs_def])
     (simp add: thread_ok_start [unfolded thread_start_def])

text \<open>What a thread's state says about its files.\<close>

lemma commit_prefixI:
  assumes "k \<le> length its" and "\<And>j. j < k \<Longrightarrow> content t (item_path (its ! j)) = Some (item_data (its ! j))"
    and "\<And>j. k \<le> j \<Longrightarrow> j < length its \<Longrightarrow> content t (item_path (its ! j)) = content s (item_path (its ! j))"
  shows "commit_prefix s its t"
proof -
  have "content t (item_path it) = Some (item_data it)" if it: "it \<in> set (take k its)" for it
  proof -
    obtain j where "j < k" "it = its ! j" using it nth_image [OF assms(1)] by (metis atLeastLessThan_iff imageE)
    with assms(2) show ?thesis by simp
  qed
  moreover have "content t (item_path it) = content s (item_path it)" if it: "it \<in> set (drop k its)" for it
  proof -
    obtain j where "j < length its - k" "it = its ! (k + j)" using it assms(1) by (metis in_set_conv_nth length_drop nth_drop)
    with assms(3) [of "k + j"] show ?thesis by simp
  qed
  ultimately show ?thesis using assms(1) unfolding commit_prefix_def by blast
qed

lemma thread_ok_prefix:
  assumes "thread_ok s0 s t"
  shows "commit_prefix s0 (th_items t) s"
proof -
  let ?its = "th_items t" and ?n = "th_next t"
  define k where "k = (if ?n < length ?its \<and> renamed (th_pc t) then Suc ?n else ?n)"
  have "k \<le> length ?its" using assms by (auto simp: k_def thread_ok_def)
  moreover have "content s (item_path (?its ! j)) = Some (item_data (?its ! j))" if "j < k" for j
    using assms that by (auto simp: k_def thread_ok_def call_ok_def less_Suc_eq intro: installed_content split: if_splits)
  moreover have "content s (item_path (?its ! j)) = content s0 (item_path (?its ! j))" if "k \<le> j" "j < length ?its" for j
    using assms that
    by (cases "j = ?n") (auto simp: k_def thread_ok_def call_ok_def intro: agree_content split: if_splits)
  ultimately show ?thesis by (rule commit_prefixI)
qed

lemma thread_ok_done:
  assumes "thread_ok s0 s t" and "th_result t = Some (Inr ())" and "it \<in> set (th_items t)"
  shows "installed s0 s (item_path it) (item_data it)"
proof -
  have "th_next t = length (th_items t)"
    using assms(1,2) by (auto simp: thread_ok_def th_result_def split: if_splits pc.splits sum.splits prod.splits)
  with assms(1,3) show ?thesis by (auto simp: thread_ok_def in_set_conv_nth)
qed

lemma thread_ok_item:
  assumes "thread_ok s0 s t" and "it \<in> set (th_items t)"
  shows "agree s0 s (item_path it) \<or> installed s0 s (item_path it) (item_data it)"
proof -
  obtain k where "k < length (th_items t)" "it = th_items t ! k" using assms(2) by (auto simp: in_set_conv_nth)
  with assms(1) show ?thesis
    by (cases k "th_next t" rule: linorder_cases) (auto simp: thread_ok_def call_ok_def split: if_splits)
qed

lemma conc_ok_survives:
  assumes "apart (concat itss)" and "conc_ok itss s0 (ts, w)" and "t \<in> set ts" and "it \<in> set (th_items t)"
    and "survives (w_fs w) (item_path it) v"
  shows "v = Some (item_data it) \<or> survives s0 (item_path it) v"
proof -
  have in_all: "it \<in> set (concat itss)" using assms(2-4) by (auto simp: conc_ok_def)
  have anc: "agree s0 (w_fs w) q" if "q \<in> set (butlast (path_prefixes (item_path it)))" for q
  proof -
    have "q \<notin> touches (concat itss)"
      using assms(1) in_all that unfolding apart_def touches_def list_all_iff by blast
    with assms(2) show ?thesis by (simp add: conc_ok_def)
  qed
  have "thread_ok s0 (w_fs w) t" using assms(2,3) by (simp add: conc_ok_def)
  from thread_ok_item [OF this assms(4)] show ?thesis
    using anc agree_survives installed_survives assms(5) by blast
qed

section \<open>A thread alone\<close>

fun thread_steps :: "env \<Rightarrow> nat \<Rightarrow> thread \<times> world \<Rightarrow> thread \<times> world" where
  "thread_steps E 0 x = x"
| "thread_steps E (Suc n) (t, w) = thread_steps E n (thread_step E t w)"

lemma thread_steps_add: "thread_steps E (m + n) x = thread_steps E n (thread_steps E m x)"
proof (induction m arbitrary: x)
  case (Suc m)
  then show ?case by (cases x) simp
qed simp

text \<open>The thread finishes the call it is in within its rank.\<close>

definition th_after :: "thread \<Rightarrow> err + unit \<Rightarrow> thread" where
  "th_after t r = (case r of
     Inr _ \<Rightarrow> t\<lparr>th_next := Suc (th_next t), th_pc := MakeDir\<rparr> | Inl e \<Rightarrow> t\<lparr>th_pc := Finished (Inl e)\<rparr>)"

lemma thread_call:
  assumes "th_next t < length (th_items t)" and "th_items t ! th_next t = (x, p, d, b)" and "rank (th_pc t) \<noteq> 0"
    and "wa_rest E p d b (th_pc t) w = (r, w')"
  shows "\<exists>k \<le> rank (th_pc t). thread_steps E k (t, w) = (th_after t r, w')"
  using assms
proof (induction "rank (th_pc t)" arbitrary: t w rule: less_induct)
  case less
  obtain c' v where st: "wa_step E p d b (th_pc t) w = (c', v)" by (cases "wa_step E p d b (th_pc t) w")
  have rk: "rank c' < rank (th_pc t)" using wa_step_rank [OF st] less.prems(3) by linarith
  have rest: "wa_rest E p d b c' v = (r, w')" using wa_step_rest [of E p d b "th_pc t" w] st less.prems(4) by simp
  show ?case
  proof (cases "rank c' = 0")
    case True
    then obtain q where q: "c' = Finished q" using rank_0 by blast
    with rest have "q = r" "v = w'" by auto
    with q st less.prems(1,2) have "thread_step E t w = (th_after t r, w')"
      by (auto simp: thread_step_def th_after_def split: sum.split)
    then have "thread_steps E 1 (t, w) = (th_after t r, w')" by simp
    then show ?thesis using less.prems(3) by (intro exI [of _ 1]) simp
  next
    case False
    then have "thread_step E t w = (t\<lparr>th_pc := c'\<rparr>, v)"
      using st less.prems(1,2) by (auto simp: thread_step_def split: pc.splits sum.splits)
    moreover obtain k where "k \<le> rank c'" "thread_steps E k (t\<lparr>th_pc := c'\<rparr>, v) = (th_after (t\<lparr>th_pc := c'\<rparr>) r, w')"
      using less.hyps [of "t\<lparr>th_pc := c'\<rparr>" v] rk False rest less.prems(1,2) by auto
    moreover have "th_after (t\<lparr>th_pc := c'\<rparr>) r = th_after t r" by (simp add: th_after_def split: sum.split)
    ultimately show ?thesis using rk by (intro exI [of _ "Suc k"]) simp
  qed
qed

lemma thread_items:
  assumes "put_items (write_atomic E) its w = (r, w')" and "th_pc t = MakeDir" and "th_items t = pre @ its"
    and "th_next t = length pre"
  shows "\<exists>k \<le> 7 * length its. \<exists>t'. thread_steps E k (t, w) = (t', w') \<and> th_result t' = Some r"
  using assms
proof (induction its arbitrary: pre t w)
  case Nil
  then have "thread_steps E 0 (t, w) = (t, w') \<and> th_result t = Some r" by (simp add: th_result_def)
  then show ?case by auto
next
  case (Cons it its)
  obtain c p d b where it: "it = (c, p, d, b)" by (cases it)
  obtain q v where q: "write_atomic E p d b w = (q, v)" by (cases "write_atomic E p d b w")
  obtain k where k: "k \<le> 7" "thread_steps E k (t, w) = (th_after t q, v)"
    using thread_call [of t c p d b E w q v] Cons.prems it q by auto
  show ?case
  proof (cases q)
    case (Inl e)
    then have "r = Inl (Ctx c e)" "w' = v"
      using Cons.prems(1) q by (simp_all add: it io_then_def io_bind_def io_ctx_def)
    moreover have "th_result (th_after t q) = Some (Inl (Ctx c e))"
      using Cons.prems(2-4) by (simp add: Inl th_after_def th_result_def it)
    ultimately show ?thesis using k by (intro exI [of _ k]) auto
  next
    case (Inr u)
    then have "put_items (write_atomic E) its v = (r, w')"
      using Cons.prems(1) q by (simp add: it io_then_def io_bind_def io_ctx_def)
    then obtain m t' where m: "m \<le> 7 * length its" "thread_steps E m (th_after t q, v) = (t', w')" "th_result t' = Some r"
      using Cons.IH [of v "th_after t q" "pre @ [it]"] Cons.prems(2-4) by (auto simp: Inr th_after_def)
    then have "thread_steps E (k + m) (t, w) = (t', w')" by (simp add: thread_steps_add k(2))
    with m k(1) show ?thesis by (intro exI [of _ "k + m"]) auto
  qed
qed

text \<open>Any thread can run on its own for a while, wherever the others stand.\<close>

lemma thread_steps_reach:
  assumes "i < length ts"
  shows "conc_reach E x (ts, w) \<Longrightarrow> thread_steps E n (ts ! i, w) = (t', w') \<Longrightarrow> conc_reach E x (ts[i := t'], w')"
proof (induction n arbitrary: t' w')
  case 0
  then have "ts[i := t'] = ts" "w' = w" by auto
  with 0 show ?case by simp
next
  case (Suc n)
  obtain t1 w1 where t1: "thread_steps E n (ts ! i, w) = (t1, w1)" by (cases "thread_steps E n (ts ! i, w)")
  then have "thread_step E (ts[i := t1] ! i) w1 = (t', w')" using Suc.prems(2) assms thread_steps_add [of E n 1 "(ts ! i, w)"] by simp
  from conc [OF _ this] have "conc_step E (ts[i := t1], w1) (ts[i := t'], w')" using assms by simp
  with Suc.IH [OF Suc.prems(1) t1] show ?case by (rule conc_more)
qed

lemma thread_completes:
  assumes "conc_reach E x (ts, w)" and "i < length ts" and "ts ! i = thread_start its"
    and "put_items (write_atomic E) its w = (r, w')"
  obtains t where "conc_reach E x (ts[i := t], w')" and "th_result t = Some r"
proof -
  obtain k t where "thread_steps E k (thread_start its, w) = (t, w')" "th_result t = Some r"
    using thread_items [OF assms(4), of "thread_start its" "[]"] by (auto simp: thread_start_def)
  with that thread_steps_reach [OF assms(2,1), of k t w'] assms(3) show thesis by simp
qed

section \<open>Two calls for one target\<close>

text \<open>On a machine without faults: opening, filling and renaming the temporary file.\<close>

lemma open_calm:
  assumes "is_target p" and "path_parent p = Some d" and "flat d (w_fs w)" and "\<And>t o'. env_fault E t o' = None"
  obtains h w1 w2 where "wa_step E p x priv MakeDir w = (OpenTmp, w1)" and "wa_step E p x priv OpenTmp w1 = (WriteTmp h, w2)"
    and "flat d (w_fs w2)" and "is_dir (w_fs w2) d"
    and "cur (w_fs w2) (tmp_of p) = FileAt h" and "i_data (fs_inodes (w_fs w2) h) = []"
    and "\<And>g. cur (w_fs w) (tmp_of p) = FileAt g \<Longrightarrow> h = g"
proof -
  obtain n where n: "path_file_name p = Some n" using assms(1) by (auto simp: is_target_def)
  have td: "path_parent (tmp_of p) = Some d" by (simp add: tmp_of_eq [OF assms(2) n])
  have out: "tmp_of p \<notin> set (path_prefixes d)" by (rule child_not_prefix [OF td])
  define s where "s = mkdirs (path_prefixes d) (w_fs w)"
  have mk: "fs_create_dir_all d (w_fs w) = Inr ((), s)"
    using assms(3) by (simp add: fs_create_dir_all_def flat_def s_def)
  have dir: "is_dir s d" using create_dir_all_is_dir [OF mk] .
  have fl: "flat d s"
    unfolding s_def by (rule flat_mkdirs [OF assms(3)]) (use child_not_prefix in blast)
  have same: "cur s (tmp_of p) = cur (w_fs w) (tmp_of p)"
    using mkdirs_other [OF out, of "w_fs w"] by (simp add: s_def cur_def)
  have ok: "cur s (tmp_of p) = Absent \<or> (\<exists>g. cur s (tmp_of p) = FileAt g)"
    using fl td by (cases "cur s (tmp_of p)") (force simp: flat_def)+
  have ne: "d \<noteq> tmp_of p" using path_parent_shorter [OF td] by auto
  define m :: nat where "m = (if priv then 0x180 else 0x1A4)"
  obtain h t where t: "fs_open_trunc (tmp_of p) m s = Inr (h, t)" "is_dir t d" "cur t (tmp_of p) = FileAt h"
    "i_data (fs_inodes t h) = []" "\<And>g. cur s (tmp_of p) = FileAt g \<Longrightarrow> h = g"
    using ok dir ne by (auto simp: fs_open_trunc_def td is_dir_def cur_def vers_def set_ent_def upd_inode_def)
  have "flat d t"
    using t(1) fl by (auto simp: fs_open_trunc_def td intro!: flat_set_ent out split: if_splits entry.splits)
  moreover obtain w1 where w1: "wa_step E p x priv MakeDir w = (OpenTmp, w1)" "w_fs w1 = s"
    using mk by (simp add: assms(2,4) create_dir_all_def prim_def io_defs)
  moreover obtain w2 where "wa_step E p x priv OpenTmp w1 = (WriteTmp h, w2)" "w_fs w2 = t"
    using t(1) w1(2) by (simp add: assms(4) n open_trunc_def prim_def io_defs m_def [symmetric])
  ultimately show thesis using that t(2-5) same by metis
qed

lemma fill_calm:
  assumes "cur (w_fs w) (tmp_of p) = FileAt h" and "\<And>t o'. env_fault E t o' = None"
  obtains w1 w2 where "wa_step E p x priv (WriteTmp h) w = (SyncTmp h, w1)" and "wa_step E p x priv (SyncTmp h) w1 = (RenameTmp, w2)"
    and "\<And>q. cur (w_fs w2) q = cur (w_fs w) q"
    and "i_data (fs_inodes (w_fs w2) h) = x @ drop (length x) (i_data (fs_inodes (w_fs w) h))"
proof -
  obtain w1 where w1: "wa_step E p x priv (WriteTmp h) w = (SyncTmp h, w1)" "w_fs w1 = fs_write h x (w_fs w)"
    by (simp add: write_all_def assms(2) io_defs)
  moreover obtain w2 where "wa_step E p x priv (SyncTmp h) w1 = (RenameTmp, w2)" "w_fs w2 = fs_sync h (w_fs w1)"
    by (simp add: sync_file_def prim_def assms(2) io_defs)
  ultimately show thesis using that by (auto simp: fs_simps)
qed

lemma rename_calm:
  assumes "path_parent p = Some d" and "p \<noteq> tmp_of p" and "is_dir (w_fs w) d" and "\<not> is_dir (w_fs w) p"
    and "cur (w_fs w) (tmp_of p) = FileAt h" and "\<And>t o'. env_fault E t o' = None"
  obtains w' where "wa_step E p x priv RenameTmp w = (OpenParent, w')"
    and "content (w_fs w') p = Some (i_data (fs_inodes (w_fs w) h))" and "cur (w_fs w') (tmp_of p) = Absent"
proof -
  define s where "s = set_ent p (FileAt h) (set_ent (tmp_of p) Absent (w_fs w))"
  have "fs_rename (tmp_of p) p (w_fs w) = Inr ((), s)" using assms by (simp add: fs_rename_def s_def)
  then obtain w' where "wa_step E p x priv RenameTmp w = (OpenParent, w')" "w_fs w' = s"
    by (simp add: rename_def prim_def assms(6) io_defs)
  with that assms(2) show thesis by (simp add: s_def content_def fs_simps)
qed

lemma rename_gone:
  assumes "cur (w_fs w) (tmp_of p) = Absent"
  obtains e w' where "wa_step E p x priv RenameTmp w = (Finished (Inl e), w')" and "w_fs w' = w_fs w"
proof -
  have gone: "fs_rename (tmp_of p) p (w_fs w) = Inl NotFound"
    using assms by (simp add: fs_rename_def)
  show thesis
    by (cases "env_fault E (w_trace w) (Rename (tmp_of p) p)")
      (auto intro!: that simp: rename_def prim_def gone io_defs)
qed

lemma finish_calm:
  obtains c w1 w2 where "wa_step E p x priv OpenParent w = (c, w1)" and "wa_step E p x priv c w1 = (Finished (Inr ()), w2)"
    and "\<And>q. content (w_fs w2) q = content (w_fs w) q"
    and "c = SyncParent \<or> c = Finished (Inr ())"
proof -
  obtain c w1 where c: "wa_step E p x priv OpenParent w = (c, w1)" "c = SyncParent \<or> c = Finished (Inr ())" "w_fs w1 = w_fs w"
    by (cases "open_dir E (butlast p) w"; cases "fst (open_dir E (butlast p) w)")
      (auto simp: io_attempt_run open_dir_def prim_def split: option.splits if_splits sum.splits)
  obtain w2 where w2: "wa_step E p x priv c w1 = (Finished (Inr ()), w2)"
    "w_fs w2 = w_fs w1 \<or> w_fs w2 = fs_sync_dir (butlast p) (w_fs w1)"
    using c(2) by (auto simp: io_ignore_run sync_dir_def prim_def split: option.splits)
  have "content (w_fs w2) q = content (w_fs w) q" for q using w2(2) c(3) by (auto simp: content_def fs_simps split: entry.split)
  then show thesis by (intro that [OF c(1) w2(1) _ c(2)])
qed

text \<open>Two threads with one item each, at given points.\<close>

definition pair_at :: "put_item \<Rightarrow> put_item \<Rightarrow> pc \<Rightarrow> pc \<Rightarrow> thread list" where
  "pair_at a b c c' = [\<lparr>th_items = [a], th_next = 0, th_pc = c\<rparr>, \<lparr>th_items = [b], th_next = 0, th_pc = c'\<rparr>]"

lemma pair_first:
  assumes "conc_reach E x (pair_at (n, p, a, priv) it c c', w)" and "wa_step E p a priv c w = (c1, w1)"
    and "\<not> (\<exists>u. c1 = Finished (Inr u))"
  shows "conc_reach E x (pair_at (n, p, a, priv) it c1 c', w1)"
proof -
  have "thread_step E (pair_at (n, p, a, priv) it c c' ! 0) w = (\<lparr>th_items = [(n, p, a, priv)], th_next = 0, th_pc = c1\<rparr>, w1)"
    using assms(2,3) by (auto simp: pair_at_def thread_step_def split: pc.splits sum.splits)
  then have "conc_step E (pair_at (n, p, a, priv) it c c', w) (pair_at (n, p, a, priv) it c1 c', w1)"
    using conc [of 0 "pair_at (n, p, a, priv) it c c'" E w] by (simp add: pair_at_def)
  with assms(1) show ?thesis by (rule conc_more)
qed

lemma pair_second:
  assumes "conc_reach E x (pair_at it (n, p, a, priv) c' c, w)" and "wa_step E p a priv c w = (c1, w1)"
    and "\<not> (\<exists>u. c1 = Finished (Inr u))"
  shows "conc_reach E x (pair_at it (n, p, a, priv) c' c1, w1)"
proof -
  have "thread_step E (pair_at it (n, p, a, priv) c' c ! 1) w = (\<lparr>th_items = [(n, p, a, priv)], th_next = 0, th_pc = c1\<rparr>, w1)"
    using assms(2,3) by (auto simp: pair_at_def thread_step_def split: pc.splits sum.splits)
  then have "conc_step E (pair_at it (n, p, a, priv) c' c, w) (pair_at it (n, p, a, priv) c' c1, w1)"
    using conc [of 1 "pair_at it (n, p, a, priv) c' c" E w] by (simp add: pair_at_def)
  with assms(1) show ?thesis by (rule conc_more)
qed

lemma pair_finish:
  assumes "conc_reach E x (pair_at (n, p, a, priv) it c c', w)" and "wa_step E p a priv c w = (Finished (Inr ()), w1)"
  shows "conc_reach E x ((pair_at (n, p, a, priv) it c c') [0 := \<lparr>th_items = [(n, p, a, priv)], th_next = 1, th_pc = MakeDir\<rparr>], w1)"
proof -
  have "thread_step E (pair_at (n, p, a, priv) it c c' ! 0) w = (\<lparr>th_items = [(n, p, a, priv)], th_next = 1, th_pc = MakeDir\<rparr>, w1)"
    using assms(2) by (simp add: pair_at_def thread_step_def)
  from conc_more [OF assms(1) conc [OF _ this]] show ?thesis by (simp add: pair_at_def)
qed

lemma pair_done:
  assumes "conc_reach E x (pair_at (n, p, a, priv) it OpenParent c', w)"
  obtains ts w' where "conc_reach E x (ts, w')" and "map th_result ts = [Some (Inr ()), th_result \<lparr>th_items = [it], th_next = 0, th_pc = c'\<rparr>]"
    and "\<And>q. content (w_fs w') q = content (w_fs w) q"
proof -
  obtain c w1 w2 where c: "wa_step E p a priv OpenParent w = (c, w1)" "wa_step E p a priv c w1 = (Finished (Inr ()), w2)"
    "\<And>q. content (w_fs w2) q = content (w_fs w) q" "c = SyncParent \<or> c = Finished (Inr ())"
    by (rule finish_calm [where p = p]) blast
  have res: "map th_result ((pair_at (n, p, a, priv) it c0 c') [0 := \<lparr>th_items = [(n, p, a, priv)], th_next = 1, th_pc = MakeDir\<rparr>]) =
      [Some (Inr ()), th_result \<lparr>th_items = [it], th_next = 0, th_pc = c'\<rparr>]" for c0
    by (simp add: pair_at_def th_result_def)
  from c(4) show thesis
  proof
    assume "c = SyncParent"
    then have "conc_reach E x (pair_at (n, p, a, priv) it c c', w1)" by (intro pair_first [OF assms c(1)]) simp
    from that [OF pair_finish [OF this c(2)] res c(3)] show thesis .
  next
    assume "c = Finished (Inr ())"
    then have "wa_step E p a priv OpenParent w = (Finished (Inr ()), w1)" "w2 = w1" using c(1,2) by simp_all
    from that [OF pair_finish [OF assms this(1)] res] c(3) this(2) show thesis by blast
  qed
qed

lemma pair_start: "pair_at a b MakeDir MakeDir = map thread_start [[a], [b]]"
  by (simp add: pair_at_def thread_start_def)

text \<open>Both calls have the one temporary file open; the handles are equal.\<close>

lemma pair_both_open:
  assumes "is_target p" and "path_parent p = Some d" and "flat d (w_fs w)" and "\<And>t o'. env_fault E t o' = None"
  obtains h w' where "conc_reach E (map thread_start [[(n, p, a, priv)], [(m, p, b, priv')]], w)
      (pair_at (n, p, a, priv) (m, p, b, priv') (WriteTmp h) (WriteTmp h), w')"
    and "flat d (w_fs w')" and "is_dir (w_fs w') d" and "cur (w_fs w') (tmp_of p) = FileAt h" and "i_data (fs_inodes (w_fs w') h) = []"
proof -
  let ?x = "(map thread_start [[(n, p, a, priv)], [(m, p, b, priv')]], w)" and ?P = "pair_at (n, p, a, priv) (m, p, b, priv')"
  obtain h w1 w2 where 1: "wa_step E p a priv MakeDir w = (OpenTmp, w1)" "wa_step E p a priv OpenTmp w1 = (WriteTmp h, w2)"
    "flat d (w_fs w2)" "cur (w_fs w2) (tmp_of p) = FileAt h"
    using open_calm [OF assms, of a priv] by metis
  obtain w3 w4 where 2: "wa_step E p b priv' MakeDir w2 = (OpenTmp, w3)" "wa_step E p b priv' OpenTmp w3 = (WriteTmp h, w4)"
    "flat d (w_fs w4)" "is_dir (w_fs w4) d" "cur (w_fs w4) (tmp_of p) = FileAt h" "i_data (fs_inodes (w_fs w4) h) = []"
    using open_calm [OF assms(1,2) 1(3) assms(4), of b priv'] 1(4) by metis
  have "conc_reach E ?x (?P MakeDir MakeDir, w)" by (simp only: pair_start conc_start)
  from pair_first [OF this 1(1)] have "conc_reach E ?x (?P OpenTmp MakeDir, w1)" by simp
  from pair_first [OF this 1(2)] have "conc_reach E ?x (?P (WriteTmp h) MakeDir, w2)" by simp
  from pair_second [OF this 2(1)] have "conc_reach E ?x (?P (WriteTmp h) OpenTmp, w3)" by simp
  from pair_second [OF this 2(2)] have "conc_reach E ?x (?P (WriteTmp h) (WriteTmp h), w4)" by simp
  from that [OF this 2(3-6)] show thesis .
qed

section \<open>Properties\<close>

text \<open>
  A thread alone is the program: within seven steps per file it has done exactly what writing the
  files with \<open>write_atomic\<close> one after the other does, with the same result, error and world.
\<close>

lemma thread_alone:
  assumes "put_items (write_atomic E) its w = (r, w')"
  shows "\<exists>k \<le> 7 * length its. \<exists>t. thread_steps E k (thread_start its, w) = (t, w') \<and> th_result t = Some r \<and>
    conc_reach E ([thread_start its], w) ([t], w')"
proof -
  obtain k t where "k \<le> 7 * length its" "thread_steps E k (thread_start its, w) = (t, w')" "th_result t = Some r"
    using thread_items [OF assms, of "thread_start its" "[]"] by (auto simp: thread_start_def)
  moreover from thread_steps_reach [OF _ conc_start, of 0 "[thread_start its]"] this(2)
  have "conc_reach E ([thread_start its], w) ([t], w')" by simp
  ultimately show ?thesis by blast
qed

text \<open>C17.
  Writers with separate targets do not disturb each other. Threads write their lists of files, with
  any interleaving of their system calls and any failures. In every state they reach, each thread has
  written a first part of its list and left the rest as it was at the beginning; a thread that has
  succeeded has written all of it; and should the machine crash in that state, each file holds its
  new contents or what a crash could have left of it at the beginning.
\<close>

theorem concurrent_writes_isolated:
  assumes "apart (concat itss)" and "wf_fs (w_fs w0)"
    and "conc_reach E (map thread_start itss, w0) (ts, w)"
  shows "map th_items ts = itss \<and>
    (\<forall>t \<in> set ts. commit_prefix (w_fs w0) (th_items t) (w_fs w) \<and>
      (th_result t = Some (Inr ()) \<longrightarrow>
         (\<forall>it \<in> set (th_items t). content (w_fs w) (item_path it) = Some (item_data it))) \<and>
      (\<forall>it \<in> set (th_items t). \<forall>v. survives (w_fs w) (item_path it) v \<longrightarrow>
         v = Some (item_data it) \<or> survives (w_fs w0) (item_path it) v))"
proof -
  have ok: "conc_ok itss (w_fs w0) (ts, w)"
    by (rule conc_reach_ok [OF assms(1,3) conc_ok_start [OF assms(2)]])
  then have t: "thread_ok (w_fs w0) (w_fs w) t" if "t \<in> set ts" for t
    using that by (simp add: conc_ok_def)
  from ok have "map th_items ts = itss" by (simp add: conc_ok_def)
  then show ?thesis
    using thread_ok_prefix [OF t] thread_ok_done [OF t] installed_content conc_ok_survives [OF assms(1) ok]
    by blast
qed

text \<open>C39.
  The temporary file has one name per target (\<open>.{file_name}.tmp\<close>, est.rs line 65), so two calls that
  overlap share it. Without any fault of the machine, two threads that write one target can reach a
  state in which the first has reported success and the target holds neither of the two contents,
  but the second's with the tail of the first's behind it, while the second has failed.
\<close>

theorem concurrent_writes_mix:
  assumes "is_target p" and "path_parent p = Some d" and "flat d (w_fs w)"
    and "\<And>t o'. env_fault E t o' = None"
    and "length b < length a" and "take (length b) a \<noteq> b"
  shows "\<exists>ts e w'. conc_reach E (map thread_start [[(n, p, a, priv)], [(m, p, b, priv')]], w) (ts, w') \<and>
      map th_result ts = [Some (Inr ()), Some (Inl e)] \<and>
      content (w_fs w') p = Some (b @ drop (length b) a) \<and> content (w_fs w') p \<notin> {None, Some a, Some b}"
proof -
  let ?x = "(map thread_start [[(n, p, a, priv)], [(m, p, b, priv')]], w)" and ?P = "pair_at (n, p, a, priv) (m, p, b, priv')"
  obtain f where f: "path_file_name p = Some f" using assms(1) by (auto simp: is_target_def)
  have ne: "p \<noteq> tmp_of p" using assms(1) tmp_of_eq [OF assms(2) f] by (metis is_target_def is_tmp_tmp_name)
  obtain h w2 where 2: "conc_reach E ?x (?P (WriteTmp h) (WriteTmp h), w2)"
    "flat d (w_fs w2)" "is_dir (w_fs w2) d" "cur (w_fs w2) (tmp_of p) = FileAt h" "i_data (fs_inodes (w_fs w2) h) = []"
    using pair_both_open [OF assms(1-4)] by blast
  obtain v3 w3 where 3: "wa_step E p a priv (WriteTmp h) w2 = (SyncTmp h, v3)" "wa_step E p a priv (SyncTmp h) v3 = (RenameTmp, w3)"
    "\<And>q. cur (w_fs w3) q = cur (w_fs w2) q" "i_data (fs_inodes (w_fs w3) h) = a @ drop (length a) []"
    using fill_calm [OF 2(4) assms(4)] unfolding 2(5) by blast
  have t3: "cur (w_fs w3) (tmp_of p) = FileAt h" by (simp add: 3(3) 2(4))
  obtain v4 w4 where 4: "wa_step E p b priv' (WriteTmp h) w3 = (SyncTmp h, v4)" "wa_step E p b priv' (SyncTmp h) v4 = (RenameTmp, w4)"
    "\<And>q. cur (w_fs w4) q = cur (w_fs w3) q" "i_data (fs_inodes (w_fs w4) h) = b @ drop (length b) a"
    using fill_calm [OF t3 assms(4)] unfolding 3(4) drop_Nil append_Nil2 by blast
  have "is_dir (w_fs w4) d" "\<not> is_dir (w_fs w4) p" "cur (w_fs w4) (tmp_of p) = FileAt h"
    using 2(2-4) assms(2) f flat_clear [OF 2(2) assms(2,1)] by (simp_all add: is_dir_def 3(3) 4(3) clear_way_def)
  then obtain w5 where 5: "wa_step E p a priv RenameTmp w4 = (OpenParent, w5)" "content (w_fs w5) p = Some (b @ drop (length b) a)"
    "cur (w_fs w5) (tmp_of p) = Absent"
    using rename_calm [OF assms(2) ne _ _ _ assms(4)] 4(4) by metis
  obtain e w6 where 6: "wa_step E p b priv' RenameTmp w5 = (Finished (Inl e), w6)" "w_fs w6 = w_fs w5"
    by (rule rename_gone [OF 5(3)])
  from pair_first [OF 2(1) 3(1)] have "conc_reach E ?x (?P (SyncTmp h) (WriteTmp h), v3)" by simp
  from pair_first [OF this 3(2)] have "conc_reach E ?x (?P RenameTmp (WriteTmp h), w3)" by simp
  from pair_second [OF this 4(1)] have "conc_reach E ?x (?P RenameTmp (SyncTmp h), v4)" by simp
  from pair_second [OF this 4(2)] have "conc_reach E ?x (?P RenameTmp RenameTmp, w4)" by simp
  from pair_first [OF this 5(1)] have "conc_reach E ?x (?P OpenParent RenameTmp, w5)" by simp
  from pair_second [OF this 6(1)] have "conc_reach E ?x (?P OpenParent (Finished (Inl e)), w6)" by simp
  then obtain ts w' where "conc_reach E ?x (ts, w')" "map th_result ts = [Some (Inr ()), Some (Inl (Ctx m e))]"
    "content (w_fs w') p = content (w_fs w6) p"
    by (rule pair_done) (auto simp: th_result_def)
  moreover have "b @ drop (length b) a \<noteq> b" "b @ drop (length b) a \<noteq> a"
    using assms(5,6) by (simp, metis append_eq_conv_conj)
  ultimately show ?thesis
    using 5(2) 6(2) by (intro exI [of _ ts] exI [of _ "Ctx m e"] exI [of _ w'] conjI) simp_all
qed

section \<open>Examples\<close>

definition shared_target :: path where
  "shared_target = [RootDir, Normal ''n'', Normal ''i'']"

definition other_target :: path where
  "other_target = [RootDir, Normal ''n'', Normal ''j'']"

lemma shared_target: "is_target shared_target" "path_parent shared_target = Some [RootDir, Normal ''n'']"
  by (simp_all add: shared_target_def is_target_def path_file_name_def is_tmp_def path_parent_def ends_with_def starts_with_iff)

theorem concurrent_writes_mix_witness:
  "\<exists>ts e w'. conc_reach calm (map thread_start [[(''a'', shared_target, ''abc'', True)], [(''b'', shared_target, ''x'', True)]],
        world_of empty_fs) (ts, w') \<and>
     map th_result ts = [Some (Inr ()), Some (Inl e)] \<and> content (w_fs w') shared_target = Some ''xbc''"
proof -
  have "flat [RootDir, Normal ''n''] (w_fs (world_of empty_fs))" "\<And>t o'. env_fault calm t o' = None"
    by (simp_all add: world_of_def flat_empty calm_def)
  from concurrent_writes_mix [OF shared_target this, of "''x''" "''abc''" "''a''" True "''b''" True]
  show ?thesis by (simp only: list.size append.simps drop.simps take.simps) fastforce
qed

lemma other_target: "is_target other_target" "path_parent other_target = Some [RootDir, Normal ''n'']"
  by (simp_all add: other_target_def is_target_def path_file_name_def is_tmp_def path_parent_def ends_with_def starts_with_iff)

lemma calm_puts:
  assumes "\<forall>it \<in> set its. is_target (item_path it) \<and> path_parent (item_path it) = Some d" and "flat d (w_fs w)"
  obtains w' where "put_items (write_atomic calm) its w = (Inr (), w')" and "flat d (w_fs w')"
  using puts_succeed [OF assms(1) _ assms(2), of calm] that by (cases "put_items (write_atomic calm) its w") (auto simp: calm_def)

lemma thread_alone_example:
  "\<exists>k \<le> 7. th_result (fst (thread_steps calm k (thread_start [(''a'', shared_target, ''abc'', True)], world_of empty_fs))) =
     Some (Inr ())"
proof -
  have "\<forall>it \<in> set [(''a'', shared_target, ''abc'', True)]. is_target (item_path it) \<and>
      path_parent (item_path it) = Some [RootDir, Normal ''n'']" "flat [RootDir, Normal ''n''] (w_fs (world_of empty_fs))"
    by (simp_all add: shared_target world_of_def flat_empty)
  then obtain w' where "put_items (write_atomic calm) [(''a'', shared_target, ''abc'', True)] (world_of empty_fs) = (Inr (), w')"
    by (rule calm_puts)
  from thread_alone [OF this] show ?thesis by (metis One_nat_def fst_conv length_Cons list.size(3) mult_1_right)
qed

theorem concurrent_writes_isolated_witness:
  "\<exists>ts w. conc_reach calm (map thread_start [[(''a'', shared_target, ''abc'', True)], [(''b'', other_target, ''x'', True)]],
        world_of empty_fs) (ts, w) \<and>
     content (w_fs w) shared_target = Some ''abc'' \<and> content (w_fs w) other_target = Some ''x''"
proof -
  let ?a = "(''a'', shared_target, ''abc'', True)" and ?b = "(''b'', other_target, ''x'', True)"
  let ?d = "[RootDir, Normal ''n'']" and ?ts = "map thread_start [[(''a'', shared_target, ''abc'', True)], [(''b'', other_target, ''x'', True)]]"
  have targets: "\<forall>it \<in> set [?a]. is_target (item_path it) \<and> path_parent (item_path it) = Some ?d"
    "\<forall>it \<in> set [?b]. is_target (item_path it) \<and> path_parent (item_path it) = Some ?d"
    by (simp_all add: shared_target other_target)
  have fl: "flat ?d (w_fs (world_of empty_fs))" and wf: "wf_fs (w_fs (world_of empty_fs))"
    by (simp_all add: world_of_def flat_empty wf_empty_fs)
  obtain w1 where w1: "put_items (write_atomic calm) [?a] (world_of empty_fs) = (Inr (), w1)" "flat ?d (w_fs w1)"
    by (rule calm_puts [OF targets(1) fl])
  obtain w2 where w2: "put_items (write_atomic calm) [?b] w1 = (Inr (), w2)" by (rule calm_puts [OF targets(2) w1(2)])
  obtain t where t: "conc_reach calm (?ts, world_of empty_fs) (?ts[0 := t], w1)" "th_result t = Some (Inr ())"
    by (rule thread_completes [OF conc_start _ _ w1(1), of 0 ?ts]) simp_all
  obtain u where u: "conc_reach calm (?ts, world_of empty_fs) (?ts[0 := t, 1 := u], w2)" "th_result u = Some (Inr ())"
    by (rule thread_completes [OF t(1) _ _ w2, of 1]) simp_all
  have ap: "apart (concat [[?a], [?b]])"
    by (simp add: apart_def shared_target other_target)
      (simp add: shared_target_def other_target_def path_prefixes_def tmp_of_def tmp_name_def path_file_name_def path_join_def)
  have "content (w_fs w2) shared_target = Some ''abc'' \<and> content (w_fs w2) other_target = Some ''x''"
    using concurrent_writes_isolated [OF ap wf u(1)] t(2) u(2) by auto
  with u(1) show ?thesis by blast
qed

end
