(* ===== verification/Api_Register.thy ===== *)
theory Api_Register
  imports Api_Safety
begin

text \<open>
  The management API as a register. What the API keeps of the requests is one value, the intent file;
  the abstract specification says which values it may hold after a sequence of requests and the codes
  they were answered with, and the handlers refine it.
\<close>

section \<open>The register\<close>

text \<open>The bytes a request offers to store: those of an operator's valid, serialisable intent.\<close>

definition offered :: "api_lib \<Rightarrow> app_state \<Rightarrow> request \<Rightarrow> string option" where
  "offered A st rq =
     (if rq_method rq = PUT \<and> rq_path rq = ''/v1/config'' \<and>
         (case granted_role (nc_authorization (as_config st)) rq of None \<Rightarrow> False | Some r \<Rightarrow> satisfies r Operator)
      then (case al_extract A rq of
              Inl _ \<Rightarrow> None
            | Inr raw \<Rightarrow>
                (if isl (validate (al_from_pem A) (intent_of_raw raw)) then None
                 else case al_to_vec A (intent_of_raw raw) of Inl _ \<Rightarrow> None | Inr bytes \<Rightarrow> Some bytes))
      else None)"

text \<open>An acknowledged offer is stored, an unacknowledged one may be.\<close>

definition reg_next :: "api_lib \<Rightarrow> app_state \<Rightarrow> request \<Rightarrow> nat \<Rightarrow> string option \<Rightarrow> string option list" where
  "reg_next A st rq code x =
     (case offered A st rq of
        None \<Rightarrow> [x]
      | Some bytes \<Rightarrow> if code = 200 then [Some bytes] else [x, Some bytes])"

fun reg_states :: "api_lib \<Rightarrow> app_state \<Rightarrow> (request \<times> nat) list \<Rightarrow> string option \<Rightarrow> string option list" where
  "reg_states A st [] x = [x]"
| "reg_states A st ((rq, code) # h) x = concat (map (reg_states A st h) (reg_next A st rq code x))"

text \<open>The last offer that was acknowledged.\<close>

fun last_stored :: "api_lib \<Rightarrow> app_state \<Rightarrow> (request \<times> nat) list \<Rightarrow> string option \<Rightarrow> string option" where
  "last_stored A st [] x = x"
| "last_stored A st ((rq, code) # h) x =
     last_stored A st h (if code = 200 \<and> offered A st rq \<noteq> None then offered A st rq else x)"

text \<open>The abstraction: what the intent file holds.\<close>

definition stored :: "server \<Rightarrow> string option" where
  "stored s = content (w_fs (sr_world s)) (path_of NODE_INTENT_PATH)"

lemma last_stored_only:
  assumes "list_all (\<lambda>(rq, code). offered A st rq \<noteq> None \<longrightarrow> code = 200) h"
  shows "reg_states A st h x = [last_stored A st h x]"
  using assms by (induction h arbitrary: x) (auto simp: reg_next_def)

section \<open>One request\<close>

lemma reconcile_keeps_wf:
  "wf_fs (w_fs w) \<Longrightarrow> wf_fs (w_fs (snd (wl_reconcile (new_profile pem E p) d w)))"
  using k8s.keeps_wf kvm.keeps_wf by (cases p) (simp_all add: new_profile_def)

lemma apply_intent_stores:
  assumes "as_workload st = new_profile (al_from_pem A) E p" and "wf_fs (w_fs (sr_world s))"
    and "apply_intent A E st i s = ((code, body), s')"
  shows "wf_fs (w_fs (sr_world s')) \<and>
    (case al_to_vec A i of
       Inl _ \<Rightarrow> stored s' = stored s
     | Inr bytes \<Rightarrow> if isl (validate (al_from_pem A) i) then stored s' = stored s
         else stored s' = Some bytes \<or> stored s' = stored s \<and> code = 500)"
  using assms(3)
proof (cases rule: apply_intent_cases)
  case (unpersisted bytes e)
  have "wf_fs (w_fs (sr_world s'))" using wa.put_ok [OF intent_path(1) assms(2), of E bytes True] unpersisted(4) by simp
  moreover have "stored s' = stored s"
    unfolding stored_def by (rule wa.put_fail [OF intent_path(1) assms(2) unpersisted(4)])
  ultimately show ?thesis using unpersisted by simp
next
  case (reconciled bytes w1 r)
  have ok: "wf_fs (w_fs w1)" using wa.put_ok [OF intent_path(1) assms(2), of E bytes True] reconciled(3) by simp
  have "stored s' = Some bytes"
    using reconcile_keeps_intent [OF ok, of "al_from_pem A" E p "Some i"] reconciled(4)
      wa.put_done [OF intent_path(1) assms(2) reconciled(3)]
    by (simp add: stored_def assms(1))
  with reconcile_keeps_wf [OF ok, of "al_from_pem A" E p "Some i"] reconciled show ?thesis by (simp add: assms(1))
qed (use assms(2) in \<open>auto split: sum.splits\<close>)

lemma put_config_stores:
  assumes "as_workload st = new_profile (al_from_pem A) E p" and "wf_fs (w_fs (sr_world s))"
    and "put_config A E st rq s = ((code, body), s')" and "rq_method rq = PUT" and "rq_path rq = ''/v1/config''"
    and "granted_role (nc_authorization (as_config st)) rq = Some r" and "satisfies r Operator"
  shows "wf_fs (w_fs (sr_world s')) \<and> stored s' \<in> set (reg_next A st rq code (stored s))"
proof (cases "al_extract A rq")
  case (Inl m)
  with assms(2,3) show ?thesis by (auto simp: put_config_def reg_next_def offered_def split: prod.splits)
next
  case (Inr raw)
  with assms(3) have "apply_intent A E st (intent_of_raw raw) s = ((code, body), s')" by (simp add: put_config_def)
  from apply_intent_stores [OF assms(1,2) this] Inr assms(4-7) show ?thesis
    by (auto simp: reg_next_def offered_def split: sum.splits if_splits)
qed

lemma router_stores:
  assumes "as_workload st = new_profile (al_from_pem A) E p" and "wf_fs (w_fs (sr_world s))"
    and "build_router A E clock st rq s = ((code, body), s')"
  shows "wf_fs (w_fs (sr_world s')) \<and> stored s' \<in> set (reg_next A st rq code (stored s))"
proof (cases rule: authorize_cases [of "nc_authorization (as_config st)" "routes A E clock st" rq s])
  case deny
  with assms(2,3) show ?thesis by (auto simp: build_router_def reg_next_def stored_def split: option.splits)
next
  case (allow s0)
  then have run: "routes A E clock st rq s0 = ((code, body), s')" using assms(3) by (simp add: build_router_def)
  show ?thesis
  proof (cases "rq_method rq = PUT \<and> rq_path rq = ''/v1/config''")
    case True
    then have "required_role (rq_method rq) (rq_path rq) = Some Operator" by (simp add: required_role_def)
    then obtain r where r: "granted_role (nc_authorization (as_config st)) rq = Some r" "satisfies r Operator"
      using allow(3) by blast
    have "put_config A E st rq s0 = ((code, body), s')" using run True by (simp add: routes_def Let_def)
    from put_config_stores [OF assms(1) _ this _ _ r] True assms(2) allow(2) show ?thesis by (simp add: stored_def)
  next
    case False
    then have "\<not> may_change A st rq" "offered A st rq = None" by (auto simp: may_change_def offered_def)
    with router_quiet [OF assms(1), of A rq clock s] assms(2,3) show ?thesis
      by (simp add: stored_def reg_next_def)
  qed
qed

section \<open>Refinement\<close>

text \<open>
  C6. The management API is a register of the last accepted intent. After any sequence of requests
  the intent file holds one of the values the register may hold after the same requests with the
  same answers: an intent an operator offered and the API acknowledged with 200 replaces the value,
  one it answered with an error may or may not have, and every other request leaves it. Where each
  valid offer was acknowledged, the file holds exactly the last one.
\<close>

theorem api_refines_register:
  assumes "as_workload st = new_profile (al_from_pem A) E p" and "wf_fs (w_fs (sr_world s))"
    and "serve A E clock st rqs s = (resps, s')"
  shows "stored s' \<in> set (reg_states A st (zip rqs (map fst resps)) (stored s)) \<and>
    (list_all (\<lambda>(rq, code). offered A st rq \<noteq> None \<longrightarrow> code = 200) (zip rqs (map fst resps)) \<longrightarrow>
       stored s' = last_stored A st (zip rqs (map fst resps)) (stored s))"
proof -
  have "stored s' \<in> set (reg_states A st (zip rqs (map fst resps)) (stored s))"
    using assms(2,3)
  proof (induction rqs arbitrary: s resps)
    case Nil
    then show ?case by simp
  next
    case (Cons rq rqs)
    obtain code body s1 resps' where one: "build_router A E clock st rq s = ((code, body), s1)"
      and rest: "serve A E clock st rqs s1 = (resps', s')" and r: "resps = (code, body) # resps'"
      using Cons.prems(2) by (auto split: prod.splits)
    note step = router_stores [OF assms(1) Cons.prems(1) one]
    from Cons.IH [OF _ rest] step show ?case by (auto simp: r)
  qed
  then show ?thesis by (auto simp: last_stored_only)
qed

lemma sample_offered: "offered sample_api (ops_state E) ops_put = Some ''I''"
  by (simp add: offered_def ops_extract sample_raw_intent sample_intent_valid sample_api_sel granted_role_def
      role_for_def ops_put_def ops_state_def ops_config_def satisfies_def)
     (simp add: sample_api_def sample_raw_intent sample_intent_valid)

theorem api_refines_register_witness:
  "stored (snd (serve sample_api calm (\<lambda>_. None) (ops_state calm) [ops_put] fresh_server)) =
     last_stored sample_api (ops_state calm) [(ops_put, 200)] None \<and>
   offered sample_api (ops_state calm) ops_put = Some ''I''"
proof -
  obtain s' where run: "serve sample_api calm (\<lambda>_. None) (ops_state calm) [ops_put] fresh_server =
      ([(200, Text (''node intent applied'' @ [newline]))], s')"
    by (rule sample_serve)
  have ok: "wf_fs (w_fs (sr_world fresh_server))" using empty_world(1) by (simp add: fresh_server_def)
  have fresh: "stored fresh_server = None" by (simp add: stored_def fresh_server_def empty_content)
  from sample_offered [of calm] api_refines_register [OF ops_workload ok run] show ?thesis unfolding run by (simp add: fresh)
qed

end
