(* ===== verification/Intent_Durability.thy ===== *)
theory Intent_Durability
  imports Api_Register Initd_Services Power_Loss
begin

text \<open>
  What becomes of an accepted intent when the power goes: the files a request to \<open>PUT /v1/config\<close>
  (crates/noded/src/main.rs, workload/k8s.rs) writes, as one sequence, what they hold after a power
  loss in the middle, and the intent file as a register over requests, interrupted requests and
  power losses.
\<close>

section \<open>The files of an intent\<close>

text \<open>The files an accepted intent becomes, in the order they are written.\<close>

definition intent_items :: "string \<Rightarrow> node_intent \<Rightarrow> put_item list" where
  "intent_items bytes i = (''persist'', path_of NODE_INTENT_PATH, bytes, True) # k8s_items i"

definition profile_items :: "profile \<Rightarrow> string \<Rightarrow> node_intent \<Rightarrow> put_item list" where
  "profile_items p bytes i =
     (case p of K8s \<Rightarrow> intent_items bytes i | Kvm \<Rightarrow> [(''persist'', path_of NODE_INTENT_PATH, bytes, True)])"

lemma intent_items_facts:
  "\<forall>it \<in> set (intent_items bytes i). is_target (item_path it)"
  "distinct (map item_path (intent_items bytes i))"
  using k8s_items_facts [of i] intent_path by (auto simp: intent_items_def)

lemma durable_paths:
  "durable_target (path_of NODE_INTENT_PATH)" "durable_target (path_of CLUSTER_CA_PATH)"
  "durable_target (path_of KUBELET_CONFIG_PATH)" "durable_target (path_of BOOTSTRAP_KUBECONFIG_PATH)"
  by code_simp+

lemma profile_items_facts:
  "\<forall>it \<in> set (profile_items p bytes i). durable_target (item_path it)"
  "distinct (map item_path (profile_items p bytes i))"
  using durable_paths intent_items_facts(2) [of bytes i]
  by (auto simp: profile_items_def intent_items_def k8s_items_def split: profile.splits)

text \<open>What a handler writes is that sequence, cut off where a write fails.\<close>

lemma apply_intent_writes:
  assumes "as_workload st = new_profile (al_from_pem A) E p" and "apply_intent A E st i s = ((code, body), s')"
  obtains (quiet) "sr_world s' = sr_world s" "isl (validate (al_from_pem A) i) \<or> isl (al_to_vec A i)"
  | (wrote) bytes r where "\<not> isl (validate (al_from_pem A) i)" "al_to_vec A i = Inr bytes"
      "put_items (write_atomic E) (profile_items p bytes i) (sr_world s) = (r, sr_world s')" "code = 200 \<longleftrightarrow> \<not> isl r"
  using assms(2)
proof (cases rule: apply_intent_cases)
  case (unpersisted bytes e)
  then show thesis
    by (intro wrote [of bytes "Inl (Ctx ''persist'' e)"])
      (simp_all add: profile_items_def intent_items_def io_defs split: profile.split)
next
  case (reconciled bytes w1 r)
  show thesis
  proof (cases p)
    case K8s
    with reconciled show thesis
      by (intro wrote [of bytes r])
        (auto simp: assms(1) new_profile_def k8s_reconcile_puts profile_items_def intent_items_def io_defs split: prod.splits)
  next
    case Kvm
    with reconciled(4) have "r = Inr ()" "w1 = sr_world s'"
      by (simp_all add: assms(1) new_profile_def kvm_reconcile_def io_defs)
    with Kvm reconciled show thesis
      by (intro wrote [of bytes "Inr ()"]) (simp_all add: profile_items_def io_defs)
  qed
qed (use quiet in simp_all)

lemma apply_intent_puts:
  assumes "as_workload st = new_profile (al_from_pem A) E K8s" and "apply_intent A E st i s = (resp, s')"
  obtains "sr_world s' = sr_world s"
  | bytes where "al_to_vec A i = Inr bytes"
      and "sr_world s' = snd (put_items (write_atomic E) (intent_items bytes i) (sr_world s))"
proof -
  obtain code body where "apply_intent A E st i s = ((code, body), s')" using assms(2) by (cases resp) auto
  with assms(1) show thesis
    by (cases rule: apply_intent_writes) (use that in \<open>auto simp: profile_items_def\<close>)
qed

text \<open>A request writes the sequence of the intent it offers, or nothing at all.\<close>

lemma put_config_writes:
  assumes "as_workload st = new_profile (al_from_pem A) E p" and "put_config A E st rq s = ((code, body), s')"
    and "rq_method rq = PUT" and "rq_path rq = ''/v1/config''"
    and "granted_role (nc_authorization (as_config st)) rq = Some r" and "satisfies r Operator"
  obtains (quiet) "sr_world s' = sr_world s" "offered A st rq = None"
  | (wrote) bytes raw q where "offered A st rq = Some bytes" "al_extract A rq = Inr raw"
      "put_items (write_atomic E) (profile_items p bytes (intent_of_raw raw)) (sr_world s) = (q, sr_world s')" "code = 200 \<longleftrightarrow> \<not> isl q"
proof (cases "al_extract A rq")
  case (Inl m)
  with assms(2) quiet show thesis by (auto simp: put_config_def offered_def split: prod.splits)
next
  case (Inr raw)
  with assms(2) have "apply_intent A E st (intent_of_raw raw) s = ((code, body), s')" by (simp add: put_config_def)
  with assms(1) show thesis
  proof (cases rule: apply_intent_writes)
    case quiet
    with Inr show thesis by (intro that(1)) (auto simp: offered_def isl_def split: sum.splits)
  next
    case (wrote bytes q)
    with Inr assms(3-6) show thesis by (intro that(2) [of bytes raw q]) (simp_all add: offered_def)
  qed
qed

lemma router_writes:
  assumes "as_workload st = new_profile (al_from_pem A) E p" and "build_router A E clock st rq s = ((code, body), s')"
  obtains (quiet) "files s' = files s" "offered A st rq = None"
  | (wrote) bytes raw q where "offered A st rq = Some bytes" "al_extract A rq = Inr raw"
      "put_items (write_atomic E) (profile_items p bytes (intent_of_raw raw)) (sr_world s) = (q, sr_world s')" "code = 200 \<longleftrightarrow> \<not> isl q"
proof (cases rule: authorize_cases [of "nc_authorization (as_config st)" "routes A E clock st" rq s])
  case deny
  have "offered A st rq = None"
  proof (cases "rq_method rq = PUT \<and> rq_path rq = ''/v1/config''")
    case True
    then have "required_role (rq_method rq) (rq_path rq) = Some Operator" by (simp add: required_role_def)
    with deny(3) show ?thesis by (auto simp: offered_def split: option.split)
  next
    case False
    then show ?thesis by (auto simp: offered_def)
  qed
  moreover have "files s' = files s" using deny(1) assms(2) by (simp add: build_router_def files_def)
  ultimately show thesis by (intro quiet)
next
  case (allow s0)
  then have run: "routes A E clock st rq s0 = ((code, body), s')" using assms(2) by (simp add: build_router_def)
  show thesis
  proof (cases "rq_method rq = PUT \<and> rq_path rq = ''/v1/config''")
    case True
    then have "required_role (rq_method rq) (rq_path rq) = Some Operator" by (simp add: required_role_def)
    then obtain r where r: "granted_role (nc_authorization (as_config st)) rq = Some r" "satisfies r Operator"
      using allow(3) by blast
    have "put_config A E st rq s0 = ((code, body), s')" using run True by (simp add: routes_def Let_def)
    from assms(1) this _ _ r show thesis
      by (cases rule: put_config_writes) (use True allow(2) that in \<open>auto simp: files_def\<close>)
  next
    case False
    then have "\<not> may_change A st rq" "offered A st rq = None" by (auto simp: may_change_def offered_def)
    with router_silent [OF assms(1), of A rq clock s] assms(2) show thesis by (intro quiet) simp_all
  qed
qed

section \<open>The intent file over power losses\<close>

text \<open>
  What happens to a node: a request is answered, the power goes while one is served, or while none
  is. \<open>node_life M A st p f h g\<close>: from the file system \<open>f\<close> the events \<open>h\<close> can lead to \<open>g\<close>. Each boot has
  a machine of its own among those with \<open>M\<close>, for instance \<open>syncs\<close>, which may fail anything but directory
  syncs; the configuration and the profile stay. Between the events the rest of the node may change any file but the intent.
\<close>

datatype life_event = Answered request nat | Cut request | PowerLost

inductive node_life :: "(env \<Rightarrow> bool) \<Rightarrow> api_lib \<Rightarrow> app_state \<Rightarrow> profile \<Rightarrow> fsys \<Rightarrow> life_event list \<Rightarrow> fsys \<Rightarrow> bool"
  for M A st0 p f where
  life_start: "node_life M A st0 p f [] f"
| life_answer: "node_life M A st0 p f h (w_fs (sr_world s)) \<Longrightarrow> M E \<Longrightarrow> as_config st = as_config st0 \<Longrightarrow>
    as_workload st = new_profile (al_from_pem A) E p \<Longrightarrow>
    build_router A E clock st rq s = ((code, body), s') \<Longrightarrow>
    node_life M A st0 p f (h @ [Answered rq code]) (w_fs (sr_world s'))"
| life_cut: "node_life M A st0 p f h (w_fs (sr_world s)) \<Longrightarrow> M E \<Longrightarrow> as_config st = as_config st0 \<Longrightarrow>
    as_workload st = new_profile (al_from_pem A) E p \<Longrightarrow>
    build_router A E clock st rq s = ((code, body), s') \<Longrightarrow>
    t \<in> set (w_fs (sr_world s) # passed (sr_world s) (sr_world s')) \<Longrightarrow> after_crash t u \<Longrightarrow>
    node_life M A st0 p f (h @ [Cut rq]) u"
| life_power: "node_life M A st0 p f h g \<Longrightarrow> after_crash g u \<Longrightarrow> node_life M A st0 p f (h @ [PowerLost]) u"
| life_beside: "node_life M A st0 p f h g \<Longrightarrow> wf_fs g' \<Longrightarrow>
    list_all (agree g g') (path_prefixes (path_of NODE_INTENT_PATH)) \<Longrightarrow> node_life M A st0 p f h g'"

text \<open>
  The register, with interrupted requests and power losses: an interrupted offer may have been
  stored, a power loss changes nothing.
\<close>

fun reg_event :: "api_lib \<Rightarrow> app_state \<Rightarrow> life_event \<Rightarrow> string option \<Rightarrow> string option list" where
  "reg_event A st (Answered rq code) x = reg_next A st rq code x"
| "reg_event A st (Cut rq) x = (case offered A st rq of None \<Rightarrow> [x] | Some bytes \<Rightarrow> [x, Some bytes])"
| "reg_event A st PowerLost x = [x]"

fun life_values :: "api_lib \<Rightarrow> app_state \<Rightarrow> life_event list \<Rightarrow> string option \<Rightarrow> string option list" where
  "life_values A st [] x = [x]"
| "life_values A st (e # h) x = concat (map (life_values A st h) (reg_event A st e x))"

text \<open>Events whose effect the client knows, and the last intent acknowledged.\<close>

fun certain :: "api_lib \<Rightarrow> app_state \<Rightarrow> life_event \<Rightarrow> bool" where
  "certain A st (Answered rq code) \<longleftrightarrow> offered A st rq = None \<or> code = 200"
| "certain A st (Cut rq) \<longleftrightarrow> offered A st rq = None"
| "certain A st PowerLost \<longleftrightarrow> True"

fun last_acknowledged :: "api_lib \<Rightarrow> app_state \<Rightarrow> life_event list \<Rightarrow> string option \<Rightarrow> string option" where
  "last_acknowledged A st [] x = x"
| "last_acknowledged A st (Answered rq code # h) x =
     last_acknowledged A st h (if code = 200 \<and> offered A st rq \<noteq> None then offered A st rq else x)"
| "last_acknowledged A st (e # h) x = last_acknowledged A st h x"

lemma life_values_step:
  "x \<in> set (life_values A st h x0) \<Longrightarrow> y \<in> set (reg_event A st e x) \<Longrightarrow> y \<in> set (life_values A st (h @ [e]) x0)"
  by (induction h arbitrary: x0) auto

lemma life_values_certain:
  "list_all (certain A st) h \<Longrightarrow> life_values A st h x = [last_acknowledged A st h x]"
  by (induction A st h x rule: last_acknowledged.induct) (auto simp: reg_next_def split: option.splits)

lemma offered_config: "as_config st = as_config st' \<Longrightarrow> offered A st rq = offered A st' rq"
  by (simp add: offered_def)

text \<open>The intent file is on disk for good, whatever it holds.\<close>

definition intent_kept :: "fsys \<Rightarrow> bool" where
  "intent_kept g \<longleftrightarrow>
     wf_fs g \<and> anchored g (path_of NODE_INTENT_PATH) \<and> one_value g (path_of NODE_INTENT_PATH)"

lemma profile_items_hd: "\<exists>its. profile_items p bytes i = (''persist'', path_of NODE_INTENT_PATH, bytes, True) # its"
  by (cases p) (simp_all add: profile_items_def intent_items_def)

lemma clean_prefix_hd:
  "clean_prefix s (it # its) t done \<Longrightarrow> holds_new t it \<or> \<not> done \<and> holds_old s t it"
  by (auto simp: clean_prefix_def Cons_eq_append_conv)

lemma crash_prefix_hd:
  "crash_prefix s (it # its) t \<Longrightarrow> holds_new t it \<or> holds_either s t it"
  by (auto simp: crash_prefix_def Cons_eq_append_conv)

lemma kept_crash:
  assumes "intent_kept g" and "after_crash g u"
  shows "intent_kept u \<and> content u (path_of NODE_INTENT_PATH) = content g (path_of NODE_INTENT_PATH)"
proof -
  have "\<not> lost_above u (path_of NODE_INTENT_PATH)"
    using crash_anchored_not_lost [OF assms(2)] assms(1) by (simp add: intent_kept_def)
  from crash_may_hold [OF assms(2) this] crash_wf [OF assms(2)] crash_anchored [OF assms(2)] crash_one_value [OF assms(2)]
    assms(1) show ?thesis by (simp add: intent_kept_def one_value_def)
qed

lemma kept_puts:
  assumes "syncs E" and "intent_kept (w_fs w)"
    and "put_items (write_atomic E) (profile_items p bytes i) w = (q, w')"
  shows "intent_kept (w_fs w')"
    and "content (w_fs w') (path_of NODE_INTENT_PATH) = Some bytes \<or>
      isl q \<and> content (w_fs w') (path_of NODE_INTENT_PATH) = content (w_fs w) (path_of NODE_INTENT_PATH)"
proof -
  let ?it = "(''persist'', path_of NODE_INTENT_PATH, bytes, True)"
  obtain its where hd: "profile_items p bytes i = ?it # its"
    using profile_items_hd by blast
  have run: "put_items (write_atomic (syncing E)) (profile_items p bytes i) w = (q, w')"
    using assms(3) by (simp add: syncing_same [OF assms(1)])
  have ok: "wf_fs (w_fs w)" and end': "seen w w' (w_fs w')" using assms(2) by (simp_all add: intent_kept_def seen_def)
  from clean_prefix_hd [OF ds.puts_final [OF profile_items_facts ok run, unfolded hd]]
  have "holds_new (w_fs w') ?it \<or> isl q \<and> holds_old (w_fs w) (w_fs w') ?it" by simp
  then have "one_value (w_fs w') (path_of NODE_INTENT_PATH) \<and> (content (w_fs w') (path_of NODE_INTENT_PATH) = Some bytes \<or>
      isl q \<and> content (w_fs w') (path_of NODE_INTENT_PATH) = content (w_fs w) (path_of NODE_INTENT_PATH))"
    using holds_new_one_value [of "w_fs w'" ?it] holds_old_one_value [of "w_fs w" "w_fs w'" ?it] assms(2)
    by (auto simp: intent_kept_def)
  with ds.puts_seen_ok [OF profile_items_facts(1) ok run end']
    ds.puts_anchored [OF profile_items_facts(1) ok run end' durable_paths(1)] assms(2)
  show "intent_kept (w_fs w')"
    and "content (w_fs w') (path_of NODE_INTENT_PATH) = Some bytes \<or>
      isl q \<and> content (w_fs w') (path_of NODE_INTENT_PATH) = content (w_fs w) (path_of NODE_INTENT_PATH)"
    by (simp_all add: intent_kept_def)
qed

lemma kept_cut:
  assumes "syncs E" and "intent_kept (w_fs w)"
    and "put_items (write_atomic E) (profile_items p bytes i) w = (q, w')"
    and "t \<in> set (passed w w')" and "after_crash t u"
  shows "intent_kept u \<and> (content u (path_of NODE_INTENT_PATH) = Some bytes \<or>
    content u (path_of NODE_INTENT_PATH) = content (w_fs w) (path_of NODE_INTENT_PATH))"
proof -
  let ?it = "(''persist'', path_of NODE_INTENT_PATH, bytes, True)"
  obtain its where hd: "profile_items p bytes i = ?it # its" using profile_items_hd by blast
  have run: "put_items (write_atomic (syncing E)) (profile_items p bytes i) w = (q, w')"
    using assms(3) by (simp add: syncing_same [OF assms(1)])
  have ok: "wf_fs (w_fs w)" and anc: "anchored (w_fs w) (path_of NODE_INTENT_PATH)"
    and old: "one_value (w_fs w) (path_of NODE_INTENT_PATH)" and mid: "seen w w' t"
    using assms(2,4) by (simp_all add: intent_kept_def seen_def)
  have okt: "wf_fs t" by (rule ds.puts_seen_ok [OF profile_items_facts(1) ok run mid])
  have anct: "anchored t (path_of NODE_INTENT_PATH)"
    by (rule ds.puts_anchored [OF profile_items_facts(1) ok run mid durable_paths(1) anc])
  have "holds_new t ?it \<or> holds_either (w_fs w) t ?it"
    by (rule crash_prefix_hd [OF ds.puts_crash [OF profile_items_facts ok run mid, unfolded hd]])
  moreover have "may_hold t (path_of NODE_INTENT_PATH) (content u (path_of NODE_INTENT_PATH))"
    by (rule crash_may_hold [OF assms(5) crash_anchored_not_lost [OF assms(5) anct]])
  ultimately have "content u (path_of NODE_INTENT_PATH) = Some bytes \<or>
      content u (path_of NODE_INTENT_PATH) = content (w_fs w) (path_of NODE_INTENT_PATH)"
    using old unfolding holds_new_def holds_either_def one_value_def by auto
  with crash_wf [OF assms(5) okt] crash_anchored [OF assms(5) anct] crash_one_value [OF assms(5)]
  show ?thesis by (simp add: intent_kept_def)
qed

lemma files_same: "files s' = files s \<Longrightarrow> w_fs (sr_world s') = w_fs (sr_world s) \<and> passed (sr_world s) (sr_world s') = []"
  by (simp add: files_def passed_def)

lemma life_kept:
  assumes "node_life syncs A st0 p f h g" and "intent_kept f"
  shows "intent_kept g \<and> content g (path_of NODE_INTENT_PATH) \<in>
    set (life_values A st0 h (content f (path_of NODE_INTENT_PATH)))"
  using assms(1)
proof induction
  case life_start
  with assms(2) show ?case by simp
next
  case (life_answer h s E st clock rq code body s')
  note off = offered_config [OF life_answer(3)] and IH = conjunct1 [OF life_answer.IH] conjunct2 [OF life_answer.IH]
  from life_answer(4,5) show ?case
  proof (cases rule: router_writes)
    case quiet
    then have "content (w_fs (sr_world s')) (path_of NODE_INTENT_PATH) \<in> set (reg_event A st0 (Answered rq code)
        (content (w_fs (sr_world s)) (path_of NODE_INTENT_PATH)))"
      using files_same [OF quiet(1)] off by (simp add: reg_next_def)
    then show ?thesis using IH(1) files_same [OF quiet(1)] life_values_step [OF IH(2)] by simp
  next
    case (wrote bytes raw q)
    note k = kept_puts [OF life_answer(2) IH(1) wrote(3)]
    have "content (w_fs (sr_world s')) (path_of NODE_INTENT_PATH) \<in> set (reg_event A st0 (Answered rq code)
        (content (w_fs (sr_world s)) (path_of NODE_INTENT_PATH)))"
      using k(2) wrote(1,4) off by (auto simp: reg_next_def)
    then show ?thesis using k(1) life_values_step [OF IH(2)] by blast
  qed
next
  case (life_cut h s E st clock rq code body s' t u)
  note off = offered_config [OF life_cut(3)] and IH = conjunct1 [OF life_cut.IH] conjunct2 [OF life_cut.IH]
  have "intent_kept u \<and> content u (path_of NODE_INTENT_PATH) \<in> set (reg_event A st0 (Cut rq)
      (content (w_fs (sr_world s)) (path_of NODE_INTENT_PATH)))"
  proof (cases "t = w_fs (sr_world s)")
    case True
    with kept_crash [OF IH(1)] life_cut(7) show ?thesis by (simp split: option.split)
  next
    case False
    then have t: "t \<in> set (passed (sr_world s) (sr_world s'))" using life_cut(6) by simp
    from life_cut(4,5) show ?thesis
    proof (cases rule: router_writes)
      case quiet
      with files_same [OF quiet(1)] t show ?thesis by simp
    next
      case (wrote bytes raw q)
      from kept_cut [OF life_cut(2) IH(1) wrote(3) t life_cut(7)] wrote(1) off show ?thesis by auto
    qed
  qed
  with life_values_step [OF IH(2)] show ?case by blast
next
  case (life_power h g u)
  then show ?case
    using kept_crash [of g u] life_values_step [of "content g (path_of NODE_INTENT_PATH)" A st0 h _ _ PowerLost] by simp
next
  case (life_beside h g g')
  let ?p = "path_of NODE_INTENT_PATH"
  have p: "?p \<in> set (path_prefixes ?p)" by code_simp
  with life_beside(3) have ag: "agree g g' ?p" and up: "\<And>q. q \<in> set (butlast (path_prefixes ?p)) \<Longrightarrow> agree g g' q"
    by (auto simp: list_all_iff dest: in_set_butlastD)
  have "anchored g' ?p" by (rule agree_anchored [OF up]) (use life_beside.IH in \<open>simp_all add: intent_kept_def\<close>)
  with agree_content [OF ag] agree_may_hold [OF ag] life_beside(2) life_beside.IH
  show ?case by (simp add: intent_kept_def one_value_def)
qed

section \<open>The kubelet behind the marker\<close>

text \<open>A supervision turn that starts a gated service has seen the marker and changes no file.\<close>

lemma started_gate:
  assumes "sv_start_when svc = Some m" and "supervise_one E \<lparr>rn_spec = svc, rn_child = None\<rparr> v = (Inr rn, v')"
    and "rn_child rn \<noteq> None"
  shows "cur (w_fs v) m \<noteq> Absent" and "w_fs v' = w_fs v"
  using assms by (auto simp: supervise_one_def path_exists_def spawn_service_def spawn_def io_defs Let_def
      split: option.splits if_splits sum.splits)

text \<open>Where the marker is there and neither the lookup nor the start fails, the turn starts the service.\<close>

lemma gate_opens:
  assumes "sv_start_when svc = Some m" and "cur (w_fs v) m \<noteq> Absent" and "\<And>t o'. env_fault E t o' = None"
  obtains rn v' where "supervise_one E \<lparr>rn_spec = svc, rn_child = None\<rparr> v = (Inr rn, v')" and "rn_child rn \<noteq> None"
  using assms by (auto simp: supervise_one_def path_exists_def spawn_service_def spawn_def io_defs Let_def)

text \<open>The service as the k8s image configures it.\<close>

definition kubelet_service :: service where
  "kubelet_service = \<lparr>sv_name = ''kubelet'', sv_command = path_of ''/usr/bin/kubelet'', sv_args = [], sv_restart = Always,
     sv_ready_when = None, sv_ready_timeout = 30, sv_start_when = Some (path_of BOOTSTRAP_KUBECONFIG_PATH)\<rparr>"

lemma kubelet_gate: "sv_start_when kubelet_service = Some (path_of BOOTSTRAP_KUBECONFIG_PATH)"
  by (simp add: kubelet_service_def)

text \<open>The kubeconfig is the last file of the list: where it is there, all of them are.\<close>

lemma intent_items_last:
  obtains xs z where "intent_items bytes i = xs @ [z]" and "item_path z = path_of BOOTSTRAP_KUBECONFIG_PATH"
proof
  show "intent_items bytes i = take 3 (intent_items bytes i) @ [intent_items bytes i ! 3]"
    and "item_path (intent_items bytes i ! 3) = path_of BOOTSTRAP_KUBECONFIG_PATH"
    by (simp_all add: intent_items_def k8s_items_def)
qed

lemma intent_complete:
  assumes "commit_prefix s0 (intent_items bytes i) s" and "content s0 (path_of BOOTSTRAP_KUBECONFIG_PATH) = None"
    and "content s (path_of BOOTSTRAP_KUBECONFIG_PATH) \<noteq> None" and "it \<in> set (intent_items bytes i)"
  shows "content s (item_path it) = Some (item_data it)"
proof -
  obtain xs z where "intent_items bytes i = xs @ [z]" "item_path z = path_of BOOTSTRAP_KUBECONFIG_PATH"
    by (rule intent_items_last)
  then show ?thesis using commit_prefix_last [of s0 xs z s it] assms by simp
qed

text \<open>The same after a power loss: the files lie in directories that are above the kubeconfig too.\<close>

lemma intent_above:
  "it \<in> set (intent_items bytes i) \<Longrightarrow>
     set (butlast (path_prefixes (item_path it))) \<subseteq> set (butlast (path_prefixes (path_of BOOTSTRAP_KUBECONFIG_PATH)))"
proof -
  have "list_all (\<lambda>p. list_all (\<lambda>q. q \<in> set (butlast (path_prefixes (path_of BOOTSTRAP_KUBECONFIG_PATH)))) (butlast (path_prefixes p)))
      [path_of NODE_INTENT_PATH, path_of CLUSTER_CA_PATH, path_of KUBELET_CONFIG_PATH, path_of BOOTSTRAP_KUBECONFIG_PATH]"
    by code_simp
  then show "it \<in> set (intent_items bytes i) \<Longrightarrow>
     set (butlast (path_prefixes (item_path it))) \<subseteq> set (butlast (path_prefixes (path_of BOOTSTRAP_KUBECONFIG_PATH)))"
    by (auto simp: intent_items_def k8s_items_def list_all_iff)
qed

lemma intent_crash_complete:
  assumes "crash_prefix s0 (intent_items bytes i) t" and "after_crash t u"
    and "\<And>x. \<not> may_hold s0 (path_of BOOTSTRAP_KUBECONFIG_PATH) (Some x)"
    and "content u (path_of BOOTSTRAP_KUBECONFIG_PATH) \<noteq> None" and "it \<in> set (intent_items bytes i)"
  shows "content u (item_path it) = Some (item_data it)"
proof -
  obtain x where x: "content u (path_of BOOTSTRAP_KUBECONFIG_PATH) = Some x" using assms(4) by blast
  obtain xs z where "intent_items bytes i = xs @ [z]" "item_path z = path_of BOOTSTRAP_KUBECONFIG_PATH"
    by (rule intent_items_last)
  then show ?thesis
    using crash_prefix_last [of s0 xs z t u x it] assms x intent_above [OF assms(5)] by simp
qed

lemma intent_items_all:
  assumes "\<And>it. it \<in> set (intent_items bytes i) \<Longrightarrow> content s (item_path it) = Some (item_data it)"
  shows "content s (path_of NODE_INTENT_PATH) = Some bytes" "content s (path_of CLUSTER_CA_PATH) = Some (ni_cluster_ca i)"
    "content s (path_of KUBELET_CONFIG_PATH) = Some (render_kubelet_config i)"
    "content s (path_of BOOTSTRAP_KUBECONFIG_PATH) = Some (render_bootstrap_kubeconfig i)"
  using assms [of "intent_items bytes i ! 0"] assms [of "intent_items bytes i ! 1"]
    assms [of "intent_items bytes i ! 2"] assms [of "intent_items bytes i ! 3"]
  by (simp_all add: intent_items_def k8s_items_def)

section \<open>Success\<close>

lemma intent_item_parents:
  "it \<in> set (intent_items bytes i) \<Longrightarrow>
     path_parent (item_path it) = Some intent_dir \<or> path_parent (item_path it) = Some kubelet_dir"
  using intent_parent k8s_parents [of i] by (auto simp: intent_items_def)

lemma config_above:
  assumes "put_items (write_atomic E) (intent_items bytes i) w = (Inr x, w')"
  shows "\<not> lost_above (w_fs w') (path_of BOOTSTRAP_KUBECONFIG_PATH)"
proof -
  obtain xs z where z: "intent_items bytes i = xs @ [z]" "item_path z = path_of BOOTSTRAP_KUBECONFIG_PATH"
    by (rule intent_items_last)
  from puts_above [OF assms [unfolded z(1)]] k8s_paths_target(3) show ?thesis by (simp add: z(2))
qed

text \<open>An offer passes the middleware and reaches the handler.\<close>

lemma router_put:
  assumes "offered A st rq = Some bytes"
  obtains s0 raw where "build_router A E clock st rq s = put_config A E st rq s0" and "sr_world s0 = sr_world s"
    and "al_extract A rq = Inr raw" and "validate (al_from_pem A) (intent_of_raw raw) = Inr ()"
    and "al_to_vec A (intent_of_raw raw) = Inr bytes"
proof -
  obtain raw r where o': "rq_method rq = PUT" "rq_path rq = ''/v1/config''"
      "granted_role (nc_authorization (as_config st)) rq = Some r" "satisfies r Operator"
      "al_extract A rq = Inr raw" "validate (al_from_pem A) (intent_of_raw raw) = Inr ()"
      "al_to_vec A (intent_of_raw raw) = Inr bytes"
    using assms by (auto simp: offered_def split: if_splits sum.splits option.splits dest!: not_isl_unit)
  then have req: "required_role (rq_method rq) (rq_path rq) = Some Operator" by (simp add: required_role_def)
  show thesis
  proof (cases rule: authorize_cases [of "nc_authorization (as_config st)" "routes A E clock st" rq s])
    case deny
    with req o' show thesis by auto
  next
    case (allow s0)
    then have "build_router A E clock st rq s = put_config A E st rq s0"
      using o' by (simp add: build_router_def routes_def)
    with allow(2) o' that show thesis by blast
  qed
qed

text \<open>It is answered with 200, and all four files are there, where nothing is in their way.\<close>

lemma router_applies:
  assumes "config_clear (w_fs (sr_world s))" and "config_writable E" and "offered A st rq = Some bytes"
    and "as_workload st = new_profile (al_from_pem A) E K8s"
  obtains s' raw where "build_router A E clock st rq s = ((200, Text (''node intent applied'' @ [newline])), s')"
    and "al_extract A rq = Inr raw"
    and "put_items (write_atomic E) (intent_items bytes (intent_of_raw raw)) (sr_world s) = (Inr (), sr_world s')"
    and "\<forall>it \<in> set (intent_items bytes (intent_of_raw raw)). content (w_fs (sr_world s')) (item_path it) = Some (item_data it)"
proof -
  obtain s0 raw where r: "build_router A E clock st rq s = put_config A E st rq s0" "sr_world s0 = sr_world s"
    and i: "al_extract A rq = Inr raw" "validate (al_from_pem A) (intent_of_raw raw) = Inr ()"
      "al_to_vec A (intent_of_raw raw) = Inr bytes" by (rule router_put [OF assms(3)])
  have "config_clear (w_fs (sr_world s0))" using assms(1) r(2) by simp
  then obtain s' where run: "put_config A E st rq s0 = ((200, Text (''node intent applied'' @ [newline])), s')"
    and "flat kubelet_dir (w_fs (sr_world s'))" and c: "content (w_fs (sr_world s')) (path_of NODE_INTENT_PATH) = Some bytes"
    and k: "\<forall>it \<in> set (k8s_items (intent_of_raw raw)). content (w_fs (sr_world s')) (item_path it) = Some (item_data it)"
    by (rule put_applies [OF _ assms(2,4) i])
  have "apply_intent A E st (intent_of_raw raw) s0 = ((200, Text (''node intent applied'' @ [newline])), s')"
    using run i(1) by (simp add: put_config_def)
  with assms(4) have "put_items (write_atomic E) (intent_items bytes (intent_of_raw raw)) (sr_world s) = (Inr (), sr_world s')"
    by (cases rule: apply_intent_writes) (use i r(2) in \<open>auto simp: profile_items_def dest: not_isl_unit\<close>)
  with r(1) run i(1) c k that show thesis by (simp add: intent_items_def)
qed

section \<open>Examples\<close>

text \<open>A disk on which the state directories exist, and a request on it.\<close>

definition k8s_disk :: fsys where
  "k8s_disk = add_dirs (path_prefixes kubelet_dir) empty_fs"

definition disk_server :: "fsys \<Rightarrow> server" where
  "disk_server f = \<lparr>sr_world = world_of f, sr_next_id = 1, sr_audit = []\<rparr>"

lemma disk_server_fs [simp]: "w_fs (sr_world (disk_server f)) = f" "w_snaps (sr_world (disk_server f)) = []"
  by (simp_all add: disk_server_def world_of_def)

lemma vers_add_dirs: "vers (add_dirs ps s) q = (if q \<in> set ps then [Directory] else vers s q)"
  by (induction ps arbitrary: s) (simp_all add: vers_add_dir)

lemma k8s_disk_vers: "vers k8s_disk q = (if q \<in> set (path_prefixes kubelet_dir) then [Directory] else [Absent])"
  by (simp add: k8s_disk_def vers_add_dirs) (simp add: vers_def empty_fs_def)

lemma k8s_disk_cur: "cur k8s_disk q = (if q \<in> set (path_prefixes kubelet_dir) then Directory else Absent)"
  by (simp add: cur_def k8s_disk_vers)

lemma k8s_disk_paths:
  "path_of BOOTSTRAP_KUBECONFIG_PATH \<notin> set (path_prefixes kubelet_dir)"
  "path_of KUBELET_CONFIG_PATH \<notin> set (path_prefixes kubelet_dir)"
  "clear_way k8s_disk (path_of NODE_INTENT_PATH)"
  "list_all (\<lambda>q. q \<in> set (path_prefixes kubelet_dir)) (butlast (path_prefixes (path_of NODE_INTENT_PATH)))"
  by code_simp+

lemma k8s_disk_facts:
  shows "wf_fs k8s_disk" and "config_clear k8s_disk"
    and "\<not> may_hold k8s_disk (path_of BOOTSTRAP_KUBECONFIG_PATH) (Some x)" and "intent_kept k8s_disk"
    and "content k8s_disk (path_of NODE_INTENT_PATH) = None"
proof -
  show wf: "wf_fs k8s_disk" by (simp add: k8s_disk_def wf_samples)
  have "flat kubelet_dir k8s_disk"
    using child_not_prefix [of _ kubelet_dir] by (auto simp: flat_def blocked_iff k8s_disk_cur)
  with wf k8s_disk_paths(3) show "config_clear k8s_disk" by (simp add: config_clear_def)
  show "\<not> may_hold k8s_disk (path_of BOOTSTRAP_KUBECONFIG_PATH) (Some x)"
    by (simp add: may_hold_def k8s_disk_vers k8s_disk_paths(1))
  have "path_of NODE_INTENT_PATH \<notin> set (path_prefixes kubelet_dir)" by (rule intent_dirs(2))
  then show none: "content k8s_disk (path_of NODE_INTENT_PATH) = None"
    and "intent_kept k8s_disk"
    using wf k8s_disk_paths(4)
    by (auto simp: content_def k8s_disk_cur intent_kept_def anchored_def one_value_def may_hold_def k8s_disk_vers
        list_all_iff elim: entry_survives.elims)
qed

section \<open>Properties\<close>

text \<open>
  C2. The kubelet does not start on a half-written configuration after a power loss either. On a node
  on which no bootstrap kubeconfig can come up, let the power go in any state that
  a request passes through, whatever fails on the way but directory syncs, and let the machine
  come up with any file system this can leave: if a turn of \<open>initd\<close>'s supervision then starts the
  service that waits for the kubeconfig, all four files are those of the request.
\<close>

theorem kubelet_after_power_loss:
  assumes "as_workload st = new_profile (al_from_pem A) E K8s" and "syncs E" and "wf_fs (w_fs (sr_world s))"
    and "\<And>x. \<not> may_hold (w_fs (sr_world s)) (path_of BOOTSTRAP_KUBECONFIG_PATH) (Some x)"
    and "al_extract A rq = Inr raw" and "build_router A E clock st rq s = (resp, s')"
    and "t \<in> set (passed (sr_world s) (sr_world s'))" and "after_crash t (w_fs v)"
    and "cur (w_fs v) (path_of BOOTSTRAP_KUBECONFIG_PATH) = Absent \<or>
      content (w_fs v) (path_of BOOTSTRAP_KUBECONFIG_PATH) \<noteq> None"
    and "sv_start_when svc = Some (path_of BOOTSTRAP_KUBECONFIG_PATH)"
    and "supervise_one E' \<lparr>rn_spec = svc, rn_child = None\<rparr> v = (Inr rn, v')" and "rn_child rn \<noteq> None"
  shows "(\<exists>bytes. al_to_vec A (intent_of_raw raw) = Inr bytes \<and>
      content (w_fs v') (path_of NODE_INTENT_PATH) = Some bytes) \<and>
    content (w_fs v') (path_of CLUSTER_CA_PATH) = Some (ni_cluster_ca (intent_of_raw raw)) \<and>
    content (w_fs v') (path_of KUBELET_CONFIG_PATH) = Some (render_kubelet_config (intent_of_raw raw)) \<and>
    content (w_fs v') (path_of BOOTSTRAP_KUBECONFIG_PATH) = Some (render_bootstrap_kubeconfig (intent_of_raw raw))"
proof -
  let ?i = "intent_of_raw raw"
  obtain code body where "build_router A E clock st rq s = ((code, body), s')" using assms(6) by (cases resp) simp
  with assms(1) obtain bytes q where off: "offered A st rq = Some bytes"
    and puts: "put_items (write_atomic E) (intent_items bytes ?i) (sr_world s) = (q, sr_world s')"
    by (cases rule: router_writes) (use assms(5,7) files_same in \<open>auto simp: profile_items_def\<close>)
  have b: "al_to_vec A ?i = Inr bytes" using off assms(5) by (auto simp: offered_def split: if_splits option.splits sum.splits)
  have run: "put_items (write_atomic (syncing E)) (intent_items bytes ?i) (sr_world s) = (q, sr_world s')"
    using puts by (simp add: syncing_same [OF assms(2)])
  have targets: "\<forall>it \<in> set (intent_items bytes ?i). durable_target (item_path it)"
    using profile_items_facts(1) [of K8s bytes ?i] by (simp add: profile_items_def)
  have mid: "seen (sr_world s) (sr_world s') t" using assms(7) by (simp add: seen_def)
  note cp = ds.puts_crash [OF targets intent_items_facts(2) assms(3) run mid]
  note gate = started_gate [OF assms(10-12)]
  have new: "content (w_fs v) (item_path it) = Some (item_data it)" if "it \<in> set (intent_items bytes ?i)" for it
    by (rule intent_crash_complete [OF cp assms(8,4) _ that]) (use gate(1) assms(9) in blast)
  from intent_items_all [OF new] b show ?thesis by (simp add: gate(2))
qed

text \<open>The sample request on a disk with the state directories, answered.\<close>

definition disk_after :: server where
  "disk_after = snd (build_router sample_api calm (\<lambda>_. None) (ops_state calm) ops_put (disk_server k8s_disk))"

lemma disk_after_run:
  shows "build_router sample_api calm (\<lambda>_. None) (ops_state calm) ops_put (disk_server k8s_disk) =
      ((200, Text (''node intent applied'' @ [newline])), disk_after)"
    and "put_items (write_atomic calm) (intent_items ''I'' sample_intent) (world_of k8s_disk) = (Inr (), sr_world disk_after)"
    and "content (w_fs (sr_world disk_after)) (path_of NODE_INTENT_PATH) = Some ''I''"
    and "content (w_fs (sr_world disk_after)) (path_of BOOTSTRAP_KUBECONFIG_PATH) =
      Some (render_bootstrap_kubeconfig sample_intent)"
proof -
  have clear: "config_clear (w_fs (sr_world (disk_server k8s_disk)))" by (simp add: k8s_disk_facts)
  obtain s' raw where run: "build_router sample_api calm (\<lambda>_. None) (ops_state calm) ops_put (disk_server k8s_disk) =
      ((200, Text (''node intent applied'' @ [newline])), s')"
    and raw: "al_extract sample_api ops_put = Inr raw"
    and puts: "put_items (write_atomic calm) (intent_items ''I'' (intent_of_raw raw)) (sr_world (disk_server k8s_disk)) =
      (Inr (), sr_world s')"
    and new: "\<forall>it \<in> set (intent_items ''I'' (intent_of_raw raw)). content (w_fs (sr_world s')) (item_path it) = Some (item_data it)"
    by (rule router_applies [OF clear calm_writable sample_offered ops_workload])
  have "s' = disk_after" "intent_of_raw raw = sample_intent"
    using run raw by (simp_all add: disk_after_def ops_extract flip: sample_raw_intent)
  with run puts new
  show "build_router sample_api calm (\<lambda>_. None) (ops_state calm) ops_put (disk_server k8s_disk) =
      ((200, Text (''node intent applied'' @ [newline])), disk_after)"
    and "put_items (write_atomic calm) (intent_items ''I'' sample_intent) (world_of k8s_disk) = (Inr (), sr_world disk_after)"
    and "content (w_fs (sr_world disk_after)) (path_of NODE_INTENT_PATH) = Some ''I''"
    and "content (w_fs (sr_world disk_after)) (path_of BOOTSTRAP_KUBECONFIG_PATH) =
      Some (render_bootstrap_kubeconfig sample_intent)"
    by (simp_all add: disk_server_def intent_items_def k8s_items_def)
qed

lemma calm_syncs: "syncs calm"
  by (simp add: syncs_def calm_def)

lemma calm_no_fault: "env_fault calm t o' = None"
  by (simp add: calm_def)

text \<open>The power goes after the answer, and nothing that was there is lost.\<close>

lemma disk_cut:
  "after_crash (w_fs (sr_world disk_after)) (cut_without [] (w_fs (sr_world disk_after)))"
  "w_fs (sr_world disk_after) \<in> set (passed (sr_world (disk_server k8s_disk)) (sr_world disk_after))"
  "content (cut_without [] (w_fs (sr_world disk_after))) (path_of BOOTSTRAP_KUBECONFIG_PATH) =
     Some (render_bootstrap_kubeconfig sample_intent)"
proof -
  let ?f = "w_fs (sr_world disk_after)"
  show "after_crash ?f (cut_without [] ?f)" by (rule cut_without_crash) simp
  have "tracked k8s_disk (sr_world disk_after)"
    by (rule keepsD [OF tracked_puts _ disk_after_run(2)]) (simp add: tracked_def world_of_def)
  moreover have "?f \<noteq> k8s_disk" using disk_after_run(3) k8s_disk_facts(5) by auto
  ultimately show "?f \<in> set (passed (sr_world (disk_server k8s_disk)) (sr_world disk_after))"
    by (rule tracked_last) simp
  have "\<not> lost_above ?f (path_of BOOTSTRAP_KUBECONFIG_PATH)" by (rule config_above [OF disk_after_run(2)])
  with disk_after_run(4) show "content (cut_without [] ?f) (path_of BOOTSTRAP_KUBECONFIG_PATH) =
      Some (render_bootstrap_kubeconfig sample_intent)"
    by (simp add: cut_without_content)
qed

theorem kubelet_after_power_loss_witness:
  "(let v = world_of (cut_without [] (w_fs (sr_world disk_after)))
    in content (w_fs (snd (supervise_one calm \<lparr>rn_spec = kubelet_service, rn_child = None\<rparr> v))) (path_of CLUSTER_CA_PATH) =
       Some ''CA'')"
proof -
  let ?v = "world_of (cut_without [] (w_fs (sr_world disk_after)))"
  have v: "w_fs ?v = cut_without [] (w_fs (sr_world disk_after))" by (simp add: world_of_def)
  have crash: "after_crash (w_fs (sr_world disk_after)) (w_fs ?v)" by (simp only: v disk_cut(1))
  have m: "content (w_fs ?v) (path_of BOOTSTRAP_KUBECONFIG_PATH) \<noteq> None" by (simp only: v disk_cut(3)) simp
  then have "cur (w_fs ?v) (path_of BOOTSTRAP_KUBECONFIG_PATH) \<noteq> Absent" by (auto simp: content_def)
  then obtain rn v' where r: "supervise_one calm \<lparr>rn_spec = kubelet_service, rn_child = None\<rparr> ?v = (Inr rn, v')"
    "rn_child rn \<noteq> None" by (rule gate_opens [OF kubelet_gate _ calm_no_fault])
  have "wf_fs (w_fs (sr_world (disk_server k8s_disk)))"
    "\<And>x. \<not> may_hold (w_fs (sr_world (disk_server k8s_disk))) (path_of BOOTSTRAP_KUBECONFIG_PATH) (Some x)"
    by (simp_all add: k8s_disk_facts)
  from kubelet_after_power_loss [OF ops_workload calm_syncs this ops_extract disk_after_run(1) disk_cut(2)
      crash disjI2 [OF m] kubelet_gate r]
  show ?thesis by (simp add: r(1) sample_raw_intent sample_intent_def)
qed

text \<open>
  C3. Where directory syncs work, an acknowledged intent survives power losses. Take a node on which no
  directory sync fails (\<open>syncs\<close>), whose intent directory is on disk for good (\<open>anchored\<close>) and whose
  intent file can hold only one value (\<open>one_value\<close>), and any sequence of requests, requests cut off by a
  power loss, and power losses in between, over any number of boots, whatever else fails: the intent file
  holds one of the values of a register that the acknowledged offers replace, interrupted and failed ones
  may have replaced, and nothing else touches. Where no offer was interrupted or failed, it holds the last.
  (Without working syncs, and for the first intent of a node, this does not hold.)
\<close>

theorem intent_register_durable:
  assumes "node_life syncs A st p f h g" and "wf_fs f" and "anchored f (path_of NODE_INTENT_PATH)"
    and "one_value f (path_of NODE_INTENT_PATH)"
  shows "content g (path_of NODE_INTENT_PATH) \<in>
      set (life_values A st h (content f (path_of NODE_INTENT_PATH))) \<and>
    (list_all (certain A st) h \<longrightarrow> content g (path_of NODE_INTENT_PATH) =
       last_acknowledged A st h (content f (path_of NODE_INTENT_PATH)))"
proof -
  have "intent_kept f" using assms(2-4) by (simp add: intent_kept_def)
  from life_kept [OF assms(1) this] show ?thesis by (auto simp: life_values_certain)
qed

text \<open>The sample request, answered, and a power loss.\<close>

theorem intent_register_durable_witness:
  "node_life syncs sample_api (ops_state calm) K8s k8s_disk [Answered ops_put 200, PowerLost]
     (cut_without [] (w_fs (sr_world disk_after))) \<and>
   content (cut_without [] (w_fs (sr_world disk_after))) (path_of NODE_INTENT_PATH) = Some ''I''"
proof -
  have "node_life syncs sample_api (ops_state calm) K8s k8s_disk [] (w_fs (sr_world (disk_server k8s_disk)))"
    by (simp add: life_start)
  from life_answer [OF this calm_syncs refl ops_workload disk_after_run(1)]
  have "node_life syncs sample_api (ops_state calm) K8s k8s_disk [Answered ops_put 200] (w_fs (sr_world disk_after))" by simp
  from life_power [OF this disk_cut(1)]
  have run: "node_life syncs sample_api (ops_state calm) K8s k8s_disk [Answered ops_put 200, PowerLost]
      (cut_without [] (w_fs (sr_world disk_after)))" by simp
  have "anchored k8s_disk (path_of NODE_INTENT_PATH)" "one_value k8s_disk (path_of NODE_INTENT_PATH)"
    using k8s_disk_facts(4) by (simp_all add: intent_kept_def)
  from intent_register_durable [OF run k8s_disk_facts(1) this] run show ?thesis by (simp add: sample_offered)
qed



text \<open>
  C33. The order of the writes alone does not protect the kubelet. \<open>write_atomic\<close> ignores a directory sync
  that fails: where none succeeds, the request is still answered with 200, and the power loss after
  it can keep the bootstrap kubeconfig and lose the kubelet configuration, so that the kubelet is
  started without one.
\<close>

theorem config_lost_without_sync:
  assumes "as_workload st = new_profile (al_from_pem A) E K8s" and "config_clear (w_fs (sr_world s))"
    and "config_writable E" and "offered A st rq = Some bytes" and "\<forall>t d. env_fault E t (SyncDir d) \<noteq> None"
    and "cur (w_fs (sr_world s)) (path_of KUBELET_CONFIG_PATH) = Absent"
    and "sv_start_when svc = Some (path_of BOOTSTRAP_KUBECONFIG_PATH)" and "\<And>t o'. env_fault E' t o' = None"
  shows "\<exists>body s' u. build_router A E clock st rq s = ((200, body), s') \<and> after_crash (w_fs (sr_world s')) u \<and>
    content u (path_of KUBELET_CONFIG_PATH) = None \<and>
    (\<exists>rn v'. supervise_one E' \<lparr>rn_spec = svc, rn_child = None\<rparr> (world_of u) = (Inr rn, v') \<and> rn_child rn \<noteq> None)"
proof -
  let ?cfg = "path_of KUBELET_CONFIG_PATH" and ?m = "path_of BOOTSTRAP_KUBECONFIG_PATH"
  obtain s' raw where run: "build_router A E clock st rq s = ((200, Text (''node intent applied'' @ [newline])), s')"
    and raw: "al_extract A rq = Inr raw"
    and puts: "put_items (write_atomic E) (intent_items bytes (intent_of_raw raw)) (sr_world s) = (Inr (), sr_world s')"
    and new: "\<forall>it \<in> set (intent_items bytes (intent_of_raw raw)). content (w_fs (sr_world s')) (item_path it) = Some (item_data it)"
    by (rule router_applies [OF assms(2-4,1)])
  let ?f = "w_fs (sr_world s')" and ?u = "cut_without [path_of KUBELET_CONFIG_PATH] (w_fs (sr_world s'))"
  have par: "\<forall>it \<in> set (intent_items bytes (intent_of_raw raw)). \<exists>d. path_parent (item_path it) = Some d \<and>
      (path_parent ?cfg \<noteq> Some d \<or> (\<forall>t. env_fault E t (SyncDir d) \<noteq> None))"
    using intent_item_parents assms(5) by blast
  have "Absent \<in> set (vers (w_fs (sr_world s)) ?cfg)" using cur_in_vers [of "w_fs (sr_world s)" ?cfg] assms(6) by simp
  then have "Absent \<in> set (vers ?f ?cfg)" by (rule keepsD [OF puts_keep_entry [OF par] _ puts])
  moreover have "?cfg \<noteq> [RootDir]" "?cfg \<noteq> [CurDir]" "?cfg \<notin> set (path_prefixes ?m)" "?cfg \<in> set (path_prefixes ?cfg)"
    by code_simp+
  ultimately have crash: "after_crash ?f ?u" and lost: "content ?u ?cfg = None" and "?cfg \<notin> set (path_prefixes ?m)"
    by (simp_all add: cut_without_crash cut_without_content)
  have "\<not> lost_above ?f ?m" by (rule config_above [OF puts])
  then have "content ?u ?m \<noteq> None"
    using intent_items_all(4) [of bytes "intent_of_raw raw" ?f] new \<open>?cfg \<notin> set (path_prefixes ?m)\<close>
    by (simp add: cut_without_content)
  then have "cur (w_fs (world_of ?u)) ?m \<noteq> Absent" by (auto simp: content_def world_of_def)
  then obtain rn v' where "supervise_one E' \<lparr>rn_spec = svc, rn_child = None\<rparr> (world_of ?u) = (Inr rn, v')"
    "rn_child rn \<noteq> None" by (rule gate_opens [OF assms(7) _ assms(8)])
  with run crash lost show ?thesis by blast
qed

text \<open>A machine whose disk does not take directory syncs.\<close>

definition no_dir_sync :: env where
  "no_dir_sync = calm\<lparr>env_fault := (\<lambda>_ o'. case o' of SyncDir _ \<Rightarrow> Some (OsError 5) | _ \<Rightarrow> None)\<rparr>"

theorem config_lost_without_sync_witness:
  "\<exists>u. content u (path_of KUBELET_CONFIG_PATH) = None \<and>
     (\<exists>rn v'. supervise_one calm \<lparr>rn_spec = kubelet_service, rn_child = None\<rparr> (world_of u) = (Inr rn, v') \<and>
        rn_child rn \<noteq> None)"
proof -
  have clear: "config_clear (w_fs (sr_world (disk_server k8s_disk)))"
    and none: "cur (w_fs (sr_world (disk_server k8s_disk))) (path_of KUBELET_CONFIG_PATH) = Absent"
    by (simp_all add: k8s_disk_facts k8s_disk_cur k8s_disk_paths)
  have w: "config_writable no_dir_sync"
    by (auto simp: config_writable_def no_dir_sync_def split: op.splits)
  have f: "\<forall>t d. env_fault no_dir_sync t (SyncDir d) \<noteq> None" by (simp add: no_dir_sync_def)
  have st: "as_workload (ops_state no_dir_sync) = new_profile (al_from_pem sample_api) no_dir_sync K8s" by (rule ops_workload)
  from config_lost_without_sync [OF ops_workload clear w sample_offered f none kubelet_gate calm_no_fault]
  show ?thesis by blast
qed

text \<open>
  C32. The first intent of a node is not durable at all, not even where every operation and every sync
  succeeds: \<open>write_atomic\<close> makes the intent directory but nothing syncs the entry of that directory
  in \<open>/var/lib/nodeos\<close>, so after the answer 200 a power loss can leave neither the intent nor any file
  of the kubelet.
\<close>

theorem first_intent_lost:
  assumes "as_workload st = new_profile (al_from_pem A) E K8s" and "config_clear (w_fs (sr_world s))"
    and "config_writable E" and "offered A st rq = Some bytes"
    and "cur (w_fs (sr_world s)) intent_dir = Absent"
  shows "\<exists>body s' u. build_router A E clock st rq s = ((200, body), s') \<and> after_crash (w_fs (sr_world s')) u \<and>
    content u (path_of NODE_INTENT_PATH) = None \<and> content u (path_of CLUSTER_CA_PATH) = None \<and>
    content u (path_of KUBELET_CONFIG_PATH) = None \<and> content u (path_of BOOTSTRAP_KUBECONFIG_PATH) = None"
proof -
  obtain s' raw where run: "build_router A E clock st rq s = ((200, Text (''node intent applied'' @ [newline])), s')"
    and raw: "al_extract A rq = Inr raw"
    and puts: "put_items (write_atomic E) (intent_items bytes (intent_of_raw raw)) (sr_world s) = (Inr (), sr_world s')"
    and new: "\<forall>it \<in> set (intent_items bytes (intent_of_raw raw)). content (w_fs (sr_world s')) (item_path it) = Some (item_data it)"
    by (rule router_applies [OF assms(2-4,1)])
  have dirs: "path_parent intent_dir \<noteq> Some intent_dir" "path_parent intent_dir \<noteq> Some kubelet_dir"
    "intent_dir \<noteq> [RootDir]" "intent_dir \<noteq> [CurDir]"
    "list_all (\<lambda>p. intent_dir \<in> set (path_prefixes p)) [path_of NODE_INTENT_PATH, path_of CLUSTER_CA_PATH,
       path_of KUBELET_CONFIG_PATH, path_of BOOTSTRAP_KUBECONFIG_PATH]"
    by code_simp+
  have "\<forall>it \<in> set (intent_items bytes (intent_of_raw raw)). \<exists>d. path_parent (item_path it) = Some d \<and>
      (path_parent intent_dir \<noteq> Some d \<or> (\<forall>t. env_fault E t (SyncDir d) \<noteq> None))"
    using intent_item_parents dirs(1,2) by fastforce
  note keep = puts_keep_entry [OF this]
  have "Absent \<in> set (vers (w_fs (sr_world s)) intent_dir)"
    using cur_in_vers [of "w_fs (sr_world s)" intent_dir] assms(5) by simp
  then have "Absent \<in> set (vers (w_fs (sr_world s')) intent_dir)" by (rule keepsD [OF keep _ puts])
  then have "after_crash (w_fs (sr_world s')) (cut_without [intent_dir] (w_fs (sr_world s')))"
    using dirs(3,4) by (intro cut_without_crash) simp
  moreover have "content (cut_without [intent_dir] (w_fs (sr_world s'))) p = None" if "intent_dir \<in> set (path_prefixes p)" for p
    using that by (simp add: cut_without_content)
  ultimately show ?thesis using run dirs(5) by (auto simp: list_all_iff)
qed

theorem first_intent_lost_witness:
  "\<exists>s' u. build_router sample_api calm (\<lambda>_. None) (ops_state calm) ops_put fresh_server =
      ((200, Text (''node intent applied'' @ [newline])), s') \<and>
     after_crash (w_fs (sr_world s')) u \<and> content u (path_of NODE_INTENT_PATH) = None"
proof -
  have w: "w_fs (sr_world fresh_server) = empty_fs" by (simp add: fresh_server_def world_of_def)
  have clear: "config_clear (w_fs (sr_world fresh_server))"
    unfolding w by (intro flat_config_clear flat_empty wf_empty_fs)
  have none: "cur (w_fs (sr_world fresh_server)) intent_dir = Absent" by (simp add: w cur_def vers_def empty_fs_def)
  obtain s' raw where "build_router sample_api calm (\<lambda>_. None) (ops_state calm) ops_put fresh_server =
      ((200, Text (''node intent applied'' @ [newline])), s')"
    by (rule router_applies [OF clear calm_writable sample_offered ops_workload])
  with first_intent_lost [OF ops_workload clear calm_writable sample_offered none, of "\<lambda>_. None"]
  show ?thesis by auto
qed

end
