(* ===== verification/Source_Tests.thy ===== *)
theory Source_Tests
  imports Noded_Serve
begin

text \<open>
  The unit tests of the repository (the modules \<open>tests\<close> of noded/src/main.rs, est.rs and
  workload/k8s.rs) on the model. Each test is a definition with the name of the test function, a
  bool that holds where every assertion does. What a test takes from a fixture file, a parser or the
  mock server is an argument, and the theorems say for which of them the tests pass.
\<close>

section \<open>Strings in assertions\<close>

fun str_contains :: "string \<Rightarrow> string \<Rightarrow> bool" where
  "str_contains p [] \<longleftrightarrow> p = []"
| "str_contains p (c # s) \<longleftrightarrow> starts_with p (c # s) \<or> str_contains p s"

text \<open>\<open>str::replace\<close> with a non-empty pattern: leftmost matches, none overlapping.\<close>

function str_replace :: "string \<Rightarrow> string \<Rightarrow> string \<Rightarrow> string" where
  "str_replace pat new s =
     (case s of
        [] \<Rightarrow> []
      | c # s' \<Rightarrow>
          (case strip_prefix pat s of
             Some rest \<Rightarrow> if length rest < length s then new @ str_replace pat new rest else s
           | None \<Rightarrow> c # str_replace pat new s'))"
  by pat_completeness auto
termination by (relation "measure (\<lambda>(pat, new, s). length s)") auto

text \<open>\<open>err.to_string()\<close>: the outermost context alone.\<close>

fun err_to_string :: "api_lib \<Rightarrow> err \<Rightarrow> string" where
  "err_to_string A (Ctx c e) = c"
| "err_to_string A e = show_err A e"

definition expect_ok :: "'e + 'a \<Rightarrow> ('a \<Rightarrow> bool) \<Rightarrow> bool" where
  "expect_ok r P = (case r of Inl _ \<Rightarrow> False | Inr x \<Rightarrow> P x)"

definition expect_err :: "'e + 'a \<Rightarrow> ('e \<Rightarrow> bool) \<Rightarrow> bool" where
  "expect_err r P = (case r of Inl e \<Rightarrow> P e | Inr _ \<Rightarrow> False)"

lemma expect_simps [simp]:
  "expect_ok (Inr x) P = P x" "expect_ok (Inl e) P = False"
  "expect_err (Inl e) Q = Q e" "expect_err (Inr x) Q = False"
  by (simp_all add: expect_ok_def expect_err_def)

section \<open>noded/src/main.rs: the configuration\<close>

definition SAMPLE_YAML :: string where
  \<open>SAMPLE_YAML =
     [newline] @ ''listenAddr: "[::1]:9443"'' @ [newline] @
     ''nodeId: qemu-node-001'' @ [newline] @
     ''certFile: /etc/nodeos/pki/server.crt'' @ [newline] @
     ''keyFile: /etc/nodeos/pki/server.key'' @ [newline] @
     ''clientCa: /etc/nodeos/pki/client-ca.crt'' @ [newline] @
     ''enrollment:'' @ [newline] @
     ''  est:'' @ [newline] @
     ''    serverUrl: https://[2001:db8::10]'' @ [newline] @
     ''    bearerToken: bootstrap-token'' @ [newline] @
     ''    caCertFile: /etc/nodeos/pki/est-ca.crt'' @ [newline]\<close>

definition parses_minimal_yaml_without_label :: "config_parser \<Rightarrow> config_parser \<Rightarrow> bool" where
  "parses_minimal_yaml_without_label yaml toml =
     expect_ok (parse_config yaml toml SAMPLE_YAML True) (\<lambda>config.
       nc_node_id config = ''qemu-node-001'' \<and> is_ipv6 (nc_listen_addr config) \<and>
       ec_server_url (nc_est config) = ''https://[2001:db8::10]'' \<and> ec_label (nc_est config) = None)"

definition parses_optional_label :: "config_parser \<Rightarrow> config_parser \<Rightarrow> bool" where
  "parses_optional_label yaml toml =
     (let text = SAMPLE_YAML @ ''    label: issuing-ca'' @ [newline] in
      expect_ok (parse_config yaml toml text True) (\<lambda>config. ec_label (nc_est config) = Some ''issuing-ca''))"

definition profile_defaults_to_k8s_and_parses_explicit_kvm ::
  "(string \<Rightarrow> err + unit) \<Rightarrow> env \<Rightarrow> config_parser \<Rightarrow> config_parser \<Rightarrow> bool" where
  "profile_defaults_to_k8s_and_parses_explicit_kvm pem E yaml toml \<longleftrightarrow>
     expect_ok (parse_config yaml toml SAMPLE_YAML True) (\<lambda>config.
       nc_profile config = K8s \<and> wl_name (new_profile pem E (nc_profile config)) = ''k8s'') \<and>
     expect_ok (parse_config yaml toml (''profile: kvm'' @ [newline] @ SAMPLE_YAML) True) (\<lambda>kvm.
       nc_profile kvm = Kvm \<and> wl_name (new_profile pem E (nc_profile kvm)) = ''kvm'')"

definition rejects_ipv4_listen_addr :: "api_lib \<Rightarrow> config_parser \<Rightarrow> config_parser \<Rightarrow> bool" where
  "rejects_ipv4_listen_addr A yaml toml =
     expect_err (parse_config yaml toml (str_replace ''[::1]:9443'' ''127.0.0.1:9443'' SAMPLE_YAML) True)
       (\<lambda>err. str_contains ''IPv6'' (err_to_string A err))"

definition rejects_non_https_est_url :: "api_lib \<Rightarrow> config_parser \<Rightarrow> config_parser \<Rightarrow> bool" where
  "rejects_non_https_est_url A yaml toml =
     expect_err (parse_config yaml toml
         (str_replace ''https://[2001:db8::10]'' ''http://[2001:db8::10]'' SAMPLE_YAML) True)
       (\<lambda>err. str_contains ''https'' (err_to_string A err))"

text \<open>The table in the sample text, and a parser that reads the texts of the tests.\<close>

definition sample_table :: raw_noded where
  "sample_table =
     \<lparr>rn_listen_addr = Some \<lparr>sa_ip = V6 [0, 0, 0, 0, 0, 0, 0, 1], sa_port = 9443\<rparr>, rn_node_id = ''qemu-node-001'',
      rn_profile = None, rn_cert_file = ''/etc/nodeos/pki/server.crt'', rn_key_file = ''/etc/nodeos/pki/server.key'',
      rn_client_ca = ''/etc/nodeos/pki/client-ca.crt'', rn_server_url = ''https://[2001:db8::10]'',
      rn_bearer_token = ''bootstrap-token'', rn_ca_cert_file = ''/etc/nodeos/pki/est-ca.crt'', rn_label = None,
      rn_renew_check_interval_secs = None, rn_roles = None, rn_tpm = None\<rparr>"

definition reads_samples :: "config_parser \<Rightarrow> bool" where
  "reads_samples yaml \<longleftrightarrow>
     yaml SAMPLE_YAML = Inr sample_table \<and>
     yaml (SAMPLE_YAML @ ''    label: issuing-ca'' @ [newline]) = Inr (sample_table\<lparr>rn_label := Some ''issuing-ca''\<rparr>) \<and>
     yaml (''profile: kvm'' @ [newline] @ SAMPLE_YAML) = Inr (sample_table\<lparr>rn_profile := Some Kvm\<rparr>) \<and>
     yaml (str_replace ''[::1]:9443'' ''127.0.0.1:9443'' SAMPLE_YAML) =
       Inr (sample_table\<lparr>rn_listen_addr := Some \<lparr>sa_ip = V4 [127, 0, 0, 1], sa_port = 9443\<rparr>\<rparr>) \<and>
     yaml (str_replace ''https://[2001:db8::10]'' ''http://[2001:db8::10]'' SAMPLE_YAML) =
       Inr (sample_table\<lparr>rn_server_url := ''http://[2001:db8::10]''\<rparr>)"

definition checked :: "raw_noded \<Rightarrow> err + noded_config" where
  "checked raw = parse_config (\<lambda>_. Inr raw) (\<lambda>_. Inr raw) [] True"

lemma parse_checked: "yaml data = Inr raw \<Longrightarrow> parse_config yaml toml data True = checked raw"
  by (simp add: checked_def parse_config_def)

lemma checked_samples:
  "checked sample_table = Inr (noded_of_raw sample_table)"
  "checked (sample_table\<lparr>rn_label := Some ''issuing-ca''\<rparr>) = Inr (noded_of_raw (sample_table\<lparr>rn_label := Some ''issuing-ca''\<rparr>))"
  "checked (sample_table\<lparr>rn_profile := Some Kvm\<rparr>) = Inr (noded_of_raw (sample_table\<lparr>rn_profile := Some Kvm\<rparr>))"
  "checked (sample_table\<lparr>rn_listen_addr := Some \<lparr>sa_ip = V4 [127, 0, 0, 1], sa_port = 9443\<rparr>\<rparr>) =
     Inl (Msg ''listenAddr must be IPv6-only; use an IPv6 literal such as [::1]:9443'')"
  "checked (sample_table\<lparr>rn_server_url := ''http://[2001:db8::10]''\<rparr>) = Inl (Msg ''enrollment.est.serverUrl must use https'')"
  by code_simp+

lemma config_tests:
  assumes "reads_samples yaml"
  shows "parses_minimal_yaml_without_label yaml toml" and "parses_optional_label yaml toml"
    and "profile_defaults_to_k8s_and_parses_explicit_kvm pem E yaml toml"
    and "rejects_ipv4_listen_addr A yaml toml" and "rejects_non_https_est_url A yaml toml"
proof -
  note texts = assms [unfolded reads_samples_def]
  note parsed = texts [THEN conjunct1, THEN parse_checked [where yaml = yaml and toml = toml]] texts [THEN conjunct2, THEN conjunct1, THEN parse_checked [where yaml = yaml and toml = toml]]
    texts [THEN conjunct2, THEN conjunct2, THEN conjunct1, THEN parse_checked [where yaml = yaml and toml = toml]]
    texts [THEN conjunct2, THEN conjunct2, THEN conjunct2, THEN conjunct1, THEN parse_checked [where yaml = yaml and toml = toml]]
    texts [THEN conjunct2, THEN conjunct2, THEN conjunct2, THEN conjunct2, THEN parse_checked [where yaml = yaml and toml = toml]]
  have ok: "nc_node_id (noded_of_raw sample_table) = ''qemu-node-001''" "is_ipv6 (nc_listen_addr (noded_of_raw sample_table))"
    "ec_server_url (nc_est (noded_of_raw sample_table)) = ''https://[2001:db8::10]''"
    "ec_label (nc_est (noded_of_raw sample_table)) = None" "nc_profile (noded_of_raw sample_table) = K8s"
    "ec_label (nc_est (noded_of_raw (sample_table\<lparr>rn_label := Some ''issuing-ca''\<rparr>))) = Some ''issuing-ca''"
    "nc_profile (noded_of_raw (sample_table\<lparr>rn_profile := Some Kvm\<rparr>)) = Kvm"
    by code_simp+
  have hit: "str_contains ''IPv6'' ''listenAddr must be IPv6-only; use an IPv6 literal such as [::1]:9443''"
    "str_contains ''https'' ''enrollment.est.serverUrl must use https''"
    by code_simp+
  show "parses_minimal_yaml_without_label yaml toml"
    unfolding parses_minimal_yaml_without_label_def parsed checked_samples using ok by simp
  show "parses_optional_label yaml toml"
    unfolding parses_optional_label_def Let_def parsed checked_samples using ok by simp
  show "profile_defaults_to_k8s_and_parses_explicit_kvm pem E yaml toml"
    unfolding profile_defaults_to_k8s_and_parses_explicit_kvm_def parsed checked_samples
    using ok by (simp add: new_profile_def)
  show "rejects_ipv4_listen_addr A yaml toml"
    unfolding rejects_ipv4_listen_addr_def parsed checked_samples using hit by simp
  show "rejects_non_https_est_url A yaml toml"
    unfolding rejects_non_https_est_url_def parsed checked_samples using hit by simp
qed

section \<open>noded/src/main.rs: roles and the router\<close>

definition role_hierarchy_is_inclusive :: bool where
  "role_hierarchy_is_inclusive \<longleftrightarrow>
     satisfies Breakglass Viewer \<and> satisfies Maintainer Operator \<and> satisfies Operator Operator \<and> \<not> satisfies Viewer Operator"

definition role_for_picks_highest_binding :: bool where
  "role_for_picks_highest_binding \<longleftrightarrow>
     (let cfg = [\<lparr>rb_role = Viewer, rb_subjects = [''a'']\<rparr>, \<lparr>rb_role = Maintainer, rb_subjects = [''a'']\<rparr>]
      in role_for cfg ''a'' = Some Maintainer \<and> role_for cfg ''unbound'' = None)"

definition required_role_per_route :: bool where
  "required_role_per_route \<longleftrightarrow>
     required_role GET ''/v1/healthz'' = None \<and> required_role GET ''/v1/status'' = Some Viewer \<and>
     required_role PUT ''/v1/config'' = Some Operator \<and> required_role GET ''/v1/unknown'' = Some Breakglass"

text \<open>The certificate of the fixture file, as the parser reads its subject.\<close>

definition extracts_common_name_from_cert :: "subject \<Rightarrow> bool" where
  "extracts_common_name_from_cert cert \<longleftrightarrow> subject_common_name cert \<noteq> None"

definition status_for ::
  "api_lib \<Rightarrow> env \<Rightarrow> (event list \<Rightarrow> nat option) \<Rightarrow> app_state \<Rightarrow> server \<Rightarrow> http_method \<Rightarrow> string \<Rightarrow> string option \<Rightarrow> string \<Rightarrow> nat" where
  "status_for A E clock state s method uri cn body =
     fst (fst (build_router A E clock state
       \<lparr>rq_method = method, rq_path = uri, rq_identity = Some \<lparr>ci_common_name = cn\<rparr>, rq_body = body\<rparr> s))"

definition bad_intent :: string where
  \<open>bad_intent = ''{"apiServer":"http://nope:6443","clusterCa":"x","bootstrapToken":"x"}''\<close>

definition test_authorization :: authorization_config where
  "test_authorization =
     [\<lparr>rb_role = Viewer, rb_subjects = [''viewer-id'']\<rparr>, \<lparr>rb_role = Operator, rb_subjects = [''operator-id'']\<rparr>]"

text \<open>\<open>s n\<close> is the process at the request number \<open>n\<close> of the test, whatever state it is in.\<close>

definition authorization_enforced_end_to_end ::
  "api_lib \<Rightarrow> env \<Rightarrow> (event list \<Rightarrow> nat option) \<Rightarrow> config_parser \<Rightarrow> config_parser \<Rightarrow> (nat \<Rightarrow> server) \<Rightarrow> bool" where
  "authorization_enforced_end_to_end A E clock yaml toml s =
     expect_ok (parse_config yaml toml SAMPLE_YAML True) (\<lambda>parsed.
       let config = parsed\<lparr>nc_authorization := test_authorization\<rparr>;
           state = \<lparr>as_config = config, as_workload = new_profile (al_from_pem A) E (nc_profile config)\<rparr>
       in status_for A E clock state (s 0) GET ''/v1/healthz'' None [] = 200 \<and>
          status_for A E clock state (s 1) GET ''/v1/status'' (Some ''viewer-id'') [] = 200 \<and>
          status_for A E clock state (s 2) GET ''/v1/status'' (Some ''nobody'') [] = 403 \<and>
          status_for A E clock state (s 3) PUT ''/v1/config'' (Some ''viewer-id'') [] = 403 \<and>
          status_for A E clock state (s 4) PUT ''/v1/config'' (Some ''operator-id'') bad_intent = 400)"

lemma role_tests: "role_hierarchy_is_inclusive" "role_for_picks_highest_binding" "required_role_per_route"
  by code_simp+

lemma common_name_test:
  "(\<exists>v. (''2.5.4.3'', v) \<in> set cert \<and> valid_utf8 v) \<Longrightarrow> extracts_common_name_from_cert cert"
  unfolding extracts_common_name_from_cert_def
  by (induction cert rule: subject_common_name.induct) auto

text \<open>
  What the extractor makes of the invalid intent: its three fields with the rest absent. The
  certificate parser is never asked, because the URL is rejected first.
\<close>

definition reads_bad_intent :: "api_lib \<Rightarrow> bool" where
  "reads_bad_intent A \<longleftrightarrow>
     (\<forall>rq. rq_body rq = bad_intent \<longrightarrow>
        al_extract A rq = Inr \<lparr>ri_api_server = ''http://nope:6443'', ri_cluster_ca = ''x'', ri_bootstrap_token = ''x'',
          ri_cluster_dns = None, ri_cluster_domain = None, ri_node_labels = None, ri_node_taints = None\<rparr>)"

definition infallible :: "'a cmd \<Rightarrow> bool" where
  "infallible m \<longleftrightarrow> (\<forall>w. \<not> isl (fst (m w)))"

lemma infallible_ret: "infallible (io_ret x)"
  by (simp add: infallible_def io_ret_def)

lemma infallible_bind: "infallible m \<Longrightarrow> (\<And>x. infallible (f x)) \<Longrightarrow> infallible (io_bind m f)"
  by (auto simp: infallible_def io_bind_def split: prod.split sum.split) (metis fst_conv sum.disc(1))

lemma infallible_exists: "infallible (path_exists E p)"
  by (simp add: infallible_def path_exists_def Let_def)

lemma infallible_any: "infallible (any_exists E ps)"
proof (induction ps)
  case Nil
  show ?case unfolding any_exists.simps by (rule infallible_ret)
next
  case (Cons p ps)
  have "infallible (if b then io_ret True else any_exists E ps)" for b using Cons by (cases b) (simp_all only: if_True if_False infallible_ret)
  then show ?case unfolding any_exists.simps by (intro infallible_bind infallible_exists)
qed

lemma status_answers:
  assumes "as_workload st = new_profile pem E p"
  shows "fst (fst (status E st rq s)) = 200"
proof -
  have "infallible (wl_health (new_profile pem E p))"
    by (cases p) (auto simp: new_profile_def k8s_health_def kvm_health_def from_binary_def intro!: infallible_bind infallible_exists infallible_ret)
  then have "infallible (status_cmd E st)"
    unfolding status_cmd_def assms by (intro infallible_bind infallible_any infallible_ret)
  then show ?thesis
    by (auto simp: status_def on_world_def infallible_def split: prod.split sum.split) (metis fst_conv sum.disc(1))
qed

lemma authorization_test:
  assumes "reads_samples yaml" and "reads_bad_intent A"
  shows "authorization_enforced_end_to_end A E clock yaml toml s"
proof -
  have p: "parse_config yaml toml SAMPLE_YAML True = Inr (noded_of_raw sample_table)"
    using assms(1) parse_checked [of yaml SAMPLE_YAML] checked_samples(1) by (simp add: reads_samples_def)
  have az: "role_for test_authorization ''viewer-id'' = Some Viewer" "role_for test_authorization ''operator-id'' = Some Operator"
    "role_for test_authorization ''nobody'' = None"
    by code_simp+
  have bad: "isl (validate from_pem (intent_of_raw \<lparr>ri_api_server = ''http://nope:6443'', ri_cluster_ca = ''x'', ri_bootstrap_token = ''x'',
          ri_cluster_dns = None, ri_cluster_domain = None, ri_node_labels = None, ri_node_taints = None\<rparr>))"
    for from_pem :: "string \<Rightarrow> err + unit"
    by code_simp
  show ?thesis
    using assms(2) bad [of "al_from_pem A"]
    by (auto simp: authorization_enforced_end_to_end_def p status_for_def build_router_def authorize_def routes_def
        decide_def granted_role_def required_role_def az satisfies_def health_def status_answers put_config_def
        reads_bad_intent_def apply_intent_def Let_def split: sum.split)
qed

section \<open>noded/src/workload/k8s.rs\<close>

definition k8s_sample_intent :: "string \<Rightarrow> node_intent" where
  "k8s_sample_intent node_pem =
     \<lparr>ni_api_server = ''https://[2001:db8::1]:6443'', ni_cluster_ca = node_pem,
      ni_bootstrap_token = ''abcdef.0123456789abcdef'', ni_cluster_dns = [''fd00::a''],
      ni_cluster_domain = ''cluster.local'', ni_node_labels = [], ni_node_taints = []\<rparr>"

definition not_der :: string where
  "not_der = ''-----BEGIN CERTIFICATE-----'' @ [newline] @ ''not-der'' @ [newline] @ ''-----END CERTIFICATE-----'' @ [newline]"

definition intent_validates_ipv6_https_and_token :: "(string \<Rightarrow> err + unit) \<Rightarrow> string \<Rightarrow> bool" where
  "intent_validates_ipv6_https_and_token from_pem node_pem \<longleftrightarrow>
     (let i = k8s_sample_intent node_pem in
      \<not> isl (validate from_pem i) \<and>
      isl (validate from_pem (i\<lparr>ni_api_server := ''https://apiserver:6443''\<rparr>)) \<and>
      isl (validate from_pem (i\<lparr>ni_api_server := ''http://[2001:db8::1]:6443''\<rparr>)) \<and>
      isl (validate from_pem (i\<lparr>ni_bootstrap_token := ''ABCDEF.0123456789abcdef''\<rparr>)) \<and>
      isl (validate from_pem (i\<lparr>ni_bootstrap_token := ''abc.0123456789abcdef''\<rparr>)) \<and>
      isl (validate from_pem (i\<lparr>ni_cluster_ca := not_der\<rparr>)) \<and>
      isl (validate from_pem (i\<lparr>ni_cluster_dns := []\<rparr>)) \<and>
      isl (validate from_pem (i\<lparr>ni_cluster_dns := [''not-an-ip'']\<rparr>)))"

definition bootstrap_kubeconfig_has_server_token_and_ca :: "string \<Rightarrow> bool" where
  "bootstrap_kubeconfig_has_server_token_and_ca node_pem \<longleftrightarrow>
     (let cfg = render_bootstrap_kubeconfig (k8s_sample_intent node_pem) in
      str_contains ''server: https://[2001:db8::1]:6443'' cfg \<and>
      str_contains ''token: abcdef.0123456789abcdef'' cfg \<and>
      str_contains (''certificate-authority: '' @ CLUSTER_CA_PATH) cfg \<and>
      str_contains ''user: kubelet-bootstrap'' cfg)"

definition kubelet_config_is_cgroupfs_with_dns_and_runtime :: "string \<Rightarrow> bool" where
  "kubelet_config_is_cgroupfs_with_dns_and_runtime node_pem \<longleftrightarrow>
     (let cfg = render_kubelet_config (k8s_sample_intent node_pem) in
      str_contains ''cgroupDriver: cgroupfs'' cfg \<and>
      str_contains ''containerRuntimeEndpoint: unix:///run/containerd/containerd.sock'' cfg \<and>
      str_contains ''  - fd00::a'' cfg \<and>
      str_contains ''clusterDomain: cluster.local'' cfg \<and>
      str_contains ''enabled: false'' cfg)"

lemma render_tests:
  "bootstrap_kubeconfig_has_server_token_and_ca node_pem" "kubelet_config_is_cgroupfs_with_dns_and_runtime node_pem"
  by code_simp+

lemma intent_test:
  assumes "from_pem node_pem = Inr ()" and "isl (from_pem not_der)"
  shows "intent_validates_ipv6_https_and_token from_pem node_pem"
proof -
  have "isl (validate_api_server ''https://apiserver:6443'')" "isl (validate_api_server ''http://[2001:db8::1]:6443'')"
    "\<not> valid_bootstrap_token ''ABCDEF.0123456789abcdef''" "\<not> valid_bootstrap_token ''abc.0123456789abcdef''"
    "isl (check_dns [''not-an-ip''])"
    and "validate_api_server ''https://[2001:db8::1]:6443'' = Inr ()" "valid_bootstrap_token ''abcdef.0123456789abcdef''"
    "check_dns [''fd00::a''] = Inr ()" "list_all domain_char ''cluster.local''"
    by code_simp+
  then show ?thesis
    using assms by (auto simp: intent_validates_ipv6_https_and_token_def k8s_sample_intent_def validate_def Let_def
      split: sum.split)
qed

section \<open>noded/src/est.rs: the renewal window\<close>

definition needs_renewal_past_two_thirds_of_lifetime :: bool where
  "needs_renewal_past_two_thirds_of_lifetime \<longleftrightarrow>
     (let secs = (\<lambda>n. n * 1000000000); nb = secs 1000; na = secs 1900 in
      \<not> needs_renewal nb na (secs 1000) \<and> \<not> needs_renewal nb na (secs 1600) \<and>
      needs_renewal nb na (secs 1700) \<and> needs_renewal nb na (secs 2000))"

lemma renewal_window_test: "needs_renewal_past_two_thirds_of_lifetime"
  by (simp add: needs_renewal_past_two_thirds_of_lifetime_def needs_renewal_def)

end
