(* ===== verification/Source_Tests_Files.thy ===== *)
theory Source_Tests_Files
  imports Source_Tests
begin

text \<open>
  The unit tests that work on files in a temporary directory: swapping the served certificate
  (noded/src/main.rs) and the two enrollments against a mock server (est.rs), with the test
  configuration of est.rs. The texts of the fixture files, the directory and the answers of the mock
  server are arguments; the machine is one without faults.
\<close>

section \<open>What the tests do to files\<close>

text \<open>\<open>std::fs::write\<close>, in place; \<open>metadata().permissions().mode()\<close>.\<close>

definition std_write :: "env \<Rightarrow> path \<Rightarrow> string \<Rightarrow> unit cmd" where
  "std_write E p d = io_bind (open_trunc E p 0x1A4) (\<lambda>file. write_all E file d)"

definition mode_of :: "path \<Rightarrow> nat cmd" where
  "mode_of p = (\<lambda>w. case file_mode (w_fs w) p of None \<Rightarrow> (Inl (Io NotFound), w) | Some m \<Rightarrow> (Inr m, w))"

text \<open>A test fails at an \<open>unwrap\<close> or \<open>expect\<close>, or at an assertion.\<close>

definition passes :: "bool cmd \<Rightarrow> world \<Rightarrow> bool" where
  "passes t w = expect_ok (fst (t w)) (\<lambda>b. b)"

text \<open>No two paths share an inode, and the directory is there with plain files only.\<close>

definition solo :: "fsys \<Rightarrow> bool" where
  "solo s \<longleftrightarrow> refs_used s \<and> (\<forall>p. unshared s p)"

definition lab :: "path \<Rightarrow> fsys \<Rightarrow> bool" where
  "lab dir s \<longleftrightarrow> solo s \<and> is_dir s dir \<and> flat dir s"

lemma solo_wf: "solo s \<Longrightarrow> wf_fs s"
  by (simp add: solo_def wf_fs_def)

lemma lab_open:
  assumes "lab dir s"
  obtains i t where "fs_open_trunc (path_join dir n) m s = Inr (i, t)" and "lab dir t"
    and "cur t (path_join dir n) = FileAt i" and "i_data (fs_inodes t i) = []"
    and "\<And>q. q \<noteq> path_join dir n \<Longrightarrow> cur t q = cur s q \<and> agree s t q"
proof -
  let ?p = "path_join dir n"
  have par: "path_parent ?p = Some dir" by (simp add: path_join_def path_parent_def)
  have out: "?p \<notin> set (path_prefixes dir)" by (rule child_not_prefix [OF par])
  have ne: "dir \<noteq> ?p" by (simp add: path_join_def)
  have used: "\<And>j r. FileAt j \<in> set (vers s r) \<Longrightarrow> j < fs_next s" and sep: "\<And>r. unshared s r"
    and dir: "is_dir s dir" and fl: "flat dir s"
    using assms by (auto simp: lab_def solo_def refs_used_def)
  have "case cur s ?p of Absent \<Rightarrow> True | FileAt _ \<Rightarrow> True | _ \<Rightarrow> False" using fl par unfolding flat_def by blast
  then have "cur s ?p = Absent \<or> (\<exists>j. cur s ?p = FileAt j)" by (cases "cur s ?p") simp_all
  then show thesis
  proof
    assume new: "cur s ?p = Absent"
    let ?n = "fs_next s"
    define t where "t = set_ent ?p (FileAt ?n)
        (s\<lparr>fs_inodes := (fs_inodes s)(?n := \<lparr>i_data = [], i_mode = m, i_synced = False\<rparr>), fs_next := Suc ?n\<rparr>)"
    have fresh: "FileAt ?n \<notin> set (vers s r)" for r using used by blast
    have v: "vers t r = (if r = ?p then FileAt ?n # vers s ?p else vers s r)" for r by (simp add: t_def fs_simps)
    have c: "cur t r = (if r = ?p then FileAt ?n else cur s r)" for r by (simp add: t_def fs_simps)
    have "refs_used t" using used by (auto simp: refs_used_def v) (auto simp: t_def fs_simps less_Suc_eq)
    moreover have "unshared t r" for r
      using sep [of r] fresh cur_in_vers [of s r] by (auto simp: unshared_def v c split: if_splits)
    moreover have "is_dir t dir" using dir ne by (simp add: is_dir_def c)
    moreover have "flat dir t" unfolding t_def using fl by (intro flat_set_ent out) auto
    ultimately have "lab dir t" by (simp add: lab_def solo_def)
    moreover have "fs_open_trunc ?p m s = Inr (?n, t)" by (simp add: fs_open_trunc_def par dir new t_def)
    moreover have "i_data (fs_inodes t ?n) = []" by (simp add: t_def fs_simps)
    moreover have "agree s t q" if "q \<noteq> ?p" for q
      using fresh that by (auto simp: agree_def v c) (auto simp: t_def fs_simps)
    ultimately show thesis using that c by simp
  next
    assume "\<exists>j. cur s ?p = FileAt j"
    then obtain j where old: "cur s ?p = FileAt j" by blast
    define t where "t = upd_inode j (\<lambda>n. n\<lparr>i_data := [], i_synced := False\<rparr>) s"
    have "lab dir t"
      using assms by (simp add: lab_def solo_def t_def refs_used_def unshared_def is_dir_def fs_simps)
    moreover have "fs_open_trunc ?p m s = Inr (j, t)" by (simp add: fs_open_trunc_def par dir old t_def)
    moreover have "agree s t q" if "q \<noteq> ?p" for q
      using sep [of ?p] old that by (auto simp: t_def unshared_def intro!: agree_upd_inode)
    ultimately show thesis using that old by (simp add: t_def fs_simps)
  qed
qed

lemma std_write_lab:
  assumes "lab dir (w_fs w)"
  obtains w' where "std_write calm (path_join dir n) x w = (Inr (), w')" and "lab dir (w_fs w')"
    and "content (w_fs w') (path_join dir n) = Some x"
    and "\<And>q. q \<noteq> path_join dir n \<Longrightarrow> cur (w_fs w') q = cur (w_fs w) q \<and> content (w_fs w') q = content (w_fs w) q"
proof -
  let ?p = "path_join dir n"
  obtain i t where t: "fs_open_trunc ?p 0x1A4 (w_fs w) = Inr (i, t)" "lab dir t" "cur t ?p = FileAt i"
    "i_data (fs_inodes t i) = []" "\<And>q. q \<noteq> ?p \<Longrightarrow> cur t q = cur (w_fs w) q \<and> agree (w_fs w) t q"
    by (rule lab_open [OF assms, where n = n and m = "0x1A4"]) simp
  obtain w' where w': "std_write calm ?p x w = (Inr (), w')" "w_fs w' = fs_write i x t"
    by (simp add: std_write_def open_trunc_def prim_def t(1) write_all_def io_bind_def)
  have "unshared t ?p" using t(2) by (simp add: lab_def solo_def)
  then have "agree t (fs_write i x t) q" if "q \<noteq> ?p" for q
    using that t(3) by (auto simp: fs_write_def unshared_def intro!: agree_upd_inode)
  then have "content (w_fs w') q = content (w_fs w) q" if "q \<noteq> ?p" for q
    using that t(5) [OF that] agree_content w'(2) by metis
  moreover have "lab dir (w_fs w')"
    using t(2) by (simp add: w'(2) fs_write_def lab_def solo_def refs_used_def unshared_def is_dir_def fs_simps)
  moreover have "content (w_fs w') ?p = Some x" by (simp add: w'(2) fs_write_def content_def fs_simps t(3,4))
  ultimately show thesis using that w' t(5) by (simp add: fs_write_def fs_simps)
qed

section \<open>noded/src/main.rs: the resolver\<close>

text \<open>\<open>leaf_der\<close> of the resolver; a missing certificate is a panic.\<close>

definition leaf_der :: "reloadable_cert \<Rightarrow> der option" where
  "leaf_der rc = (case ck_certs (rc_current rc) of [] \<Rightarrow> None | c # cs \<Rightarrow> Some c)"

definition reloadable_cert_hot_swaps_leaf ::
  "noded_lib \<Rightarrow> env \<Rightarrow> path \<Rightarrow> string \<Rightarrow> string \<Rightarrow> string \<Rightarrow> string \<Rightarrow> bool cmd" where
  "reloadable_cert_hot_swaps_leaf B E dir node_pem node_key server_pem server_key =
     (let cert = path_join dir ''server.crt''; key = path_join dir ''server.key'' in
      io_then (install_crypto_provider B)
      (io_then (std_write E cert node_pem)
      (io_then (std_write E key node_key)
      (io_bind (from_files (nl_est B) (nl_tls B) True E cert key) (\<lambda>resolver.
      io_then (std_write E cert server_pem)
      (io_then (std_write E key server_key)
      (io_bind (reload (nl_est B) (nl_tls B) True E resolver) (\<lambda>(reloaded, resolver').
        io_ret (\<not> isl reloaded \<and> leaf_der resolver \<noteq> None \<and> leaf_der resolver' \<noteq> None \<and>
          leaf_der resolver \<noteq> leaf_der resolver')))))))))"

lemma read_calm:
  "content (w_fs w) p = Some d \<Longrightarrow> \<exists>w'. read_file calm p w = (Inr d, w') \<and> w_fs w' = w_fs w"
  by (simp add: calm_read)

lemma build_calm:
  assumes "content (w_fs w) cert = Some c" and "content (w_fs w) key = Some k"
    and "el_pem_chain L c = Inr chain" and "tl_private_key T k = Inr (Some der)" and "tl_load_key T der = Inr sk"
  obtains w' where "build_certified_key L T True calm cert (KeyFile key) w = (Inr \<lparr>ck_certs = chain, ck_key = sk\<rparr>, w')"
    and "w_fs w' = w_fs w"
proof -
  obtain w1 where w1: "read_file calm cert w = (Inr c, w1)" "w_fs w1 = w_fs w" using read_calm [OF assms(1)] by blast
  obtain w2 where w2: "read_file calm key w1 = (Inr k, w2)" "w_fs w2 = w_fs w1" using read_calm [of w1 key k] assms(2) w1(2) by auto
  show thesis
    by (rule that [of w2])
      (simp_all add: build_certified_key_def load_certs_def load_signing_key_def load_key_def io_bind_def io_ctx_def io_lift_def
        io_ret_def w1 w2 assms(3-5))
qed

lemma hot_swap_test:
  assumes "lab dir (w_fs w)" and "nl_fips B \<Longrightarrow> nl_install B = Inr ()"
    and "el_pem_chain (nl_est B) node_pem = Inr (c # cs)" and "el_pem_chain (nl_est B) server_pem = Inr (c' # cs')" and "c \<noteq> c'"
    and "tl_private_key (nl_tls B) node_key = Inr (Some d)" and "tl_private_key (nl_tls B) server_key = Inr (Some d')"
    and "tl_load_key (nl_tls B) d = Inr k" and "tl_load_key (nl_tls B) d' = Inr k'"
  shows "passes (reloadable_cert_hot_swaps_leaf B calm dir node_pem node_key server_pem server_key) w"
proof -
  let ?c = "path_join dir ''server.crt''" and ?k = "path_join dir ''server.key''"
  have ne: "?c \<noteq> ?k" by (simp add: path_join_def)
  have p: "install_crypto_provider B w = (Inr (), w)"
    using assms(2) by (auto simp: install_crypto_provider_def io_ret_def split: sum.split)
  obtain w1 where w1: "std_write calm ?c node_pem w = (Inr (), w1)" "lab dir (w_fs w1)" "content (w_fs w1) ?c = Some node_pem"
    by (rule std_write_lab [OF assms(1)])
  obtain w2 where w2: "std_write calm ?k node_key w1 = (Inr (), w2)" "lab dir (w_fs w2)" "content (w_fs w2) ?k = Some node_key"
    "content (w_fs w2) ?c = Some node_pem"
    by (rule std_write_lab [OF w1(2), where n = "''server.key''" and x = node_key]) (use w1(3) ne in auto)
  obtain w3 where w3: "build_certified_key (nl_est B) (nl_tls B) True calm ?c (KeyFile ?k) w2 =
      (Inr \<lparr>ck_certs = c # cs, ck_key = k\<rparr>, w3)" "w_fs w3 = w_fs w2"
    by (rule build_calm [OF w2(4,3) assms(3,6,8)])
  obtain w4 where w4: "std_write calm ?c server_pem w3 = (Inr (), w4)" "lab dir (w_fs w4)" "content (w_fs w4) ?c = Some server_pem"
    by (rule std_write_lab [where dir = dir and w = w3 and n = "''server.crt''" and x = server_pem]) (use w2(2) w3(2) in auto)
  obtain w5 where w5: "std_write calm ?k server_key w4 = (Inr (), w5)" "content (w_fs w5) ?k = Some server_key"
    "content (w_fs w5) ?c = Some server_pem"
    by (rule std_write_lab [OF w4(2), where n = "''server.key''" and x = server_key]) (use w4(3) ne in auto)
  obtain w6 where w6: "build_certified_key (nl_est B) (nl_tls B) True calm ?c (KeyFile ?k) w5 =
      (Inr \<lparr>ck_certs = c' # cs', ck_key = k'\<rparr>, w6)"
    by (rule build_calm [OF w5(3,2) assms(4,7,9)])
  show ?thesis
    unfolding passes_def reloadable_cert_hot_swaps_leaf_def Let_def from_files_def reloadable_new_def reload_def
    by (simp add: io_then_def io_bind_def p w1(1) w2(1) w3(1) w4(1) w5(1) w6(1) io_attempt_run leaf_der_def assms(5))
qed

section \<open>noded/src/est.rs: the configuration and the EST CA\<close>

definition test_config :: "string \<Rightarrow> string option \<Rightarrow> noded_config" where
  "test_config server_url label =
     \<lparr>nc_listen_addr = \<lparr>sa_ip = V6 [0, 0, 0, 0, 0, 0, 0, 1], sa_port = 9443\<rparr>, nc_node_id = ''qemu-node-001'', nc_profile = K8s,
      nc_cert_file = path_of ''/etc/nodeos/pki/server.crt'', nc_key_file = path_of ''/etc/nodeos/pki/server.key'',
      nc_client_ca = path_of ''/etc/nodeos/pki/client-ca.crt'',
      nc_est = \<lparr>ec_server_url = server_url, ec_bearer_token = ''bootstrap-token'',
                ec_ca_cert_file = path_of ''/etc/nodeos/pki/est-ca.crt'', ec_label = label\<rparr>,
      nc_renew_check_interval_secs = 3600, nc_authorization = [], nc_tpm = None\<rparr>"

definition build_est_config_requires_readable_ca :: "api_lib \<Rightarrow> est_lib \<Rightarrow> env \<Rightarrow> bool cmd" where
  "build_est_config_requires_readable_ca A L E =
     (let config = test_config ''https://[2001:db8::10]'' None in
      io_bind (\<lambda>w. case build_est_config L E config (Bearer ''t'') w of (r, w') \<Rightarrow> (Inr r, w'))
        (\<lambda>r. io_ret (expect_err r (\<lambda>err. str_contains ''read EST CA'' (err_to_string A err)))))"

lemma str_contains_iff: "str_contains p s \<longleftrightarrow> (\<exists>a b. s = a @ p @ b)"
proof (induction s)
  case Nil
  then show ?case by auto
next
  case (Cons c s)
  have "(\<exists>a b. c # s = a @ p @ b) \<longleftrightarrow> (\<exists>b. c # s = p @ b) \<or> (\<exists>a b. s = a @ p @ b)"
    by (metis append_Cons append_Nil append_eq_Cons_conv)
  with Cons show ?case by (simp add: starts_with_iff)
qed

lemma readable_ca_test:
  assumes "content (w_fs w) (path_of ''/etc/nodeos/pki/est-ca.crt'') = None"
  shows "passes (build_est_config_requires_readable_ca A L E) w"
proof -
  let ?c = "test_config ''https://[2001:db8::10]'' None"
  have "\<exists>e w'. read_file E (ec_ca_cert_file (nc_est ?c)) w = (Inl e, w')"
    using assms by (auto simp: test_config_def read_file_def prim_def fs_read_def content_def split: entry.splits option.split)
  then obtain e w' where "read_file E (ec_ca_cert_file (nc_est ?c)) w = (Inl e, w')" by blast
  then have "build_est_config L E ?c (Bearer ''t'') w =
      (Inl (Ctx (''read EST CA '' @ show_comps (ec_ca_cert_file (nc_est ?c))) e), w')"
    by (simp add: build_est_config_def io_bind_def io_ctx_def Let_def)
  moreover have "str_contains ''read EST CA'' (''read EST CA '' @ x)" for x
    unfolding str_contains_iff by (rule exI [of _ "[]"], rule exI [of _ "'' '' @ x"]) simp
  ultimately show ?thesis
    unfolding passes_def build_est_config_requires_readable_ca_def Let_def by (simp add: io_bind_def)
qed

section \<open>noded/src/est.rs: enrolling against a mock server\<close>

text \<open>
  The mock server answers \<open>cacerts\<close> and \<open>simpleenroll\<close> where the client sends the token of the test,
  and \<open>simplereenroll\<close> always; the builders and codecs of the library accept what they are given.
\<close>

definition mock_server :: "est_lib \<Rightarrow> der list \<Rightarrow> der \<Rightarrow> string \<Rightarrow> (der \<Rightarrow> string) \<Rightarrow> bool" where
  "mock_server L cas leaf key pem \<longleftrightarrow>
     (\<forall>u. el_server_url L u = Inr ()) \<and> (\<forall>cfg. el_build L cfg = Inr ()) \<and> (\<forall>t cfg. el_connect L t cfg = Inr ()) \<and>
     (\<forall>t cfg. cc_auth cfg = Bearer ''test-token'' \<longrightarrow> el_ca_certs L t cfg = Inr cas) \<and> cas \<noteq> [] \<and>
     (\<forall>t cfg csr. cc_auth cfg = Bearer ''test-token'' \<longrightarrow> el_enroll L t cfg csr = Inr (Issued leaf)) \<and>
     (\<forall>t cfg csr. el_reenroll L t cfg csr = Inr (Issued leaf)) \<and>
     (\<forall>t i. \<exists>csr. el_csr L t i = Inr (csr, key)) \<and> (\<forall>der. el_to_pem L der = Inr (pem der)) \<and>
     str_contains ''PRIVATE KEY'' key \<and> (\<forall>der. str_contains ''BEGIN CERTIFICATE'' (pem der)) \<and>
     valid_utf8 key \<and> valid_utf8 (pem leaf) \<and> valid_utf8 (concat (map pem cas))"

definition in_dir :: "path \<Rightarrow> noded_config \<Rightarrow> noded_config" where
  "in_dir dir c =
     c\<lparr>nc_cert_file := path_join dir ''server.crt'', nc_key_file := path_join dir ''server.key'',
       nc_client_ca := path_join dir ''client-ca.crt'',
       nc_est := (nc_est c)\<lparr>ec_ca_cert_file := path_join dir ''est-ca.pem''\<rparr>\<rparr>"

definition enroll_against_mock_writes_pki :: "noded_lib \<Rightarrow> env \<Rightarrow> string \<Rightarrow> path \<Rightarrow> string \<Rightarrow> bool cmd" where
  "enroll_against_mock_writes_pki B E uri dir est_ca =
     (let config0 = in_dir dir (test_config uri None);
          config = config0\<lparr>nc_est := (nc_est config0)\<lparr>ec_bearer_token := ''test-token''\<rparr>\<rparr>
      in io_then (io_ignore (install_crypto_provider B))
         (io_then (std_write E (path_join dir ''est-ca.pem'') est_ca)
         (io_then (bootstrap_enroll (nl_est B) E config None)
         (io_bind (read_to_string E (nc_cert_file config)) (\<lambda>cert.
          io_bind (read_to_string E (nc_key_file config)) (\<lambda>key.
          io_bind (read_to_string E (nc_client_ca config)) (\<lambda>ca.
          io_bind (mode_of (nc_key_file config)) (\<lambda>mode.
            io_ret (str_contains ''BEGIN CERTIFICATE'' cert \<and> str_contains ''PRIVATE KEY'' key \<and>
              str_contains ''BEGIN CERTIFICATE'' ca \<and> mode mod 0x200 = 0x180)))))))))"

definition reenroll_against_mock_rotates_identity ::
  "noded_lib \<Rightarrow> env \<Rightarrow> string \<Rightarrow> path \<Rightarrow> string \<Rightarrow> string \<Rightarrow> string \<Rightarrow> bool cmd" where
  "reenroll_against_mock_rotates_identity B E uri dir est_ca node_pem original_key =
     (let config = in_dir dir (test_config uri None) in
      io_then (io_ignore (install_crypto_provider B))
      (io_then (std_write E (path_join dir ''est-ca.pem'') est_ca)
      (io_then (std_write E (path_join dir ''server.crt'') node_pem)
      (io_then (std_write E (path_join dir ''server.key'') original_key)
      (io_then (reenroll (nl_est B) E config None)
      (io_bind (read_to_string E (nc_cert_file config)) (\<lambda>cert.
       io_bind (read_to_string E (nc_key_file config)) (\<lambda>key.
         io_ret (str_contains ''BEGIN CERTIFICATE'' cert \<and> str_contains ''PRIVATE KEY'' key \<and> key \<noteq> original_key)))))))))"

text \<open>The paths of the tests are targets in the directory.\<close>

lemma lab_names:
  "is_target (path_join dir ''server.crt'')" "is_target (path_join dir ''server.key'')" "is_target (path_join dir ''client-ca.crt'')"
  "path_parent (path_join dir n) = Some dir"
  by (simp_all add: is_target_def is_tmp_def path_file_name_def path_join_def path_parent_def starts_with_def)

lemma in_dir_sel:
  "nc_cert_file (in_dir dir c) = path_join dir ''server.crt''" "nc_key_file (in_dir dir c) = path_join dir ''server.key''"
  "nc_client_ca (in_dir dir c) = path_join dir ''client-ca.crt''" "ec_ca_cert_file (nc_est (in_dir dir c)) = path_join dir ''est-ca.pem''"
  by (simp_all add: in_dir_def)

text \<open>What one write leaves of the mode of another file.\<close>

lemma write_atomic_agree:
  assumes "is_target p" and "wf_fs (w_fs w)" and "write_atomic E p d b w = (r, w')" and "q \<noteq> p" and "q \<noteq> tmp_of p"
  shows "agree (w_fs w) (w_fs w') q"
  using write_atomic_cases [OF assms(1-3)] assms(4,5) by (auto simp: wa_before_def wa_after_def split: sum.splits)

lemma agree_mode: "agree s t q \<Longrightarrow> file_mode s q = Some m \<Longrightarrow> file_mode t q = Some m"
  using cur_in_vers [of t q] by (auto simp: agree_def file_mode_def split: entry.splits)

text \<open>The three files of an enrollment in the directory, with the mode of the key.\<close>

lemma put_calm:
  assumes "is_target p" and "path_parent p = Some dir" and "wf_fs (w_fs w)" and "flat dir (w_fs w)"
  obtains w' where "write_atomic calm p x b w = (Inr (), w')" and "wf_fs (w_fs w')" and "flat dir (w_fs w')"
    and "content (w_fs w') p = Some x"
    and "\<And>q. q \<noteq> p \<Longrightarrow> q \<noteq> tmp_of p \<Longrightarrow> agree (w_fs w) (w_fs w') q"
    and "cur (w_fs w) (tmp_of p) = Absent \<Longrightarrow> file_mode (w_fs w') p = Some (if b then 0x180 else 0x1A4)"
proof -
  have n: "path_file_name p \<noteq> None" using assms(1) by (simp add: is_target_def)
  obtain r w' where r: "write_atomic calm p x b w = (r, w')" by (cases "write_atomic calm p x b w")
  have "r = Inr ()"
    using write_atomic_succeeds [OF assms(1) flat_clear [OF assms(4,2,1)], of calm x b] r by simp
  then have run: "write_atomic calm p x b w = (Inr (), w')" using r by simp
  obtain m where "path_file_name p = Some m" using n by blast
  from keepsD [OF flat_keeps [OF assms(2) this] assms(4) run] have "flat dir (w_fs w')" .
  with that run wa.put_ok [OF assms(1,3), of calm x b] wa.put_done [OF assms(1,3) run] write_atomic_agree [OF assms(1,3) run]
    write_atomic_mode [OF assms(1,2) _ run]
  show thesis by simp
qed

lemma read_str_calm:
  assumes "content (w_fs w) p = Some d" and "valid_utf8 d"
  obtains w' where "read_to_string calm p w = (Inr d, w')" and "w_fs w' = w_fs w"
proof -
  have "fs_read p (w_fs w) = Inr (d, w_fs w)" using assms(1) by (auto simp: fs_read_def content_def split: entry.splits)
  then show thesis using that assms(2) by (simp add: read_to_string_def prim_def fs_read_str_def)
qed

lemma agree_others: "agree s t q \<Longrightarrow> content s q = Some x \<Longrightarrow> content t q = Some x"
  by (simp add: agree_content)

lemma contains_concat: "str_contains p a \<Longrightarrow> str_contains p (a @ b)"
  unfolding str_contains_iff by (metis append.assoc)

lemma ca_bundle_calm:
  assumes "\<And>der. el_to_pem L der = Inr (pem der)"
  shows "ca_bundle L cas w = (Inr (concat (map pem cas)), w)"
proof -
  have "io_map cas (\<lambda>cert. io_ctx ''encode CA certificate PEM'' (io_lift (el_to_pem L cert))) w = (Inr (map pem cas), w)" for w :: world
    by (induction cas arbitrary: w) (simp_all add: assms io_defs)
  then show ?thesis by (simp add: ca_bundle_def io_bind_def)
qed

lemma mock_bootstrap:
  assumes "mock_server L cas leaf key pem" and "content (w_fs w) (ec_ca_cert_file (nc_est c)) = Some ca"
    and "ec_bearer_token (nc_est c) = ''test-token''"
  obtains w1 where "w_fs w1 = w_fs w" and "bootstrap_enroll L calm c None w =
      io_then (io_ctx ''write node certificate'' (write_atomic calm (nc_cert_file c) (pem leaf) False))
      (io_then (io_ctx ''write node key'' (write_atomic calm (nc_key_file c) key True))
        (io_ctx ''write client CA bundle'' (write_atomic calm (nc_client_ca c) (concat (map pem cas)) False))) w1"
proof -
  obtain f where f: "\<And>t i. el_csr L t i = Inr (f t i, key)"
    using assms(1) unfolding mock_server_def by metis
  have m: "el_server_url L u = Inr ()" "el_build L cfg = Inr ()" "el_connect L t cfg = Inr ()"
    "cc_auth cfg = Bearer ''test-token'' \<Longrightarrow> el_ca_certs L t cfg = Inr cas" "cas \<noteq> []"
    "cc_auth cfg = Bearer ''test-token'' \<Longrightarrow> el_enroll L t cfg csr = Inr (Issued leaf)"
    "el_to_pem L der = Inr (pem der)" for u cfg t csr der
    using assms(1) unfolding mock_server_def by blast+
  obtain w0 where w0: "read_file calm (ec_ca_cert_file (nc_est c)) w = (Inr ca, w0)" "w_fs w0 = w_fs w"
    using read_calm [OF assms(2)] by blast
  define cfg where "cfg = \<lparr>cc_server_url = ec_server_url (nc_est c), cc_trust = [ca], cc_auth = Bearer ''test-token'',
      cc_ca_label = (case ec_label (nc_est c) of None \<Rightarrow> None | Some l \<Rightarrow> if l = [] then None else Some l)\<rparr>"
  have build: "build_est_config L calm c (Bearer (ec_bearer_token (nc_est c))) w = (Inr cfg, w0)"
    by (simp add: build_est_config_def io_defs w0 m assms(3) cfg_def Let_def)
  have auth: "cc_auth cfg = Bearer ''test-token''" by (simp add: cfg_def)
  obtain w1 where w1: "est_client_new L cfg w0 = (Inr cfg, w1)" "w_fs w1 = w_fs w0"
    by (auto simp: est_client_new_def lib_call_def io_defs m)
  obtain w2 where w2: "io_ctx ''EST cacerts failed'' (lib_call ''get_ca_certs'' [] (\<lambda>t. el_ca_certs L t cfg)) w1 = (Inr cas, w2)" "w_fs w2 = w_fs w1"
    by (auto simp: lib_call_def io_defs m(4) [OF auth])
  obtain csr w3 where w3: "generate_node_csr L (nc_node_id c) w2 = (Inr (csr, key), w3)" "w_fs w3 = w_fs w2"
    by (auto simp: generate_node_csr_def lib_call_def io_defs f)
  obtain w4 where w4: "io_ctx ''EST simpleenroll failed'' (lib_call ''simple_enroll'' [csr] (\<lambda>t. el_enroll L t cfg csr)) w3 =
      (Inr (Issued leaf), w4)" "w_fs w4 = w_fs w3"
    by (auto simp: lib_call_def io_defs m(6) [OF auth])
  have wi: "write_identity L calm c leaf key w4 =
      io_then (io_ctx ''write node certificate'' (write_atomic calm (nc_cert_file c) (pem leaf) False))
        (io_ctx ''write node key'' (write_atomic calm (nc_key_file c) key True)) w4"
    by (simp add: write_identity_def io_bind_def io_ctx_def m)
  have "bootstrap_enroll L calm c None w = io_then (enroll_identity L calm c None cfg) (io_bind (ca_bundle L cas)
      (\<lambda>pem. io_ctx ''write client CA bundle'' (write_atomic calm (nc_client_ca c) pem False))) w2"
    unfolding bootstrap_enroll_def using build w1(1) w2(1) m(5) by (simp add: io_bind_Inr)
  also have "\<dots> = io_then (write_identity L calm c leaf key) (io_bind (ca_bundle L cas)
      (\<lambda>pem. io_ctx ''write client CA bundle'' (write_atomic calm (nc_client_ca c) pem False))) w4"
    by (simp add: enroll_identity_def io_then_def io_bind_def w3(1) w4(1) [unfolded io_bind_def] split: prod.split sum.split)
  also have "\<dots> = io_then (io_ctx ''write node certificate'' (write_atomic calm (nc_cert_file c) (pem leaf) False))
      (io_then (io_ctx ''write node key'' (write_atomic calm (nc_key_file c) key True))
        (io_ctx ''write client CA bundle'' (write_atomic calm (nc_client_ca c) (concat (map pem cas)) False))) w4"
    using wi by (auto simp: io_then_def io_bind_def ca_bundle_calm [OF m(7)] split: prod.split sum.split)
  finally show thesis using that w1(2) w2(2) w3(2) w4(2) w0(2) by simp
qed

lemma tmp_join: "tmp_of (path_join d n) = path_join d (tmp_name n)"
  by (simp add: tmp_of_def path_file_name_def path_join_def)

lemma join_inject: "path_join d m = path_join d n \<longleftrightarrow> m = n"
  by (simp add: path_join_def)

lemmas lab_paths = in_dir_sel tmp_join join_inject tmp_name_def

lemma install_ignored: "io_ignore (install_crypto_provider B) w = (Inr (), w)"
  by (simp add: install_crypto_provider_def io_ignore_run io_ret_def io_err_def split: sum.split)

lemma still_absent:
  assumes "agree s t (path_join dir n)" and "cur s (path_join dir n) = Absent" and "flat dir t"
  shows "cur t (path_join dir n) = Absent"
  using assms lab_names(4) [of dir n] by (auto simp: agree_def flat_def split: entry.splits)

lemma mock_texts:
  assumes "mock_server L cas leaf key pem"
  shows "valid_utf8 key" "valid_utf8 (pem leaf)" "valid_utf8 (concat (map pem cas))" "str_contains ''PRIVATE KEY'' key"
    "str_contains ''BEGIN CERTIFICATE'' (pem leaf)" "str_contains ''BEGIN CERTIFICATE'' (concat (map pem cas))"
proof -
  show "valid_utf8 key" "valid_utf8 (pem leaf)" "valid_utf8 (concat (map pem cas))" "str_contains ''PRIVATE KEY'' key"
    "str_contains ''BEGIN CERTIFICATE'' (pem leaf)"
    using assms by (simp_all add: mock_server_def)
  obtain c cs where "cas = c # cs" "str_contains ''BEGIN CERTIFICATE'' (pem c)"
    using assms by (cases cas) (auto simp: mock_server_def)
  then show "str_contains ''BEGIN CERTIFICATE'' (concat (map pem cas))" by (simp add: contains_concat)
qed

lemma enroll_test:
  assumes "lab dir (w_fs w)" and "mock_server (nl_est B) cas leaf key pem"
    and "cur (w_fs w) (tmp_of (path_join dir ''server.key'')) = Absent"
  shows "passes (enroll_against_mock_writes_pki B calm uri dir est_ca) w"
proof -
  let ?crt = "path_join dir ''server.crt''" and ?key = "path_join dir ''server.key''" and ?ca = "path_join dir ''client-ca.crt''"
  let ?c0 = "in_dir dir (test_config uri None)"
  let ?c = "?c0\<lparr>nc_est := (nc_est ?c0)\<lparr>ec_bearer_token := ''test-token''\<rparr>\<rparr>"
  obtain w2 where w2: "std_write calm (path_join dir ''est-ca.pem'') est_ca w = (Inr (), w2)" "lab dir (w_fs w2)"
    "content (w_fs w2) (path_join dir ''est-ca.pem'') = Some est_ca"
    "\<And>q. q \<noteq> path_join dir ''est-ca.pem'' \<Longrightarrow> cur (w_fs w2) q = cur (w_fs w) q"
    by (rule std_write_lab [OF assms(1), where n = "''est-ca.pem''" and x = est_ca]) blast
  have "content (w_fs w2) (ec_ca_cert_file (nc_est ?c)) = Some est_ca" "ec_bearer_token (nc_est ?c) = ''test-token''"
    using w2(3) by (simp_all add: in_dir_sel)
  from mock_bootstrap [OF assms(2) this] obtain w3 where w3: "w_fs w3 = w_fs w2"
    "bootstrap_enroll (nl_est B) calm ?c None w2 =
      io_then (io_ctx ''write node certificate'' (write_atomic calm ?crt (pem leaf) False))
      (io_then (io_ctx ''write node key'' (write_atomic calm ?key key True))
        (io_ctx ''write client CA bundle'' (write_atomic calm ?ca (concat (map pem cas)) False))) w3"
    by (auto simp: in_dir_sel)
  have ok3: "wf_fs (w_fs w3)" "flat dir (w_fs w3)" using w2(2) by (simp_all add: w3(1) lab_def solo_wf)
  obtain w4 where w4: "write_atomic calm ?crt (pem leaf) False w3 = (Inr (), w4)" "wf_fs (w_fs w4)" "flat dir (w_fs w4)"
    "content (w_fs w4) ?crt = Some (pem leaf)" "\<And>q. q \<noteq> ?crt \<Longrightarrow> q \<noteq> tmp_of ?crt \<Longrightarrow> agree (w_fs w3) (w_fs w4) q"
    by (rule put_calm [OF lab_names(1,4) ok3, where x = "pem leaf" and b = False]) blast
  have "cur (w_fs w3) (tmp_of ?key) = Absent" using assms(3) w2(4) by (simp add: w3(1) lab_paths)
  then have tk: "cur (w_fs w4) (tmp_of ?key) = Absent"
    unfolding tmp_join by (intro still_absent [OF w4(5) _ w4(3)]) (simp_all add: lab_paths)
  obtain w5 where w5: "write_atomic calm ?key key True w4 = (Inr (), w5)" "wf_fs (w_fs w5)" "flat dir (w_fs w5)"
    "content (w_fs w5) ?key = Some key" "\<And>q. q \<noteq> ?key \<Longrightarrow> q \<noteq> tmp_of ?key \<Longrightarrow> agree (w_fs w4) (w_fs w5) q"
    "file_mode (w_fs w5) ?key = Some 0x180"
    by (rule put_calm [OF lab_names(2,4) w4(2,3), where x = key and b = True]) (use tk in simp)
  obtain w6 where w6: "write_atomic calm ?ca (concat (map pem cas)) False w5 = (Inr (), w6)"
    "content (w_fs w6) ?ca = Some (concat (map pem cas))" "\<And>q. q \<noteq> ?ca \<Longrightarrow> q \<noteq> tmp_of ?ca \<Longrightarrow> agree (w_fs w5) (w_fs w6) q"
    by (rule put_calm [OF lab_names(3,4) w5(2,3), where x = "concat (map pem cas)" and b = False]) blast
  have crt: "content (w_fs w6) ?crt = Some (pem leaf)"
    using agree_others [OF w6(3) agree_others [OF w5(5) w4(4)]] by (simp add: lab_paths)
  have key: "content (w_fs w6) ?key = Some key" "file_mode (w_fs w6) ?key = Some 0x180"
    using agree_others [OF w6(3) w5(4)] agree_mode [OF w6(3) w5(6)] by (simp_all add: lab_paths)
  note texts = mock_texts [OF assms(2)]
  obtain w7 where w7: "read_to_string calm ?crt w6 = (Inr (pem leaf), w7)" "w_fs w7 = w_fs w6"
    by (rule read_str_calm [OF crt texts(2)])
  obtain w8 where w8: "read_to_string calm ?key w7 = (Inr key, w8)" "w_fs w8 = w_fs w6"
    by (rule read_str_calm [of w7 ?key key]) (simp_all add: w7(2) key(1) texts(1))
  obtain w9 where w9: "read_to_string calm ?ca w8 = (Inr (concat (map pem cas)), w9)" "w_fs w9 = w_fs w6"
    by (rule read_str_calm [of w8 ?ca "concat (map pem cas)"]) (simp_all add: w8(2) w6(2) texts(3))
  have md: "mode_of ?key w9 = (Inr 0x180, w9)" by (simp add: mode_of_def w9(2) key(2))
  have "bootstrap_enroll (nl_est B) calm ?c None w2 = (Inr (), w6)"
    by (simp add: w3(2) io_then_def io_bind_def io_ctx_def w4(1) w5(1) w6(1))
  then show ?thesis
    unfolding passes_def enroll_against_mock_writes_pki_def Let_def
    using install_ignored [of B w] w2(1) w7(1) w8(1) w9(1) md texts(4-6)
    by (simp add: io_then_Inr io_bind_Inr in_dir_sel)
qed

lemma mock_reenroll:
  assumes "mock_server L cas leaf key pem" and "content (w_fs w) (ec_ca_cert_file (nc_est c)) = Some ca"
    and "content (w_fs w) (nc_cert_file c) = Some old" and "content (w_fs w) (nc_key_file c) = Some old_key"
  obtains w1 where "w_fs w1 = w_fs w" and "reenroll L calm c None w =
      io_then (io_ctx ''write node certificate'' (write_atomic calm (nc_cert_file c) (pem leaf) False))
        (io_ctx ''write node key'' (write_atomic calm (nc_key_file c) key True)) w1"
proof -
  obtain f where f: "\<And>t i. el_csr L t i = Inr (f t i, key)"
    using assms(1) unfolding mock_server_def by metis
  have m: "el_server_url L u = Inr ()" "el_build L cfg = Inr ()" "el_connect L t cfg = Inr ()"
    "el_reenroll L t cfg csr = Inr (Issued leaf)" "el_to_pem L der = Inr (pem der)" for u cfg t csr der
    using assms(1) unfolding mock_server_def by blast+
  obtain a where a: "read_file calm (nc_cert_file c) w = (Inr old, a)" "w_fs a = w_fs w" using read_calm [OF assms(3)] by blast
  obtain b where b: "read_file calm (nc_key_file c) a = (Inr old_key, b)" "w_fs b = w_fs w"
    using read_calm [of a "nc_key_file c" old_key] assms(4) a(2) by auto
  obtain w0 where w0: "read_file calm (ec_ca_cert_file (nc_est c)) b = (Inr ca, w0)" "w_fs w0 = w_fs w"
    using read_calm [of b "ec_ca_cert_file (nc_est c)" ca] assms(2) b(2) by auto
  obtain cfg where build: "build_est_config L calm c (ClientCert old old_key) b = (Inr cfg, w0)"
    by (simp add: build_est_config_def io_defs w0 m Let_def)
  obtain w1 where w1: "est_client_new L cfg w0 = (Inr cfg, w1)" "w_fs w1 = w_fs w0"
    by (auto simp: est_client_new_def lib_call_def io_defs m)
  obtain csr w3 where w3: "generate_node_csr L (nc_node_id c) w1 = (Inr (csr, key), w3)" "w_fs w3 = w_fs w1"
    by (auto simp: generate_node_csr_def lib_call_def io_defs f)
  obtain w4 where w4: "io_ctx ''EST simplereenroll failed'' (lib_call ''simple_reenroll'' [csr] (\<lambda>t. el_reenroll L t cfg csr)) w3 =
      (Inr (Issued leaf), w4)" "w_fs w4 = w_fs w3"
    by (auto simp: lib_call_def io_defs m)
  have "reenroll L calm c None w = write_identity L calm c leaf key w4"
    unfolding reenroll_def option.case
    using a(1) b(1) build w1(1) w3(1) w4(1) by (simp add: io_bind_def io_ctx_def)
  also have "\<dots> = io_then (io_ctx ''write node certificate'' (write_atomic calm (nc_cert_file c) (pem leaf) False))
        (io_ctx ''write node key'' (write_atomic calm (nc_key_file c) key True)) w4"
    by (simp add: write_identity_def io_bind_def io_ctx_def m)
  finally show thesis using that w1(2) w3(2) w4(2) w0(2) by simp
qed

lemma reenroll_test:
  assumes "lab dir (w_fs w)" and "mock_server (nl_est B) cas leaf key pem" and "key \<noteq> original_key"
  shows "passes (reenroll_against_mock_rotates_identity B calm uri dir est_ca node_pem original_key) w"
proof -
  let ?crt = "path_join dir ''server.crt''" and ?key = "path_join dir ''server.key''" and ?est = "path_join dir ''est-ca.pem''"
  let ?c = "in_dir dir (test_config uri None)"
  obtain w2 where w2: "std_write calm ?est est_ca w = (Inr (), w2)" "lab dir (w_fs w2)" "content (w_fs w2) ?est = Some est_ca"
    by (rule std_write_lab [OF assms(1), where n = "''est-ca.pem''" and x = est_ca]) blast
  obtain w3 where w3: "std_write calm ?crt node_pem w2 = (Inr (), w3)" "lab dir (w_fs w3)" "content (w_fs w3) ?crt = Some node_pem"
    "content (w_fs w3) ?est = Some est_ca"
    by (rule std_write_lab [OF w2(2), where n = "''server.crt''" and x = node_pem]) (use w2(3) in \<open>simp add: lab_paths\<close>)
  obtain w4 where w4: "std_write calm ?key original_key w3 = (Inr (), w4)" "lab dir (w_fs w4)" "content (w_fs w4) ?key = Some original_key"
    "content (w_fs w4) ?crt = Some node_pem" "content (w_fs w4) ?est = Some est_ca"
    by (rule std_write_lab [OF w3(2), where n = "''server.key''" and x = original_key]) (use w3(3,4) in \<open>simp add: lab_paths\<close>)
  obtain w5 where w5: "w_fs w5 = w_fs w4" "reenroll (nl_est B) calm ?c None w4 =
      io_then (io_ctx ''write node certificate'' (write_atomic calm ?crt (pem leaf) False))
        (io_ctx ''write node key'' (write_atomic calm ?key key True)) w5"
    using mock_reenroll [OF assms(2), of w4 ?c est_ca node_pem original_key] w4(3-5) by (auto simp: in_dir_sel)
  have ok5: "wf_fs (w_fs w5)" "flat dir (w_fs w5)" using w4(2) by (simp_all add: w5(1) lab_def solo_wf)
  obtain w6 where w6: "write_atomic calm ?crt (pem leaf) False w5 = (Inr (), w6)" "wf_fs (w_fs w6)" "flat dir (w_fs w6)"
    "content (w_fs w6) ?crt = Some (pem leaf)"
    by (rule put_calm [OF lab_names(1,4) ok5, where x = "pem leaf" and b = False]) blast
  obtain w7 where w7: "write_atomic calm ?key key True w6 = (Inr (), w7)" "content (w_fs w7) ?key = Some key"
    "\<And>q. q \<noteq> ?key \<Longrightarrow> q \<noteq> tmp_of ?key \<Longrightarrow> agree (w_fs w6) (w_fs w7) q"
    by (rule put_calm [OF lab_names(2,4) w6(2,3), where x = key and b = True]) blast
  have crt: "content (w_fs w7) ?crt = Some (pem leaf)" using agree_others [OF w7(3) w6(4)] by (simp add: lab_paths)
  note texts = mock_texts [OF assms(2)]
  obtain w8 where w8: "read_to_string calm ?crt w7 = (Inr (pem leaf), w8)" "w_fs w8 = w_fs w7"
    by (rule read_str_calm [OF crt texts(2)])
  obtain w9 where w9: "read_to_string calm ?key w8 = (Inr key, w9)"
    by (rule read_str_calm [of w8 ?key key]) (simp_all add: w8(2) w7(2) texts(1))
  have "reenroll (nl_est B) calm ?c None w4 = (Inr (), w7)"
    by (simp add: w5(2) io_then_def io_bind_def io_ctx_def w6(1) w7(1))
  then show ?thesis
    unfolding passes_def reenroll_against_mock_rotates_identity_def Let_def
    using install_ignored [of B w] w2(1) w3(1) w4(1) w8(1) w9(1) texts(4,5) assms(3)
    by (simp add: io_then_Inr io_bind_Inr in_dir_sel)
qed

section \<open>The assumptions can hold\<close>

definition lab_dir :: path where "lab_dir = [RootDir, Normal ''t'']"

definition lab_world :: world where "lab_world = world_of (add_dir lab_dir empty_fs)"

definition lab_server :: est_lib where
  "lab_server = sample_lib
     \<lparr>el_ca_certs := (\<lambda>_ _. Inr [''ca'']), el_enroll := (\<lambda>_ _ _. Inr (Issued ''leaf'')), el_reenroll := (\<lambda>_ _ _. Inr (Issued ''leaf'')),
      el_csr := (\<lambda>_ _. Inr (''csr'', ''PRIVATE KEY'')), el_to_pem := (\<lambda>der. Inr (''BEGIN CERTIFICATE'' @ der))\<rparr>"

lemma lab_ready: "lab lab_dir (w_fs lab_world)" "cur (w_fs lab_world) (path_join lab_dir n) = Absent"
proof -
  have v: "vers (w_fs lab_world) q = (if q = lab_dir then [Directory] else [Absent])" for q
    by (simp add: lab_world_def world_of_def vers_add_dir) (simp add: vers_def empty_fs_def)
  then have c: "cur (w_fs lab_world) q = (if q = lab_dir then Directory else Absent)" for q by (simp add: cur_def)
  have child: "path_parent q = Some lab_dir \<Longrightarrow> q \<noteq> lab_dir" for q using path_parent_shorter [of q lab_dir] by auto
  show "cur (w_fs lab_world) (path_join lab_dir n) = Absent" by (simp add: c path_join_def)
  show "lab lab_dir (w_fs lab_world)"
    using child by (auto simp: lab_def solo_def refs_used_def unshared_def v c is_dir_def flat_def blocked_iff)
qed

lemma lab_mock: "mock_server lab_server [''ca''] ''leaf'' ''PRIVATE KEY'' (\<lambda>der. ''BEGIN CERTIFICATE'' @ der)"
proof -
  have "valid_utf8 ''PRIVATE KEY''" "valid_utf8 (''BEGIN CERTIFICATE'' @ ''leaf'')" "valid_utf8 (''BEGIN CERTIFICATE'' @ ''ca'')"
    "str_contains ''PRIVATE KEY'' ''PRIVATE KEY''" by code_simp+
  moreover have "str_contains ''BEGIN CERTIFICATE'' (''BEGIN CERTIFICATE'' @ der)" for der
    unfolding str_contains_iff by (rule exI [of _ "[]"]) simp
  ultimately show ?thesis by (simp add: mock_server_def lab_server_def sample_lib_sel)
qed

definition lab_libs :: noded_lib where
  "lab_libs = (sample_libs (Inr ()))\<lparr>nl_est := lab_server\<rparr>"

lemma lab_libs_mock: "mock_server (nl_est lab_libs) [''ca''] ''leaf'' ''PRIVATE KEY'' (\<lambda>der. ''BEGIN CERTIFICATE'' @ der)"
  using lab_mock by (simp add: lab_libs_def)

lemma enroll_test_example:
  "passes (enroll_against_mock_writes_pki lab_libs calm ''http://[::1]'' lab_dir ''EST CA'') lab_world"
  by (rule enroll_test [OF lab_ready(1) lab_libs_mock]) (simp add: tmp_join lab_ready(2))

lemma reenroll_test_example:
  "passes (reenroll_against_mock_rotates_identity lab_libs calm ''http://[::1]'' lab_dir ''EST CA'' ''leaf'' ''old key'') lab_world"
  by (rule reenroll_test [OF lab_ready(1) lab_libs_mock]) simp

end
