(* ===== verification/Spec2Isabelle.thy ===== *)
theory Spec2Isabelle
  imports Initd_Other Noded_Serve Concurrent_Writes Intent_Durability Source_Tests_Files
begin

text \<open>
  \<^bold>\<open>NodeOS\<close>, an immutable operating system for cluster nodes, is two Rust programs. \<open>initd\<close>
  (src/crates/initd) is process 1: it makes directories, mounts, formats and unlocks disks with a key
  sealed in the TPM, makes the root read-only, brings up interfaces, and starts and supervises the
  services of its configuration. \<open>noded\<close> (src/crates/noded) is one of these services: it enrolls the
  node with an EST server, keeps its certificate fresh, serves the management API over mutual TLS,
  and turns the intent an operator puts there into the configuration of the workload. The two meet
  in the file system: \<open>initd\<close> holds the kubelet back until \<open>noded\<close> has written its bootstrap kubeconfig.

  \<^bold>\<open>The machine.\<close> Every operation is a command \<open>world \<Rightarrow> (err + 'a) \<times> world\<close>. The world holds the file
  system, the states it passed through, the trace of system calls and library calls with their
  answers, and a clock. The file system keeps for each path the entries since the last directory
  sync and for each inode whether its data is synced, so that a crash can be asked for in any state.
  An \<open>env\<close> decides which call fails, when, and how; what external programs do to the disk; and what
  happens while a process sleeps. A \<open>write_all\<close> that fails leaves a proper first part of its data. Theorems quantify over it. Errors are values that carry the
  contexts the code adds. Code outside the repository (TOML, YAML, JSON and PEM parsers, the EST
  client, PKCS#11, rustls, axum's extractors, the random numbers) are record parameters.

  \<^bold>\<open>Theories and sources.\<close>
  \<^item> \<open>Prelude\<close>: the command combinators and the shared lemmas on them. \<open>Rust_Str\<close>, \<open>Rust_Path\<close>, \<open>Rust_Net\<close>:
    what the sources use of \<open>str\<close>, \<open>Path\<close> and \<open>std::net\<close>. \<open>Host\<close>: the world and its system calls.
  \<^item> \<open>Write_Atomic\<close>, \<open>Durable_Files\<close>, \<open>Put_Success\<close>, \<open>Power_Loss\<close>, \<open>Concurrent_Writes\<close>: \<open>write_atomic\<close> of
    est.rs, through which \<open>noded\<close> writes all its files but the PIN. The locale \<open>file_store\<close> is its contract,
    interpreted on it; sequences of writes are proved in the locale. \<open>Power_Loss\<close> says which file systems a
    machine may come up with (\<open>after_crash\<close>), extends the contract to \<open>durable_store\<close>, which
    \<open>write_atomic\<close> meets where directory syncs work, and proves what a power loss leaves of a sequence.
    \<open>Concurrent_Writes\<close> makes a call a state machine of its system calls (\<open>wa_step\<close>) and interleaves
    threads that each write a list of files.
  \<^item> \<open>Initd_Config\<close>, \<open>Initd_Mounts\<close>, \<open>Initd_Tpm\<close>, \<open>Initd_Disks\<close>, \<open>Disk_Safety\<close>, \<open>Initd_Services\<close>,
    \<open>Initd_Boot\<close>: initd/src/main.rs, in the order of the file; \<open>initd_main\<close> is \<open>main\<close>. \<open>Initd_Other\<close>: the
    stubs that replace the system calls on other systems than Linux.
  \<^item> \<open>Authorization\<close>, \<open>Noded_Config\<close>, \<open>Server_Cert\<close>, \<open>Api\<close>, \<open>Api_Safety\<close>, \<open>Api_Register\<close>,
    \<open>Intent_Durability\<close>, \<open>Noded_Run\<close>, \<open>Noded_Serve\<close>: noded/src/main.rs; \<open>noded_main\<close> is \<open>main\<close>,
    \<open>noded_start\<close> is \<open>run\<close> up to the listening socket, and \<open>node_step\<close> is what can happen after it: connections accepted and their handshakes,
    requests on them, turns of the renewal task, the shutdown signal and errors of \<open>accept\<close>. \<open>Intent_Durability\<close>
    follows an intent over power losses and boots (\<open>node_life\<close>) and up to the start of the kubelet.
  \<^item> \<open>Intent\<close>, \<open>Workload\<close>, \<open>Workload_Safety\<close>: noded/src/workload; the trait is the locale
    \<open>workload_profile\<close>, interpreted on the k8s and the kvm profile.
  \<^item> \<open>Est\<close>, \<open>Est_Safety\<close>: est.rs without \<open>write_atomic\<close>. \<open>Pkcs11\<close>: pkcs11.rs.
  \<^item> \<open>Source_Tests\<close>, \<open>Source_Tests_Files\<close>: the unit tests of \<open>noded\<close> on the model, under the names of the
    test functions, with the lemmas that they pass.

  \<^bold>\<open>What is shown.\<close>
  \<^item> Files: each write is old or new in every state and after a crash in any state; what success and
    failure leave; when success is durable; threads with separate targets do not disturb each other
    under any interleaving of their system calls.
  \<^item> Disks: nothing is formatted without \<open>formatIfEmpty\<close>, an encrypted disk only after it was found
    empty, a file system is made only after the key is sealed; the key file does not outlive
    its use; policy sessions are flushed on every path.
  \<^item> Services: a gated service runs only after its marker was seen, through all rounds; waiting ends;
    deferred services are retried; the boot order.
  \<^item> API: who is let in and what is logged; only an operator's valid intent, on a connection whose
    certificate chain was verified, changes files; the audit log is the sequence of requests; the intent
    file refines a register of acknowledged intents and survives a restart; the check of
    intents is equivalent to a grammar.
  \<^item> Configuration: what \<open>load_config\<close> accepts, and every field of the result with its default.
  \<^item> Identity: in every state of an enrollment a new CA bundle implies a new matching pair; renewal is in
    time, is served without a restart and never takes the server down; the token is used for the
    bootstrap only; retries are bounded; a node with its PKI present comes up unless its certificate,
    the TLS configuration or the socket fails, and then ends in exactly two ways.
  \<^item> Together: the kubelet never starts on a half-written configuration, other writers beside or not, and
    not after a power loss either; a valid intent of an operator starts it.
  \<^item> Power losses: over any sequence of requests, interrupted requests and power losses the intent file
    is a register of acknowledged intents; a first enrollment leaves a CA bundle only beside a matching
    pair. These hold where directory syncs work, which \<open>write_atomic\<close> does not check: one theorem shows what
    is lost where they fail, another that the first intent of a node can be lost even where they work,
    with the directory made for it. The crash model completes or undoes a rename that is half on disk, as
    journaling file systems do, and loses what lies below a directory whose own entry was not synced.
  \<^item> Some theorems are about behaviour the comments do not have: a mixed target after two overlapping
    writes, a new certificate with an old key, a torn PIN file, a lost disk key, an injected line in the
    kubeconfig, a mixed configuration after a failed replacement, a single failed respawn that ends process 1.

  \<^bold>\<open>Bounds.\<close> The endless loops \<open>supervise\<close> and \<open>renewal_loop\<close> take the number of their rounds as an argument,
  and theorems hold for every number. The other loops end by themselves: \<open>await_loop\<close> by its deadline,
  with a termination proof, and the enrollment loops by their number of attempts (30 and 6).
  Request numbers are 64 bit words and wrap as in the code. Times are natural numbers, with the overflow of
  \<open>Instant\<close> written out where a configured timeout can reach it.

  \<^bold>\<open>Not modelled.\<close> Logging, \<open>init_tracing\<close> and the PID check, which change nothing; the inside of the TLS handshake and HTTP framing, which are the libraries' (the verifier of client
  chains is a parameter of the running node); shell scripts and the image build. In
  \<open>Noded_Serve\<close> requests and renewal turns are whole steps; how their file writes
  interleave below that is the subject of \<open>Concurrent_Writes\<close>, where a thread is the list of files it
  writes.
\<close>

section \<open>From the API to the kubelet\<close>

text \<open>
  C4. The kubelet never starts on a half-written configuration. On a node without a bootstrap
  kubeconfig, take any state of the file system that \<open>PUT /v1/config\<close> passes through, whatever
  fails on the way, and a turn of \<open>initd\<close>'s supervision in that state: if the turn starts the
  service that waits for the kubeconfig, then the persisted intent, the cluster CA, the kubelet
  configuration and the kubeconfig are all those of the request.
\<close>

theorem kubelet_starts_complete:
  assumes "as_workload st = new_profile (al_from_pem A) E K8s" and "wf_fs (w_fs (sr_world s))"
    and "content (w_fs (sr_world s)) (path_of BOOTSTRAP_KUBECONFIG_PATH) = None"
    and "al_extract A rq = Inr raw" and "put_config A E st rq s = (resp, s')"
    and "w_fs v \<in> set (passed (sr_world s) (sr_world s'))"
    and "cur (w_fs v) (path_of BOOTSTRAP_KUBECONFIG_PATH) = Absent \<or>
      content (w_fs v) (path_of BOOTSTRAP_KUBECONFIG_PATH) \<noteq> None"
    and "sv_start_when svc = Some (path_of BOOTSTRAP_KUBECONFIG_PATH)"
    and "supervise_one E' \<lparr>rn_spec = svc, rn_child = None\<rparr> v = (Inr rn, v')" and "rn_child rn \<noteq> None"
  shows "(\<exists>bytes. al_to_vec A (intent_of_raw raw) = Inr bytes \<and>
      content (w_fs v') (path_of NODE_INTENT_PATH) = Some bytes) \<and>
    content (w_fs v') (path_of CLUSTER_CA_PATH) = Some (ni_cluster_ca (intent_of_raw raw)) \<and>
    content (w_fs v') (path_of KUBELET_CONFIG_PATH) = Some (render_kubelet_config (intent_of_raw raw)) \<and>
    content (w_fs v') (path_of BOOTSTRAP_KUBECONFIG_PATH) = Some (render_bootstrap_kubeconfig (intent_of_raw raw))"
proof -
  let ?i = "intent_of_raw raw" and ?m = "path_of BOOTSTRAP_KUBECONFIG_PATH"
  have "apply_intent A E st ?i s = (resp, s')" using assms(4,5) by (simp add: put_config_def)
  moreover have "sr_world s' \<noteq> sr_world s" using assms(6) by (auto simp: passed_def)
  ultimately obtain bytes where b: "al_to_vec A ?i = Inr bytes"
    "sr_world s' = snd (put_items (write_atomic E) (intent_items bytes ?i) (sr_world s))"
    using apply_intent_puts [OF assms(1)] by metis
  note gate = started_gate [OF assms(8-10)]
  obtain ts where "w_snaps (sr_world s') = w_snaps (sr_world s) @ ts"
    "\<forall>t \<in> set ts. commit_prefix (w_fs (sr_world s)) (intent_items bytes ?i) t"
    using wa.puts_hist [OF intent_items_facts assms(2), of E bytes ?i] b(2) by auto
  with assms(6) have cp: "commit_prefix (w_fs (sr_world s)) (intent_items bytes ?i) (w_fs v)"
    by (auto simp: passed_append)
  have new: "content (w_fs v) (item_path it) = Some (item_data it)" if "it \<in> set (intent_items bytes ?i)" for it
    by (rule intent_complete [OF cp assms(3) _ that]) (use gate(1) assms(7) in blast)
  show ?thesis
    using b(1) new [of "intent_items bytes ?i ! 0"] new [of "intent_items bytes ?i ! 1"]
      new [of "intent_items bytes ?i ! 2"] new [of "intent_items bytes ?i ! 3"]
    by (simp add: gate(2) intent_items_def k8s_items_def)
qed

theorem kubelet_starts_complete_witness:
  "(let s' = snd (put_config sample_api calm (ops_state calm) ops_put fresh_server);
        v' = snd (supervise_one calm \<lparr>rn_spec = kubelet_service, rn_child = None\<rparr> (sr_world s'))
    in content (w_fs v') (path_of CLUSTER_CA_PATH) = Some ''CA'')"
proof -
  let ?m = "path_of BOOTSTRAP_KUBECONFIG_PATH"
  have fresh: "sr_world fresh_server = world_of empty_fs" by (simp add: fresh_server_def)
  obtain s' where run: "put_config sample_api calm (ops_state calm) ops_put fresh_server =
      ((200, Text (''node intent applied'' @ [newline])), s')"
    and m: "content (w_fs (sr_world s')) ?m \<noteq> None"
    by (rule sample_put [OF fresh])
  have none: "content (w_fs (sr_world fresh_server)) ?m = None" by (simp add: fresh empty_content)
  have moved: "w_fs (sr_world s') \<noteq> w_fs (sr_world fresh_server)" using m none by auto
  have "apply_intent sample_api calm (ops_state calm) sample_intent fresh_server =
      ((200, Text (''node intent applied'' @ [newline])), s')"
    using run by (simp add: put_config_def ops_extract sample_raw_intent)
  then have "tracked (w_fs (sr_world fresh_server)) (sr_world s')"
    by (rule apply_intent_puts [OF ops_workload])
      (use moved tracked_puts [of "w_fs (sr_world fresh_server)"] in \<open>auto simp: keeps_def tracked_def fresh world_of_def\<close>)
  then have pass: "w_fs (sr_world s') \<in> set (passed (sr_world fresh_server) (sr_world s'))"
    by (rule tracked_last [OF _ moved]) (simp add: fresh world_of_def)
  have gate: "sv_start_when kubelet_service = Some ?m" by (simp add: kubelet_service_def)
  have "cur (w_fs (sr_world s')) ?m \<noteq> Absent" using m by (auto simp: content_def)
  then obtain rn v' where r: "supervise_one calm \<lparr>rn_spec = kubelet_service, rn_child = None\<rparr> (sr_world s') = (Inr rn, v')"
    "rn_child rn \<noteq> None"
    by (auto simp: supervise_one_def path_exists_def spawn_service_def spawn_def gate calm_def io_defs Let_def)
  have ok: "wf_fs (w_fs (sr_world fresh_server))" using empty_world(1) by (simp add: fresh)
  from kubelet_starts_complete [OF ops_workload ok none ops_extract run pass _ gate r] m
  show ?thesis by (simp add: run r(1) sample_raw_intent sample_intent_def)
qed

section \<open>The same with other writers beside\<close>

text \<open>
  C5. The kubelet never starts on a half-written configuration, not even while other threads write.
  The files of an accepted intent are written by one thread, other threads write other files, a
  renewal its certificate and key for instance, and their system calls interleave in any way and fail
  at any point. In every state they reach, if a turn of \<open>initd\<close>'s supervision starts the service that
  waits for the kubeconfig, then all four files are those of the request.
\<close>

theorem kubelet_complete_concurrent:
  assumes "apart (concat itss)" and "intent_items bytes i \<in> set itss" and "wf_fs (w_fs w)"
    and "content (w_fs w) (path_of BOOTSTRAP_KUBECONFIG_PATH) = None"
    and "conc_reach E (map thread_start itss, w) (ts, v)"
    and "cur (w_fs v) (path_of BOOTSTRAP_KUBECONFIG_PATH) = Absent \<or>
      content (w_fs v) (path_of BOOTSTRAP_KUBECONFIG_PATH) \<noteq> None"
    and "sv_start_when svc = Some (path_of BOOTSTRAP_KUBECONFIG_PATH)"
    and "supervise_one E' \<lparr>rn_spec = svc, rn_child = None\<rparr> v = (Inr rn, v')" and "rn_child rn \<noteq> None"
  shows "list_all (\<lambda>it. content (w_fs v') (item_path it) = Some (item_data it)) (intent_items bytes i)"
proof -
  note gate = started_gate [OF assms(7-9)]
  have ok: "conc_ok itss (w_fs w) (ts, v)"
    by (rule conc_reach_ok [OF assms(1,5) conc_ok_start [OF assms(3)]])
  then obtain t where "t \<in> set ts" "th_items t = intent_items bytes i"
    using assms(2) by (auto simp: conc_ok_def)
  then have "commit_prefix (w_fs w) (intent_items bytes i) (w_fs v)"
    using ok thread_ok_prefix [of "w_fs w" "w_fs v" t] by (simp add: conc_ok_def)
  from intent_complete [OF this assms(4)] show ?thesis using gate assms(6) by (simp add: list_all_iff)
qed

text \<open>A request and a renewal of the sample node at the same time.\<close>

definition busy_node :: "put_item list list" where
  "busy_node = [intent_items ''I'' sample_intent, identity_items sample_conf ''leaf2'' ''key2'']"

theorem kubelet_complete_concurrent_witness:
  "\<exists>ts v. conc_reach calm (map thread_start busy_node, world_of empty_fs) (ts, v) \<and>
     content (w_fs (snd (supervise_one calm \<lparr>rn_spec = kubelet_service, rn_child = None\<rparr> v))) (path_of CLUSTER_CA_PATH) = Some ''CA''"
proof -
  let ?m = "path_of BOOTSTRAP_KUBECONFIG_PATH" and ?its = "intent_items ''I'' sample_intent"
  let ?w = "world_of empty_fs"
  have ap: "apart (concat busy_node)" by code_simp
  have mem: "?its \<in> set busy_node" by (simp add: busy_node_def)
  have none: "content (w_fs ?w) ?m = None" by (simp add: empty_content)
  have fresh: "sr_world fresh_server = ?w" by (simp add: fresh_server_def)
  obtain s' where run: "put_config sample_api calm (ops_state calm) ops_put fresh_server =
      ((200, Text (''node intent applied'' @ [newline])), s')" and m: "content (w_fs (sr_world s')) ?m \<noteq> None"
    by (rule sample_put [OF fresh])
  then have "apply_intent sample_api calm (ops_state calm) sample_intent fresh_server =
      ((200, Text (''node intent applied'' @ [newline])), s')"
    by (simp add: put_config_def ops_extract sample_raw_intent)
  then obtain r where r: "put_items (write_atomic calm) ?its ?w = (r, sr_world s')"
    by (rule apply_intent_puts [OF ops_workload])
      (use m none in \<open>auto simp: fresh sample_api_sel prod_eq_iff\<close>)
  obtain t where t: "conc_reach calm (map thread_start busy_node, ?w) ((map thread_start busy_node)[0 := t], sr_world s')"
    by (rule thread_completes [OF conc_start _ _ r, of 0 "map thread_start busy_node"]) (simp_all add: busy_node_def)
  have gate: "sv_start_when kubelet_service = Some ?m" by (simp add: kubelet_service_def)
  have "cur (w_fs (sr_world s')) ?m \<noteq> Absent" using m by (auto simp: content_def)
  then obtain rn v' where v': "supervise_one calm \<lparr>rn_spec = kubelet_service, rn_child = None\<rparr> (sr_world s') = (Inr rn, v')"
    "rn_child rn \<noteq> None"
    by (auto simp: supervise_one_def path_exists_def spawn_service_def spawn_def gate calm_def io_defs Let_def)
  from kubelet_complete_concurrent [OF ap mem empty_world(1) none t _ gate v'] m
  have "content (w_fs v') (path_of CLUSTER_CA_PATH) = Some ''CA''"
    by (simp add: intent_items_def k8s_items_def sample_intent_def)
  with t v'(1) show ?thesis by (metis snd_conv)
qed

end
